(* ===== verification/Prelude.thy ===== *)
theory Prelude
  imports Main "HOL-Library.Word"
begin

unbundle bit_operations_syntax

text \<open>
  Shared vocabulary of the development: the fixed-width integer types of C, results that
  carry an error, the fact collections the component theories extend, the generic lemmas on
  lists and words that several components use, and the generic interface of a machine that
  runs step by step under an invariant.
\<close>

section \<open>Fixed-width integers\<close>

type_synonym u8 = "8 word"
type_synonym u16 = "16 word"
type_synonym u32 = "32 word"

section \<open>Fact collections\<close>

named_theorems vm_defs \<open>unfolding of the decoder and of the instruction handlers\<close>
named_theorems vm_frame \<open>what an operation of the virtual machine leaves unchanged\<close>
named_theorems cstring \<open>rewrite rules for the C string functions\<close>
named_theorems ledger \<open>effects of the exchange operations on positions and fees\<close>
named_theorems heap_frame \<open>what an operation leaves unchanged in the store of orders\<close>

section \<open>Results\<close>

text \<open>
  A computation that may stop in an error is a value of \<open>'e + 'a\<close>: \<open>Inl\<close> the error,
  \<open>Inr\<close> the result. \<open>bind_err\<close> runs the continuation on a result and passes an error on.
\<close>

definition bind_err :: "'e + 'a \<Rightarrow> ('a \<Rightarrow> 'e + 'b) \<Rightarrow> 'e + 'b" where
  "bind_err r f = (case r of Inl e \<Rightarrow> Inl e | Inr x \<Rightarrow> f x)"

lemma bind_err_simps [simp]:
  "bind_err (Inl e) f = Inl e"
  "bind_err (Inr x) f = f x"
  by (simp_all add: bind_err_def)

lemma bind_err_eq_Inr [simp]:
  "bind_err r f = Inr y \<longleftrightarrow> (\<exists>x. r = Inr x \<and> f x = Inr y)"
  by (cases r) auto

lemma bind_err_eq_Inl:
  "bind_err r f = Inl e \<longleftrightarrow> r = Inl e \<or> (\<exists>x. r = Inr x \<and> f x = Inl e)"
  by (cases r) auto

section \<open>Lists\<close>

lemma map_update_const:
  "(\<And>x. x \<in> set xs \<Longrightarrow> f x = f y) \<Longrightarrow> i < length xs \<Longrightarrow> map f (xs[i := y]) = map f xs"
  by (auto simp: map_update list_update_same_conv)

lemma nth_list_update_if:
  "i < length xs \<Longrightarrow> xs[i := v] ! j = (if i = j then v else xs ! j)"
  by simp

lemma ball_update: "\<forall>x\<in>set xs. P x \<Longrightarrow> P y \<Longrightarrow> \<forall>x\<in>set (xs[i := y]). P x"
  using set_update_subset_insert [of xs i y] by auto

lemma replicate_update_same [simp]: "(replicate n x)[i := x] = replicate n x"
  by (cases "i < n") (simp_all add: list_update_same_conv list_update_beyond)

lemma upt_split:
  assumes "[0..<n] = pre @ r # post"
  shows "pre = [0..<r] \<and> r < n"
proof -
  have len: "length pre < n" using arg_cong [OF assms, of length] by simp
  have "[0..<n] ! length pre = r" by (simp add: assms)
  then have r: "r = length pre" using len by simp
  have "take (length pre) [0..<n] = pre" by (simp add: assms)
  with r len show ?thesis by (simp add: take_upt)
qed

lemma sum_list_map_update:
  fixes f :: "'a \<Rightarrow> int"
  assumes "i < length xs"
  shows "sum_list (map f (xs[i := y])) = sum_list (map f xs) - f (xs ! i) + f y"
  using assms
proof (induction xs arbitrary: i)
  case Nil
  then show ?case by simp
next
  case (Cons x xs)
  then show ?case by (cases i) auto
qed

lemma sum_list_int_update:
  "i < length xs \<Longrightarrow> sum_list (xs[i := y]) = sum_list xs - xs ! i + (y :: int)"
  using sum_list_map_update [of i xs id y] by simp

section \<open>Words built from a list of bits\<close>

text \<open>
  \<open>word_of_bits bs\<close> is the word whose bit \<open>n\<close> is the \<open>n\<close>-th entry of \<open>bs\<close>, least
  significant first. Instruction formats are specified with it.
\<close>

definition word_of_bits :: "bool list \<Rightarrow> 'a::len word" where
  "word_of_bits bs = horner_sum of_bool 2 bs"

lemma bit_word_of_bits:
  "bit (word_of_bits bs :: 'a::len word) n \<longleftrightarrow> n < min LENGTH('a) (length bs) \<and> bs ! n"
  by (simp add: word_of_bits_def bit_horner_sum_bit_word_iff)

lemma horner_sum_replicate_False [simp]: "horner_sum of_bool 2 (replicate n False) = (0 :: 'a::len word)"
  by (induction n) simp_all

text \<open>Two 32-bit words are equal when their 32 bits are.\<close>

lemma u32_eqI:
  fixes x y :: u32
  assumes "\<And>n. n < 32 \<Longrightarrow> bit x n = bit y n"
  shows "x = y"
  by (rule bit_word_eqI) (simp add: assms)

lemma all_less_32:
  "(\<forall>n<32. P n) \<longleftrightarrow> (\<forall>n\<in>set [0..<32]. P (n::nat))"
  by (simp add: Ball_def)

section \<open>Machines that run step by step\<close>

text \<open>
  The three programs are each an endless loop around a step. The interface below is what
  their invariants need: a start condition and a property that every step keeps. A step
  that ends the run (a halt, a return, a fault) yields \<open>None\<close>.
\<close>

locale stepping =
  fixes step :: "'i \<Rightarrow> 's \<Rightarrow> 's option"
    and inv :: "'s \<Rightarrow> bool"
  assumes step_inv: "inv s \<Longrightarrow> step i s = Some s' \<Longrightarrow> inv s'"
begin

primrec run :: "'i list \<Rightarrow> 's \<Rightarrow> 's option" where
  "run [] s = Some s"
| "run (i # is) s = Option.bind (step i s) (run is)"

lemma run_append: "run (xs @ ys) s = Option.bind (run xs s) (run ys)"
  by (induction xs arbitrary: s) (auto split: Option.bind_split)

lemma run_inv: "inv s \<Longrightarrow> run is s = Some s' \<Longrightarrow> inv s'"
proof (induction "is" arbitrary: s)
  case Nil
  then show ?case by simp
next
  case (Cons i "is")
  then obtain t where "step i s = Some t" and "run is t = Some s'"
    by (auto simp: Option.bind_eq_Some_conv)
  with Cons.IH [of t] Cons.prems(1) show ?case by (auto dest: step_inv)
qed

lemma run_prefix_inv: "inv s \<Longrightarrow> run (xs @ ys) s = Some s' \<Longrightarrow> \<exists>t. run xs s = Some t \<and> inv t"
  by (auto simp: run_append Option.bind_eq_Some_conv intro: run_inv)

end

text \<open>A machine that also accepts every proper input while its invariant holds.\<close>

locale total_stepping = stepping +
  fixes proper :: "'a \<Rightarrow> bool"
  assumes step_total: "inv s \<Longrightarrow> proper i \<Longrightarrow> \<exists>s'. step i s = Some s'"
begin

lemma run_total: "inv s \<Longrightarrow> list_all proper is \<Longrightarrow> \<exists>s'. run is s = Some s' \<and> inv s'"
proof (induction "is" arbitrary: s)
  case Nil
  then show ?case by simp
next
  case (Cons i "is")
  then obtain t where t: "step i s = Some t" using step_total by force
  with Cons.IH [of t] Cons.prems step_inv show ?case by auto
qed

end

end
