(* ===== verification/C_Text.thy ===== *)
theory C_Text
  imports Prelude
begin

text \<open>
  The part of the C library that deals with characters and text, as the programs use it:
  character classes, decimal and hexadecimal output (\<open>printf\<close>), \<open>atoi\<close> and
  the \<open>%d\<close> conversion of \<open>scanf\<close> of the GNU C library, C strings inside byte buffers,
  \<open>strcspn\<close> and \<open>strtok\<close>. A C string is the list of its characters before the
  terminating NUL.
\<close>

section \<open>Characters\<close>

abbreviation NUL :: char where "NUL \<equiv> CHR 0x00"
abbreviation NL :: char where "NL \<equiv> CHR 0x0A"
abbreviation TAB :: char where "TAB \<equiv> CHR 0x09"

definition ord :: "char \<Rightarrow> int" where
  "ord c = of_char c"

definition isdigit :: "char \<Rightarrow> bool" where
  "isdigit c \<longleftrightarrow> 48 \<le> ord c \<and> ord c \<le> 57"

definition isalpha :: "char \<Rightarrow> bool" where
  "isalpha c \<longleftrightarrow> (65 \<le> ord c \<and> ord c \<le> 90) \<or> (97 \<le> ord c \<and> ord c \<le> 122)"

definition isspace :: "char \<Rightarrow> bool" where
  "isspace c \<longleftrightarrow> ord c = 32 \<or> (9 \<le> ord c \<and> ord c \<le> 13)"

section \<open>Numbers as text\<close>

fun dec_digits :: "nat \<Rightarrow> string" where
  "dec_digits n = (if n < 10 then [char_of (48 + n)] else dec_digits (n div 10) @ [char_of (48 + n mod 10)])"

declare dec_digits.simps [simp del]

definition show_int :: "int \<Rightarrow> string" where
  "show_int i = (if i < 0 then CHR ''-'' # dec_digits (nat (- i)) else dec_digits (nat i))"

definition hex_digit :: "nat \<Rightarrow> char" where
  "hex_digit d = (if d < 10 then char_of (48 + d) else char_of (87 + d))"

fun hex_digits :: "nat \<Rightarrow> string" where
  "hex_digits n = (if n < 16 then [hex_digit n] else hex_digits (n div 16) @ [hex_digit (n mod 16)])"

declare hex_digits.simps [simp del]

text \<open>
  The value of a run of digits, most significant first, and the integer that
  \<open>(int) strtol(s, NULL, 10)\<close> makes of it: \<open>strtol\<close> saturates at the bounds of a 64-bit
  \<open>long\<close>, the conversion to \<open>int\<close> keeps the low 32 bits as a two's complement number.
\<close>

definition digits_val :: "string \<Rightarrow> int" where
  "digits_val s = foldl (\<lambda>acc c. 10 * acc + (ord c - 48)) 0 s"

definition clamp_long :: "int \<Rightarrow> int" where
  "clamp_long v = max (- (2 ^ 63)) (min (2 ^ 63 - 1) v)"

definition int_of_long :: "int \<Rightarrow> int" where
  "int_of_long v = signed_take_bit 31 v"

definition atoi :: "string \<Rightarrow> int" where
  "atoi s = (let t = dropWhile isspace s in
     case t of
       [] \<Rightarrow> 0
     | c # cs \<Rightarrow>
         if c = CHR ''-'' then int_of_long (clamp_long (- digits_val (takeWhile isdigit cs)))
         else if c = CHR ''+'' then int_of_long (clamp_long (digits_val (takeWhile isdigit cs)))
         else int_of_long (clamp_long (digits_val (takeWhile isdigit t))))"

text \<open>
  \<open>scanf("%d", p)\<close> on an input stream: white space is skipped, an optional sign and the
  digits after it are consumed. Without a digit nothing is stored (\<open>None\<close>); a sign that
  was read stays consumed.
\<close>

definition scan_int :: "string \<Rightarrow> int option \<times> string" where
  "scan_int inp = (let t = dropWhile isspace inp in
     case t of
       [] \<Rightarrow> (None, [])
     | c # cs \<Rightarrow>
         let neg = (c = CHR ''-'');
             body = (if c = CHR ''-'' \<or> c = CHR ''+'' then cs else t);
             ds = takeWhile isdigit body;
             rest = dropWhile isdigit body
         in if ds = [] then (None, body)
            else (Some (int_of_long (clamp_long (if neg then - digits_val ds else digits_val ds))), rest))"

section \<open>Machine arithmetic\<close>

text \<open>
  Signed arithmetic of the programs wraps at 32 and 64 bits (as GCC compiles it without optimisation); where
  the limits on quantities and prices keep a value in range, it is exact.
\<close>

definition c_int :: "int \<Rightarrow> int" where "c_int x = signed_take_bit 31 x"
definition c_llong :: "int \<Rightarrow> int" where "c_llong x = signed_take_bit 63 x"

lemma wraps_dvd:
  "(2::int) ^ 32 dvd c_int x - x" "(2::int) ^ 64 dvd c_llong x - x"
proof -
  have "2 ^ Suc n dvd signed_take_bit n x - x" for n
    by (metis take_bit_eq_mod mod_eq_dvd_iff take_bit_signed_take_bit order_refl)
  from this [of 31] this [of 63] show "(2::int) ^ 32 dvd c_int x - x" "(2::int) ^ 64 dvd c_llong x - x"
    by (simp_all add: c_int_def c_llong_def)
qed

lemma c_int_range: "c_int x = x \<longleftrightarrow> - (2 ^ 31) \<le> x \<and> x < 2 ^ 31"
  by (simp add: c_int_def signed_take_bit_int_eq_self_iff)

lemma c_int_atoi [simp]: "c_int (atoi s) = atoi s"
  by (simp add: c_int_def atoi_def int_of_long_def Let_def split: list.split)

lemma wraps_exact:
  "- (2 ^ 31) \<le> x \<Longrightarrow> x < 2 ^ 31 \<Longrightarrow> c_int x = x"
  "- (2 ^ 63) \<le> x \<Longrightarrow> x < 2 ^ 63 \<Longrightarrow> c_llong x = x"
  by (simp_all add: c_int_def c_llong_def signed_take_bit_int_eq_self_iff)

section \<open>C strings in buffers\<close>

definition cstr :: "string \<Rightarrow> string" where
  "cstr buf = takeWhile (\<lambda>c. c \<noteq> NUL) buf"

text \<open>\<open>s[strcspn(s, c)] = 0\<close> on the C string \<open>s\<close>: cut at the first \<open>c\<close>.\<close>

definition cut_at :: "char \<Rightarrow> string \<Rightarrow> string" where
  "cut_at c s = takeWhile (\<lambda>x. x \<noteq> c) s"

text \<open>
  The tokens that successive calls of \<open>strtok(s, " ")\<close> return: the maximal runs of
  characters other than a space. The first argument is the token being read.
\<close>

fun strtok_from :: "string \<Rightarrow> string \<Rightarrow> string list" where
  "strtok_from tok [] = (if tok = [] then [] else [tok])"
| "strtok_from tok (c # cs) =
     (if c = CHR '' '' then (if tok = [] then strtok_from [] cs else tok # strtok_from [] cs)
      else strtok_from (tok @ [c]) cs)"

definition strtok_all :: "string \<Rightarrow> string list" where
  "strtok_all s = strtok_from [] s"

section \<open>Numeric strings\<close>

text \<open>
  \<open>isNumeric\<close> of \<open>pe_order.c\<close> (and of both traders): no character other than a digit.
\<close>

fun isNumeric :: "string \<Rightarrow> bool" where
  "isNumeric [] = True"
| "isNumeric (c # cs) = (if \<not> isdigit c then False else isNumeric cs)"

section \<open>Round trips\<close>

lemma strtok_from_word: "CHR '' '' \<notin> set w \<Longrightarrow> strtok_from tok (w @ s) = strtok_from (tok @ w) s"
  by (induction w arbitrary: tok) auto

lemma strtok_all_word [cstring]: "w \<noteq> [] \<Longrightarrow> CHR '' '' \<notin> set w \<Longrightarrow> strtok_all (w @ CHR '' '' # s) = w # strtok_all s"
  by (simp add: strtok_all_def strtok_from_word)

lemma strtok_all_last [cstring]: "w \<noteq> [] \<Longrightarrow> CHR '' '' \<notin> set w \<Longrightarrow> strtok_all w = [w]"
  using strtok_from_word [of w "[]" "[]"] by (simp add: strtok_all_def)

lemma ord_digit: "d < 10 \<Longrightarrow> ord (char_of (48 + d :: nat)) = 48 + int d"
proof -
  assume d: "d < 10"
  have "(of_char (char_of (48 + d :: nat)) :: int) = int (of_char (char_of (48 + d :: nat)))" by (rule of_nat_of_char [symmetric])
  also have "\<dots> = 48 + int d" using d by (simp only: of_char_of) simp
  finally show ?thesis by (simp only: ord_def)
qed

lemma isdigit_digit: "d < 10 \<Longrightarrow> isdigit (char_of (48 + d :: nat))"
  by (simp add: isdigit_def ord_digit)

lemma dec_digits_digits: "\<forall>c\<in>set (dec_digits n). isdigit c" "dec_digits n \<noteq> []"
proof (induction n rule: dec_digits.induct)
  case (1 n)
  { case 1 then show ?case using "1.IH" by (subst dec_digits.simps) (auto intro: isdigit_digit) }
  { case 2 then show ?case by (subst dec_digits.simps) auto }
qed

lemma digits_val_snoc: "digits_val (s @ [c]) = 10 * digits_val s + (ord c - 48)"
  by (simp add: digits_val_def)

lemma digits_val_dec: "digits_val (dec_digits n) = int n"
proof (induction n rule: dec_digits.induct)
  case (1 n)
  show ?case
  proof (cases "n < 10")
    case True
    then show ?thesis by (subst dec_digits.simps) (simp add: digits_val_def ord_digit)
  next
    case False
    have "10 * int (n div 10) + int (n mod 10) = int n" by presburger
    with False 1 show ?thesis by (subst dec_digits.simps) (simp add: digits_val_snoc ord_digit)
  qed
qed

lemma isdigit_not: "isdigit c \<Longrightarrow> c \<noteq> CHR ''-'' \<and> c \<noteq> CHR ''+'' \<and> c \<noteq> CHR '' '' \<and> c \<noteq> CHR '';'' \<and> c \<noteq> NUL \<and> \<not> isspace c"
  by (auto simp: isdigit_def isspace_def ord_def)

lemma isNumeric_iff: "isNumeric s \<longleftrightarrow> (\<forall>c\<in>set s. isdigit c)"
  by (induction s) auto

lemma isNumeric_show [cstring]: "0 \<le> n \<Longrightarrow> isNumeric (show_int n)"
  using dec_digits_digits by (auto simp: isNumeric_iff show_int_def)

lemma show_int_chars [cstring]:
  assumes "0 \<le> n"
  shows "show_int n \<noteq> []" "CHR '' '' \<notin> set (show_int n)" "CHR '';'' \<notin> set (show_int n)" "NUL \<notin> set (show_int n)"
  using assms dec_digits_digits [of "nat n"] isdigit_not by (auto simp: show_int_def)

lemma atoi_digits:
  assumes "s \<noteq> []" "\<forall>c\<in>set s. isdigit c" "digits_val s < 2 ^ 31" "0 \<le> digits_val s"
  shows "atoi s = digits_val s"
proof -
  obtain c cs where s: "s = c # cs" using assms(1) by (cases s) auto
  have c: "isdigit c" using assms(2) s by simp
  have d: "dropWhile isspace s = s" using isdigit_not [OF c] by (simp add: s)
  have t: "takeWhile isdigit s = s" using assms(2) by (simp add: takeWhile_eq_all_conv)
  have "clamp_long (digits_val s) = digits_val s" using assms(3,4) by (simp add: clamp_long_def)
  moreover have "int_of_long (digits_val s) = digits_val s"
    using assms(3,4) by (simp add: int_of_long_def signed_take_bit_int_eq_self_iff)
  ultimately show ?thesis using isdigit_not [OF c] d t by (simp add: atoi_def Let_def s)
qed

lemma atoi_show_int [cstring]: "0 \<le> n \<Longrightarrow> n < 2 ^ 31 \<Longrightarrow> atoi (show_int n) = n"
  using atoi_digits [of "dec_digits (nat n)"] dec_digits_digits [of "nat n"] digits_val_dec [of "nat n"]
  by (simp add: show_int_def)

end
