(* ===== verification/Vm_Machine.thy ===== *)
theory Vm_Machine
  imports C_Text
begin

text \<open>
  The machine of \<open>vm-riskxvii/vm_riskxvii.c\<close>: its constants, its state, and the four
  helpers \<open>sign_extend\<close>, \<open>mem_write\<close>, \<open>mem_read\<close> and \<open>reg_write\<close>.

  An access outside the 64 KiB array \<open>memory\<close> and a shift by 32 or more are undefined in C
  (the build uses the address sanitizer, which aborts on the first); they are the errors of
  the model. Left shifts of signed values and narrowing conversions follow GCC, which
  defines them as two's complement.
\<close>

section \<open>Constants\<close>

definition MEMORY_MAX :: nat where "MEMORY_MAX = 2 ^ 16"
definition REG_COUNT :: nat where "REG_COUNT = 33"
definition DATA_BIT_LEN :: u32 where "DATA_BIT_LEN = 32"

definition R_R0 :: nat where "R_R0 = 0"
definition R_R31 :: nat where "R_R31 = 31"
definition R_PC :: nat where "R_PC = 32"

lemmas vm_sizes = MEMORY_MAX_def REG_COUNT_def R_PC_def R_R0_def R_R31_def

datatype opcode = OP_R | OP_I | OP_I_MEM | OP_I_JMP | OP_U | OP_S | OP_SB | OP_UJ

fun opcode_val :: "opcode \<Rightarrow> u8" where
  "opcode_val OP_R = 0b0110011"
| "opcode_val OP_I = 0b0010011"
| "opcode_val OP_I_MEM = 0b0000011"
| "opcode_val OP_I_JMP = 0b1100111"
| "opcode_val OP_U = 0b0110111"
| "opcode_val OP_S = 0b0100011"
| "opcode_val OP_SB = 0b1100011"
| "opcode_val OP_UJ = 0b1101111"

abbreviation (input) ADD_FUNC7 :: u8 where "ADD_FUNC7 \<equiv> 0b0000000"
abbreviation (input) SUB_FUNC7 :: u8 where "SUB_FUNC7 \<equiv> 0b0100000"
abbreviation (input) SRL_FUNC7 :: u8 where "SRL_FUNC7 \<equiv> 0b0000000"
abbreviation (input) SRA_FUNC7 :: u8 where "SRA_FUNC7 \<equiv> 0b0100000"

abbreviation (input) ADD_FUNC3 :: u8 where "ADD_FUNC3 \<equiv> 0b000"
abbreviation (input) XOR_FUNC3 :: u8 where "XOR_FUNC3 \<equiv> 0b100"
abbreviation (input) OR_FUNC3 :: u8 where "OR_FUNC3 \<equiv> 0b110"
abbreviation (input) AND_FUNC3 :: u8 where "AND_FUNC3 \<equiv> 0b111"
abbreviation (input) SLL_FUNC3 :: u8 where "SLL_FUNC3 \<equiv> 0b001"
abbreviation (input) SRL_FUNC3 :: u8 where "SRL_FUNC3 \<equiv> 0b101"
abbreviation (input) SLT_FUNC3 :: u8 where "SLT_FUNC3 \<equiv> 0b010"
abbreviation (input) SLTU_FUNC3 :: u8 where "SLTU_FUNC3 \<equiv> 0b011"
abbreviation (input) ADDI_FUNC3 :: u8 where "ADDI_FUNC3 \<equiv> 0b000"
abbreviation (input) XORI_FUNC3 :: u8 where "XORI_FUNC3 \<equiv> 0b100"
abbreviation (input) ORI_FUNC3 :: u8 where "ORI_FUNC3 \<equiv> 0b110"
abbreviation (input) ANDI_FUNC3 :: u8 where "ANDI_FUNC3 \<equiv> 0b111"
abbreviation (input) SLTI_FUNC3 :: u8 where "SLTI_FUNC3 \<equiv> 0b010"
abbreviation (input) SLTIU_FUNC3 :: u8 where "SLTIU_FUNC3 \<equiv> 0b011"
abbreviation (input) LB_FUNC3 :: u8 where "LB_FUNC3 \<equiv> 0b000"
abbreviation (input) LH_FUNC3 :: u8 where "LH_FUNC3 \<equiv> 0b001"
abbreviation (input) LW_FUNC3 :: u8 where "LW_FUNC3 \<equiv> 0b010"
abbreviation (input) LBU_FUNC3 :: u8 where "LBU_FUNC3 \<equiv> 0b100"
abbreviation (input) LHU_FUNC3 :: u8 where "LHU_FUNC3 \<equiv> 0b101"
abbreviation (input) SB_FUNC3 :: u8 where "SB_FUNC3 \<equiv> 0b000"
abbreviation (input) SH_FUNC3 :: u8 where "SH_FUNC3 \<equiv> 0b001"
abbreviation (input) SW_FUNC3 :: u8 where "SW_FUNC3 \<equiv> 0b010"
abbreviation (input) BEQ_FUNC3 :: u8 where "BEQ_FUNC3 \<equiv> 0b000"
abbreviation (input) BNE_FUNC3 :: u8 where "BNE_FUNC3 \<equiv> 0b001"
abbreviation (input) BLT_FUNC3 :: u8 where "BLT_FUNC3 \<equiv> 0b100"
abbreviation (input) BLTU_FUNC3 :: u8 where "BLTU_FUNC3 \<equiv> 0b110"
abbreviation (input) BGE_FUNC3 :: u8 where "BGE_FUNC3 \<equiv> 0b101"
abbreviation (input) BEGU_FUC3 :: u8 where "BEGU_FUC3 \<equiv> 0b111"

datatype VirtualRoutine =
    VIR_W_CHAR | VIR_W_INT | VIR_W_UINT | VIR_HALT | VIR_R_CHAR | VIR_R_INT
  | VIR_DUMP_PC | VIR_DUMP_REG | VIR_DUMP_MEM | VIR_MALLOC | VIR_FREE

fun vir_addr :: "VirtualRoutine \<Rightarrow> u32" where
  "vir_addr VIR_W_CHAR = 0x0800"
| "vir_addr VIR_W_INT = 0x0804"
| "vir_addr VIR_W_UINT = 0x0808"
| "vir_addr VIR_HALT = 0x080C"
| "vir_addr VIR_R_CHAR = 0x0812"
| "vir_addr VIR_R_INT = 0x0816"
| "vir_addr VIR_DUMP_PC = 0x0820"
| "vir_addr VIR_DUMP_REG = 0x0824"
| "vir_addr VIR_DUMP_MEM = 0x0828"
| "vir_addr VIR_MALLOC = 0x0830"
| "vir_addr VIR_FREE = 0x0834"

section \<open>State and errors\<close>

type_synonym mem = "nat \<Rightarrow> u8"
type_synonym regs = "u32 list"

record vm =
  memory :: mem
  reg :: regs
  stdin :: string
  stdout :: string

datatype vm_error = MemOutOfBounds nat | ShiftOutOfRange | NoImage

datatype outcome = Running vm | Halted vm | Fault vm_error

section \<open>Helpers\<close>

definition sign_extend :: "u32 \<Rightarrow> nat \<Rightarrow> u32" where
  "sign_extend x bit_count =
     (if drop_bit (bit_count - 1) x AND 1 \<noteq> 0 then x OR push_bit bit_count 0xFFFFFFFF else x)"

text \<open>A store and a load through \<open>memory_ptr\<close>, at an offset into the array.\<close>

definition poke :: "mem \<Rightarrow> nat \<Rightarrow> u8 \<Rightarrow> vm_error + mem" where
  "poke m a v = (if a < MEMORY_MAX then Inr (m(a := v)) else Inl (MemOutOfBounds a))"

definition peek :: "mem \<Rightarrow> nat \<Rightarrow> vm_error + u8" where
  "peek m a = (if a < MEMORY_MAX then Inr (m a) else Inl (MemOutOfBounds a))"

text \<open>
  The two loops of \<open>mem_write\<close>: the bytes of \<open>data\<close>, then \<open>byte_len\<close> zero bytes from
  \<open>address + (4 - byte_len)\<close>. The last argument counts the iterations left.
\<close>

fun write_loop :: "mem \<Rightarrow> nat \<Rightarrow> u32 \<Rightarrow> nat \<Rightarrow> nat \<Rightarrow> vm_error + mem" where
  "write_loop m address data i 0 = Inr m"
| "write_loop m address data i (Suc n) =
     bind_err (poke m (address + i) (ucast (drop_bit (i * 8) data AND 0xff)))
       (\<lambda>m'. write_loop m' address data (Suc i) n)"

fun zero_loop :: "mem \<Rightarrow> nat \<Rightarrow> nat \<Rightarrow> nat \<Rightarrow> vm_error + mem" where
  "zero_loop m start j 0 = Inr m"
| "zero_loop m start j (Suc n) = bind_err (poke m (start + j) 0) (\<lambda>m'. zero_loop m' start (Suc j) n)"

definition mem_write :: "mem \<Rightarrow> u16 \<Rightarrow> u32 \<Rightarrow> nat \<Rightarrow> vm_error + mem" where
  "mem_write m address data byte_len =
     bind_err (write_loop m (unat address) data 0 byte_len)
       (\<lambda>m'. if byte_len < 4 then zero_loop m' (unat address + (4 - byte_len)) 0 byte_len else Inr m')"

text \<open>
  The loop of \<open>mem_read\<close> runs from the most significant byte down: with \<open>Suc k\<close>
  iterations left it reads offset \<open>k = byte_len - i - 1\<close>.
\<close>

fun read_loop :: "mem \<Rightarrow> nat \<Rightarrow> nat \<Rightarrow> u32 \<Rightarrow> vm_error + u32" where
  "read_loop m address 0 result = Inr result"
| "read_loop m address (Suc k) result =
     bind_err (peek m (address + k)) (\<lambda>b. read_loop m address k (result OR push_bit (k * 8) (ucast b)))"

definition mem_read :: "mem \<Rightarrow> u16 \<Rightarrow> nat \<Rightarrow> vm_error + u32" where
  "mem_read m address byte_len = read_loop m (unat address) byte_len 0"

definition reg_write :: "regs \<Rightarrow> nat \<Rightarrow> u32 \<Rightarrow> regs" where
  "reg_write r index value = (if index \<noteq> 0 then r[index := value] else r)"

section \<open>The effect of a load and of a store\<close>

text \<open>
  \<open>bytes_val m a n\<close> is the little-endian value of \<open>n\<close> bytes, \<open>stored m a d n\<close> the
  memory after \<open>mem_write\<close> has stored \<open>n\<close> bytes of \<open>d\<close>: besides the bytes themselves it
  clears the last \<open>n\<close> bytes of the four-byte window whenever \<open>n\<close> is less than 4.
\<close>

definition byte_of :: "u32 \<Rightarrow> nat \<Rightarrow> u8" where
  "byte_of d i = ucast (drop_bit (i * 8) d)"

lemma ucast_and_ff: "ucast ((x::u32) AND 0xff) = (ucast x :: u8)"
proof (rule bit_word_eqI)
  fix n assume "n < LENGTH(8)"
  moreover have "(255::u32) = mask 8" by (simp add: mask_eq_exp_minus_1)
  ultimately show "bit (ucast (x AND 0xff) :: u8) n = bit (ucast x :: u8) n"
    by (simp only: bit_unsigned_iff bit_and_iff bit_mask_iff) auto
qed

fun bytes_val :: "mem \<Rightarrow> nat \<Rightarrow> nat \<Rightarrow> u32" where
  "bytes_val m a 0 = 0"
| "bytes_val m a (Suc k) = bytes_val m a k OR push_bit (k * 8) (ucast (m (a + k)))"

lemma bit_byte_at:
  "bit (push_bit (n * 8) (ucast (b :: u8) :: u32)) j \<longleftrightarrow> j < 32 \<and> j div 8 = n \<and> bit b (j mod 8)"
proof (cases "j div 8 = n")
  case True
  then have "n * 8 \<le> j" and "j - n * 8 = j mod 8" by (auto simp: minus_div_mult_eq_mod)
  with True show ?thesis by (auto simp: bit_simps)
next
  case False
  then have "j < n * 8 \<or> 8 \<le> j - n * 8" by (auto simp: div_nat_eqI intro: ccontr)
  with False show ?thesis by (auto simp: bit_simps dest!: bit_imp_le_length)
qed

lemma bit_bytes_val: "bit (bytes_val m a n) j \<longleftrightarrow> j < 32 \<and> j div 8 < n \<and> bit (m (a + j div 8)) (j mod 8)"
  by (induction n) (auto simp: bit_or_iff bit_byte_at less_Suc_eq)

lemma read_loop_ok: "a + n \<le> MEMORY_MAX \<Longrightarrow> read_loop m a n r = Inr (r OR bytes_val m a n)"
proof (induction n arbitrary: r)
  case 0
  then show ?case by simp
next
  case (Suc n)
  then show ?case by (simp add: peek_def ac_simps)
qed

lemma mem_read_eq:
  assumes "0 < n"
  shows "mem_read m a n = (if unat a + n \<le> MEMORY_MAX then Inr (bytes_val m (unat a) n)
           else Inl (MemOutOfBounds (unat a + n - 1)))"
  using assms by (cases n) (auto simp: mem_read_def read_loop_ok peek_def ac_simps)

lemma write_loop_ok:
  "a + i + n \<le> MEMORY_MAX \<Longrightarrow>
   write_loop m a d i n = Inr (\<lambda>x. if a + i \<le> x \<and> x < a + i + n then byte_of d (x - a) else m x)"
proof (induction n arbitrary: i m)
  case 0
  then show ?case by (auto simp: fun_eq_iff)
next
  case (Suc n)
  then show ?case by (auto simp: poke_def ucast_and_ff byte_of_def fun_eq_iff)
qed

lemma zero_loop_ok:
  "a + i + n \<le> MEMORY_MAX \<Longrightarrow>
   zero_loop m a i n = Inr (\<lambda>x. if a + i \<le> x \<and> x < a + i + n then 0 else m x)"
proof (induction n arbitrary: i m)
  case 0
  then show ?case by (auto simp: fun_eq_iff)
next
  case (Suc n)
  then show ?case by (auto simp: poke_def fun_eq_iff)
qed

definition stored :: "mem \<Rightarrow> nat \<Rightarrow> u32 \<Rightarrow> nat \<Rightarrow> mem" where
  "stored m a d n = (\<lambda>x. if n < 4 \<and> a + (4 - n) \<le> x \<and> x < a + 4 then 0
     else if a \<le> x \<and> x < a + n then byte_of d (x - a) else m x)"

lemma mem_write_ok:
  assumes "1 \<le> n" "n \<le> 4" "unat a + 4 \<le> MEMORY_MAX"
  shows "mem_write m a d n = Inr (stored m (unat a) d n)"
proof (cases "n < 4")
  case True
  then show ?thesis using assms
    by (auto simp: mem_write_def write_loop_ok zero_loop_ok stored_def fun_eq_iff)
next
  case False
  then show ?thesis using assms
    by (auto simp: mem_write_def write_loop_ok stored_def fun_eq_iff)
qed

lemma write_loop_fault:
  "MEMORY_MAX < a + i + n \<Longrightarrow> 0 < n \<Longrightarrow> \<exists>x. write_loop m a d i n = Inl (MemOutOfBounds x)"
proof (induction n arbitrary: i m)
  case 0
  then show ?case by simp
next
  case (Suc n)
  show ?case
  proof (cases "a + i < MEMORY_MAX")
    case True
    with Suc.prems have "0 < n" by auto
    with True Suc.IH [of "Suc i"] Suc.prems show ?thesis by (simp add: poke_def)
  qed (simp add: poke_def)
qed

lemma zero_loop_fault:
  "MEMORY_MAX < a + i + n \<Longrightarrow> 0 < n \<Longrightarrow> \<exists>x. zero_loop m a i n = Inl (MemOutOfBounds x)"
proof (induction n arbitrary: i m)
  case 0
  then show ?case by simp
next
  case (Suc n)
  show ?case
  proof (cases "a + i < MEMORY_MAX")
    case True
    with Suc.prems have "0 < n" by auto
    with True Suc.IH [of "Suc i"] Suc.prems show ?thesis by (simp add: poke_def)
  qed (simp add: poke_def)
qed

lemma mem_write_fault:
  assumes "1 \<le> n" "n \<le> 4" "MEMORY_MAX < unat a + 4"
  shows "\<exists>x. mem_write m a d n = Inl (MemOutOfBounds x)"
proof (cases "MEMORY_MAX < unat a + n")
  case True
  with write_loop_fault [of "unat a" 0 n m d] assms(1) show ?thesis
    by (auto simp: mem_write_def)
next
  case False
  with assms have "n < 4" by auto
  with False assms zero_loop_fault [of "unat a + (4 - n)" 0 n] show ?thesis
    by (auto simp: mem_write_def write_loop_ok)
qed
lemma read_after_store:
  assumes "1 \<le> n" "n \<le> 4" "n \<noteq> 3" "unat a + 4 \<le> MEMORY_MAX"
  shows "bytes_val (stored m (unat a) d n) (unat a) n = take_bit (8 * n) d"
proof (rule u32_eqI)
  fix j :: nat assume j: "j < 32"
  have jd: "j div 8 < n \<longleftrightarrow> j < 8 * n" by (simp add: div_less_iff_less_mult mult.commute)
  have "bit (byte_of d (j div 8)) (j mod 8) \<longleftrightarrow> bit d j" using j
    by (simp add: byte_of_def bit_simps)
  with j show "bit (bytes_val (stored m (unat a) d n) (unat a) n) j = bit (take_bit (8 * n) d) j"
    using assms jd 
   by (auto simp: bit_bytes_val stored_def bit_simps)
qed

section \<open>Interface of the word memory\<close>

text \<open>
  What a program on the machine relies on for aligned or unaligned 32-bit accesses: a load
  returns the last word stored at the address, and stores to disjoint windows are
  independent.
\<close>

locale word_memory =
  fixes load :: "'m \<Rightarrow> 'a \<Rightarrow> 'e + 'v"
    and store :: "'m \<Rightarrow> 'a \<Rightarrow> 'v \<Rightarrow> 'e + 'm"
    and apart :: "'a \<Rightarrow> 'a \<Rightarrow> bool"
  assumes load_same: "store m a v = Inr m' \<Longrightarrow> load m' a = Inr v"
    and load_apart: "store m a v = Inr m' \<Longrightarrow> apart a b \<Longrightarrow> load m' b = load m b"
    and apart_sym: "apart a b \<Longrightarrow> apart b a"
begin

lemma last_store_wins:
  "store m a v = Inr m1 \<Longrightarrow> store m1 a w = Inr m2 \<Longrightarrow> load m2 a = Inr w"
  by (rule load_same)

lemma store_survives:
  assumes "store m a v = Inr m1" and "store m1 b w = Inr m2" and "apart a b"
  shows "load m2 a = Inr v"
  using load_apart [OF assms(2) apart_sym [OF assms(3)]] load_same [OF assms(1)] by simp

end

definition word_apart :: "u16 \<Rightarrow> u16 \<Rightarrow> bool" where
  "word_apart a b \<longleftrightarrow> unat a + 4 \<le> unat b \<or> unat b + 4 \<le> unat a"

lemma mem_write_Inr:
  assumes "mem_write m a d n = Inr m'" and "1 \<le> n" and "n \<le> 4"
  shows "unat a + 4 \<le> MEMORY_MAX \<and> m' = stored m (unat a) d n"
proof -
  have "unat a + 4 \<le> MEMORY_MAX"
    using mem_write_fault [OF assms(2,3), of a m d] assms(1) by (cases "unat a + 4 \<le> MEMORY_MAX") auto
  then show ?thesis using mem_write_ok [OF assms(2,3), of a m d] assms(1) by simp
qed

lemma bytes_val_cong:
  "(\<And>i. i < n \<Longrightarrow> m (a + i) = m' (a + i)) \<Longrightarrow> bytes_val m a n = bytes_val m' a n"
  by (induction n) auto

lemma take_bit_u32 [simp]: "take_bit 32 (x :: u32) = x"
  by (simp add: take_bit_word_eq_self)

interpretation wm: word_memory "\<lambda>m a. mem_read m a 4" "\<lambda>m a d. mem_write m a d 4" word_apart
proof
  fix m m' :: mem and a :: u16 and d :: u32
  assume "mem_write m a d 4 = Inr m'"
  from mem_write_Inr [OF this] show "mem_read m' a 4 = Inr d"
    by (simp add: mem_read_eq read_after_store)
next
  fix m m' :: mem and a b :: u16 and d :: u32
  assume w: "mem_write m a d 4 = Inr m'" and "word_apart a b"
  then have "bytes_val m' (unat b) 4 = bytes_val m (unat b) 4"
    using mem_write_Inr [OF w] by (intro bytes_val_cong) (auto simp: stored_def word_apart_def)
  then show "mem_read m' b 4 = mem_read m b 4" by (simp add: mem_read_eq)
qed (auto simp: word_apart_def)

section \<open>Interface of the register file\<close>

text \<open>
  Reads and writes of registers below a bound, with register 0 fixed at a constant.
\<close>

locale register_file =
  fixes get :: "'r \<Rightarrow> nat \<Rightarrow> 'v"
    and put :: "'r \<Rightarrow> nat \<Rightarrow> 'v \<Rightarrow> 'r"
    and valid :: "'r \<Rightarrow> bool"
    and bound :: nat
    and zero :: 'v
  assumes valid_put: "valid r \<Longrightarrow> i < bound \<Longrightarrow> valid (put r i v)"
    and get_put: "valid r \<Longrightarrow> i < bound \<Longrightarrow> get (put r i v) j = (if i = j \<and> i \<noteq> 0 then v else get r j)"
    and get_zero: "valid r \<Longrightarrow> get r 0 = zero"
begin

lemma zero_fixed: "valid r \<Longrightarrow> i < bound \<Longrightarrow> get (put r i v) 0 = zero"
  by (auto simp: get_put get_zero)

lemma put_twice:
  "valid r \<Longrightarrow> i < bound \<Longrightarrow> get (put (put r i v) i w) j = get (put r i w) j"
  by (simp add: get_put valid_put)

lemma put_other:
  "valid r \<Longrightarrow> i < bound \<Longrightarrow> k < bound \<Longrightarrow> i \<noteq> k \<Longrightarrow>
     get (put (put r i v) k w) j = get (put (put r k w) i v) j"
  by (auto simp: get_put valid_put)

end

definition wf_regs :: "regs \<Rightarrow> bool" where
  "wf_regs r \<longleftrightarrow> length r = REG_COUNT \<and> r ! R_R0 = 0"

interpretation rf: register_file "(!)" reg_write wf_regs REG_COUNT 0
  by unfold_locales (auto simp: wf_regs_def reg_write_def vm_sizes)

lemma pc_write: "r[R_PC := v] = reg_write r R_PC v"
  by (simp add: reg_write_def R_PC_def)

end
