(* ===== verification/Vm_Exec.thy ===== *)
theory Vm_Exec
  imports Vm_Machine
begin

text \<open>
  The interpreter of \<open>vm_riskxvii.c\<close>: the fields of an instruction, one handler per case
  of the switch on the opcode, the fetch and dispatch of one iteration of the loop in
  \<open>main\<close>, and runs of many iterations. The switches of the source are chains of
  conditionals in the order of its cases.
\<close>

section \<open>Fields of an instruction\<close>

definition get_opcode :: "u32 \<Rightarrow> u8" where [vm_defs]: "get_opcode inst = ucast (inst AND 127)"
definition get_rd :: "u32 \<Rightarrow> nat" where [vm_defs]: "get_rd inst = unat (drop_bit 7 inst AND 0b11111)"
definition get_func3 :: "u32 \<Rightarrow> u8" where [vm_defs]: "get_func3 inst = ucast (drop_bit 12 inst AND 0b111)"
definition get_rs1 :: "u32 \<Rightarrow> nat" where [vm_defs]: "get_rs1 inst = unat (drop_bit 15 inst AND 0b11111)"
definition get_rs2 :: "u32 \<Rightarrow> nat" where [vm_defs]: "get_rs2 inst = unat (drop_bit 20 inst AND 0b11111)"
definition get_func7 :: "u32 \<Rightarrow> u8" where [vm_defs]: "get_func7 inst = ucast (drop_bit 25 inst)"

text \<open>The immediates. A signed C variable is the word that holds its bits.\<close>

definition imm_I :: "u32 \<Rightarrow> u32" where
  "imm_I inst = sign_extend (drop_bit 20 inst) 12"

definition imm_U :: "u32 \<Rightarrow> u32" where
  "imm_U inst = sign_extend (drop_bit 12 inst) 12"

definition imm_S :: "u32 \<Rightarrow> u32" where
  "imm_S inst =
     (let imm5 = drop_bit 7 inst AND 31;
          imm7 = scast (ucast (drop_bit 25 inst) :: u8) :: u32
      in sign_extend (push_bit 5 imm7 OR imm5) 12)"

text \<open>
  \<open>int8_t bit10to5\<close> keeps the low 8 bits of a 10-bit value and extends their sign when it
  is read back; \<open>int16_t imm\<close> keeps 16.
\<close>

definition imm_SB :: "u32 \<Rightarrow> u16" where
  "imm_SB inst =
     (let imm5 = drop_bit 7 inst AND 31;
          imm7 = drop_bit 25 inst;
          bit11 = push_bit 10 (imm5 AND 1);
          bit4to1 = drop_bit 1 imm5;
          bit10to5 = scast (ucast (push_bit 4 (imm7 AND 63)) :: u8) :: u32;
          bit12 = push_bit 11 (drop_bit 6 imm7)
      in ucast (bit12 OR bit11 OR bit10to5 OR bit4to1))"

definition branch_offset :: "u32 \<Rightarrow> u32" where
  "branch_offset inst = sign_extend (push_bit 1 (scast (imm_SB inst))) 13"

definition imm_UJ :: "u32 \<Rightarrow> u32" where
  "imm_UJ inst =
     (let imm_scrambled = drop_bit 12 inst;
          byte1 = push_bit 19 (drop_bit 19 imm_scrambled AND 1);
          byte2 = drop_bit 9 imm_scrambled AND 1023;
          byte3 = push_bit 10 (drop_bit 8 imm_scrambled AND 1);
          byte4 = push_bit 11 (imm_scrambled AND 255)
      in byte1 OR byte2 OR byte3 OR byte4)"

definition jump_offset :: "u32 \<Rightarrow> u32" where
  "jump_offset inst = sign_extend (push_bit 1 (imm_UJ inst)) 19"

section \<open>Register to register\<close>

definition c_shl :: "u32 \<Rightarrow> u32 \<Rightarrow> vm_error + u32" where
  "c_shl x n = (if unat n < 32 then Inr (push_bit (unat n) x) else Inl ShiftOutOfRange)"

definition c_shr :: "u32 \<Rightarrow> u32 \<Rightarrow> vm_error + u32" where
  "c_shr x n = (if unat n < 32 then Inr (drop_bit (unat n) x) else Inl ShiftOutOfRange)"

definition pc_next :: "regs \<Rightarrow> regs" where
  "pc_next r = r[R_PC := r ! R_PC + 0x4]"

text \<open>The body of \<open>case(SLT_FUNC3)\<close>, which \<open>case(SRL_FUNC3)\<close> falls through into.\<close>

definition slt_case :: "regs \<Rightarrow> nat \<Rightarrow> nat \<Rightarrow> nat \<Rightarrow> regs" where
  "slt_case r rd rs1 rs2 = reg_write r rd (if sint (r ! rs1) < sint (r ! rs2) then 1 else 0)"

definition alu_R :: "u8 \<Rightarrow> u8 \<Rightarrow> regs \<Rightarrow> nat \<Rightarrow> nat \<Rightarrow> nat \<Rightarrow> vm_error + regs" where
  "alu_R func3 func7 r rd rs1 rs2 =
     (if func3 = ADD_FUNC3 then
        (if func7 = ADD_FUNC7 then Inr (reg_write r rd (r ! rs1 + r ! rs2))
         else if func7 = SUB_FUNC7 then Inr (reg_write r rd (r ! rs1 - r ! rs2))
         else Inr r)
      else if func3 = XOR_FUNC3 then Inr (reg_write r rd (r ! rs1 XOR r ! rs2))
      else if func3 = OR_FUNC3 then Inr (reg_write r rd (r ! rs1 OR r ! rs2))
      else if func3 = AND_FUNC3 then Inr (reg_write r rd (r ! rs1 AND r ! rs2))
      else if func3 = SLL_FUNC3 then
        bind_err (c_shl (r ! rs1) (r ! rs2)) (\<lambda>v. Inr (reg_write r rd v))
      else if func3 = SRL_FUNC3 then
        bind_err
          (if func7 = SRL_FUNC7 then
             bind_err (c_shr (r ! rs1) (r ! rs2)) (\<lambda>v. Inr (reg_write r rd v))
           else if func7 = SRA_FUNC7 then
             (let numbits = r ! rs2 in
              bind_err (c_shr (r ! rs1) numbits)
                (\<lambda>v. Inr (reg_write r rd (v OR (DATA_BIT_LEN - numbits)))))
           else Inr r)
          (\<lambda>r'. Inr (slt_case r' rd rs1 rs2))
      else if func3 = SLT_FUNC3 then Inr (slt_case r rd rs1 rs2)
      else if func3 = SLTU_FUNC3 then Inr (reg_write r rd (if r ! rs1 < r ! rs2 then 1 else 0))
      else Inr r)"

definition exec_R :: "u32 \<Rightarrow> vm \<Rightarrow> outcome" where
  "exec_R inst s =
     (case alu_R (get_func3 inst) (get_func7 inst) (reg s) (get_rd inst) (get_rs1 inst) (get_rs2 inst) of
        Inl e \<Rightarrow> Fault e
      | Inr r \<Rightarrow> Running (s\<lparr>reg := pc_next r\<rparr>))"

section \<open>Register and immediate\<close>

definition alu_I :: "u8 \<Rightarrow> regs \<Rightarrow> nat \<Rightarrow> nat \<Rightarrow> u32 \<Rightarrow> regs" where
  "alu_I func3 r rd rs1 imm =
     (if func3 = ADDI_FUNC3 then reg_write r rd (r ! rs1 + imm)
      else if func3 = XORI_FUNC3 then reg_write r rd (r ! rs1 XOR imm)
      else if func3 = ORI_FUNC3 then reg_write r rd (r ! rs1 OR imm)
      else if func3 = ANDI_FUNC3 then reg_write r rd (r ! rs1 AND imm)
      else if func3 = SLTI_FUNC3 then reg_write r rd (if r ! rs1 < imm then 1 else 0)
      else if func3 = SLTIU_FUNC3 then
        reg_write r rd (if r ! rs1 < ucast (ucast imm :: u16) then 1 else 0)
      else r)"

definition exec_I :: "u32 \<Rightarrow> vm \<Rightarrow> outcome" where
  "exec_I inst s =
     Running (s\<lparr>reg := pc_next (alu_I (get_func3 inst) (reg s) (get_rd inst) (get_rs1 inst) (imm_I inst))\<rparr>)"

section \<open>Loads and console input\<close>

text \<open>\<open>getchar\<close>: the next character of the input, or \<open>EOF\<close> (minus one).\<close>

definition vm_getchar :: "string \<Rightarrow> u32 \<times> string" where
  "vm_getchar inp = (case inp of [] \<Rightarrow> (-1, []) | c # cs \<Rightarrow> (of_char c, cs))"

definition load_value :: "u8 \<Rightarrow> mem \<Rightarrow> u32 \<Rightarrow> vm_error + u32 option" where
  "load_value func3 m addr =
     (if func3 = LB_FUNC3 then
        bind_err (mem_read m (ucast addr) 1) (\<lambda>v. Inr (Some (sign_extend v 8)))
      else if func3 = LH_FUNC3 then
        bind_err (mem_read m (ucast addr) 2) (\<lambda>v. Inr (Some (sign_extend v 16)))
      else if func3 = LW_FUNC3 then bind_err (mem_read m (ucast addr) 4) (\<lambda>v. Inr (Some v))
      else if func3 = LBU_FUNC3 then
        bind_err (mem_read m (ucast addr) 1) (\<lambda>v. Inr (Some (ucast (ucast v :: u8))))
      else if func3 = LHU_FUNC3 then
        bind_err (mem_read m (ucast addr) 2) (\<lambda>v. Inr (Some (ucast (ucast v :: u16))))
      else Inr None)"

definition exec_I_MEM :: "u32 \<Rightarrow> vm \<Rightarrow> outcome" where
  "exec_I_MEM inst s =
     (let rd = get_rd inst; addr = reg s ! get_rs1 inst + imm_I inst in
      if addr = vir_addr VIR_R_CHAR then
        (let (c, rest) = vm_getchar (stdin s) in
         Running (s\<lparr>reg := pc_next (reg_write (reg s) rd c), stdin := rest\<rparr>))
      else if addr = vir_addr VIR_R_INT then
        (if rd \<noteq> 0 then
           (let (v, rest) = scan_int (stdin s) in
            Running (s\<lparr>reg := pc_next (case v of None \<Rightarrow> reg s | Some i \<Rightarrow> (reg s)[rd := word_of_int i]),
              stdin := rest\<rparr>))
         else Running (s\<lparr>reg := pc_next (reg s)\<rparr>))
      else
        (case load_value (get_func3 inst) (memory s) addr of
           Inl e \<Rightarrow> Fault e
         | Inr None \<Rightarrow> Running (s\<lparr>reg := pc_next (reg s)\<rparr>)
         | Inr (Some v) \<Rightarrow> Running (s\<lparr>reg := pc_next (reg_write (reg s) rd v)\<rparr>)))"

section \<open>Jumps and upper immediates\<close>

text \<open>\<open>jalr\<close> writes the link register before it reads the base register.\<close>

definition exec_I_JMP :: "u32 \<Rightarrow> vm \<Rightarrow> outcome" where
  "exec_I_JMP inst s =
     (let r = reg_write (reg s) (get_rd inst) (reg s ! R_PC + 4)
      in Running (s\<lparr>reg := r[R_PC := r ! get_rs1 inst + imm_I inst]\<rparr>))"

definition exec_U :: "u32 \<Rightarrow> vm \<Rightarrow> outcome" where
  "exec_U inst s =
     Running (s\<lparr>reg := pc_next (reg_write (reg s) (get_rd inst) (push_bit 12 (imm_U inst)))\<rparr>)"

definition exec_UJ :: "u32 \<Rightarrow> vm \<Rightarrow> outcome" where
  "exec_UJ inst s =
     (let r = reg_write (reg s) (get_rd inst) (reg s ! R_PC + 0x4)
      in Running (s\<lparr>reg := r[R_PC := r ! R_PC + jump_offset inst]\<rparr>))"

section \<open>Stores and console output\<close>

definition print :: "string \<Rightarrow> vm \<Rightarrow> vm" where
  "print t s = s\<lparr>stdout := stdout s @ t\<rparr>"

text \<open>\<open>printf("%c", (char)v)\<close>, \<open>printf("%d", (int32_t)v)\<close> and \<open>printf("%x", v)\<close>.\<close>

definition fmt_char :: "u32 \<Rightarrow> string" where
  "fmt_char v = [char_of (uint (ucast v :: u8))]"

definition fmt_int :: "u32 \<Rightarrow> string" where
  "fmt_int v = show_int (sint v)"

definition fmt_hex :: "u32 \<Rightarrow> string" where
  "fmt_hex v = hex_digits (unat v)"

definition dump_reg :: "regs \<Rightarrow> string" where
  "dump_reg r =
     ''PC = '' @ fmt_hex (r ! R_PC) @ [NL] @
     concat (map (\<lambda>i. ''R['' @ dec_digits i @ ''] = '' @ fmt_hex (r ! i) @ [NL]) [R_R0 ..< R_R31 + 1])"

definition store_value :: "u8 \<Rightarrow> mem \<Rightarrow> u32 \<Rightarrow> u32 \<Rightarrow> vm_error + mem" where
  "store_value func3 m addr data =
     (if func3 = SB_FUNC3 then mem_write m (ucast addr) data 1
      else if func3 = SH_FUNC3 then mem_write m (ucast addr) data 2
      else if func3 = SW_FUNC3 then mem_write m (ucast addr) data 4
      else Inr m)"

definition vm_advance :: "vm \<Rightarrow> vm" where
  "vm_advance s = s\<lparr>reg := pc_next (reg s)\<rparr>"

definition exec_S :: "u32 \<Rightarrow> vm \<Rightarrow> outcome" where
  "exec_S inst s =
     (let addr = reg s ! get_rs1 inst + imm_S inst; data = reg s ! get_rs2 inst in
      if addr = vir_addr VIR_W_CHAR then Running (vm_advance (print (fmt_char data) s))
      else if addr = vir_addr VIR_W_INT then Running (vm_advance (print (fmt_int data) s))
      else if addr = vir_addr VIR_W_UINT then Running (vm_advance (print (fmt_hex data) s))
      else if addr = vir_addr VIR_HALT then Halted (print (''CPU Halt Requested'' @ [NL]) s)
      else if addr = vir_addr VIR_DUMP_PC then Running (vm_advance (print (fmt_hex (reg s ! R_PC)) s))
      else if addr = vir_addr VIR_DUMP_REG then Running (vm_advance (print (dump_reg (reg s)) s))
      else if addr = vir_addr VIR_DUMP_MEM then
        (case mem_read (memory s) (ucast data) 1 of
           Inl e \<Rightarrow> Fault e
         | Inr b \<Rightarrow> Running (vm_advance (print (fmt_hex b @ [NL]) s)))
      else
        (case store_value (get_func3 inst) (memory s) addr data of
           Inl e \<Rightarrow> Fault e
         | Inr m \<Rightarrow> Running (vm_advance (s\<lparr>memory := m\<rparr>))))"

section \<open>Branches\<close>

text \<open>
  Whether the branch is taken; \<open>None\<close> for a \<open>func3\<close> without a case, which leaves the
  program counter as it is.
\<close>

definition branch_cond :: "u8 \<Rightarrow> u32 \<Rightarrow> u32 \<Rightarrow> bool option" where
  "branch_cond func3 a b =
     (if func3 = BEQ_FUNC3 then Some (a = b)
      else if func3 = BNE_FUNC3 then Some (a \<noteq> b)
      else if func3 = BLT_FUNC3 then Some (a < b)
      else if func3 = BLTU_FUNC3 then Some (a < b)
      else if func3 = BGE_FUNC3 then Some (a > b)
      else if func3 = BEGU_FUC3 then Some (a > b)
      else None)"

definition exec_SB :: "u32 \<Rightarrow> vm \<Rightarrow> outcome" where
  "exec_SB inst s =
     (case branch_cond (get_func3 inst) (reg s ! get_rs1 inst) (reg s ! get_rs2 inst) of
        None \<Rightarrow> Running s
      | Some True \<Rightarrow> Running (s\<lparr>reg := (reg s)[R_PC := reg s ! R_PC + branch_offset inst]\<rparr>)
      | Some False \<Rightarrow> Running (vm_advance s))"

section \<open>The loop\<close>

definition exec :: "u32 \<Rightarrow> vm \<Rightarrow> outcome" where
  "exec inst s =
     (let opc = get_opcode inst in
      if opc = opcode_val OP_R then exec_R inst s
      else if opc = opcode_val OP_I then exec_I inst s
      else if opc = opcode_val OP_I_MEM then exec_I_MEM inst s
      else if opc = opcode_val OP_I_JMP then exec_I_JMP inst s
      else if opc = opcode_val OP_U then exec_U inst s
      else if opc = opcode_val OP_S then exec_S inst s
      else if opc = opcode_val OP_SB then exec_SB inst s
      else if opc = opcode_val OP_UJ then exec_UJ inst s
      else Running (print (''Instruction Not Implemented: '' @ fmt_hex inst @ [NL]) s))"

definition fetch :: "vm \<Rightarrow> vm_error + u32" where
  "fetch s = mem_read (memory s) (ucast (reg s ! R_PC)) 4"

definition vm_step :: "vm \<Rightarrow> outcome" where
  "vm_step s = (case fetch s of Inl e \<Rightarrow> Fault e | Inr inst \<Rightarrow> exec inst s)"

text \<open>\<open>while (1)\<close>, for at most the given number of iterations.\<close>

fun vm_run :: "nat \<Rightarrow> vm \<Rightarrow> outcome" where
  "vm_run 0 s = Running s"
| "vm_run (Suc n) s = (case vm_step s of Running s' \<Rightarrow> vm_run n s' | Halted s' \<Rightarrow> Halted s' | Fault e \<Rightarrow> Fault e)"

text \<open>
  The loader: the bytes of the image, one \<open>fread\<close> each, over the indeterminate contents
  of \<open>memory\<close>; a file that cannot be opened is \<open>None\<close>.
\<close>

fun load_loop :: "mem \<Rightarrow> nat \<Rightarrow> u8 list \<Rightarrow> vm_error + mem" where
  "load_loop m count [] = Inr m"
| "load_loop m count (b # bs) = bind_err (poke m count b) (\<lambda>m'. load_loop m' (Suc count) bs)"

definition vm_boot :: "mem \<Rightarrow> u8 list option \<Rightarrow> string \<Rightarrow> vm_error + vm" where
  "vm_boot garbage img inp =
     (case img of
        None \<Rightarrow> Inl NoImage
      | Some bs \<Rightarrow>
          bind_err (load_loop garbage 0 bs)
            (\<lambda>m. Inr \<lparr>memory = m, reg = (replicate REG_COUNT 0)[R_PC := 0], stdin = inp, stdout = []\<rparr>))"

definition vm_main :: "nat \<Rightarrow> mem \<Rightarrow> u8 list option \<Rightarrow> string \<Rightarrow> outcome" where
  "vm_main fuel garbage img inp =
     (case vm_boot garbage img inp of Inl e \<Rightarrow> Fault e | Inr s \<Rightarrow> vm_run fuel s)"

lemmas handler_defs =
  exec_R_def exec_I_def exec_I_MEM_def exec_I_JMP_def exec_U_def exec_S_def exec_SB_def exec_UJ_def

end
