(* ===== verification/Vm_Decode.thy ===== *)
theory Vm_Decode
  imports Vm_Exec
begin

text \<open>
  The decoder at the level of bits: which bit of the instruction each bit of an immediate
  or of a jump offset comes from in the code, the fields of the instruction as numbers, and
  the exact conditions under which the code's immediates are those of the RV32I formats.
\<close>

section \<open>Bits of the immediates\<close>

lemma test_lsb: "(drop_bit n x AND 1 \<noteq> 0) \<longleftrightarrow> bit (x::u32) n"
  by (simp add: bit_iff_odd_drop_bit one_and_eq even_iff_mod_2_eq_zero and.commute odd_iff_mod_2_eq_one)

lemma all_ones_u32: "(0xFFFFFFFF :: u32) = - 1"
  by simp

lemma field_masks:
  "(x::u32) AND 1 = take_bit 1 x" "x AND 7 = take_bit 3 x" "x AND 31 = take_bit 5 x" "x AND 63 = take_bit 6 x"
  "x AND 127 = take_bit 7 x" "x AND 255 = take_bit 8 x" "x AND 1023 = take_bit 10 x"
  by (simp_all add: take_bit_eq_mask mask_eq_exp_minus_1)

lemma bit_sign_extend:
  assumes "0 < c"
  shows "bit (sign_extend x c) n \<longleftrightarrow> n < 32 \<and> (bit x n \<or> (bit x (c - 1) \<and> c \<le> n))"
  using bit_imp_le_length [of x n] by (auto simp: sign_extend_def test_lsb all_ones_u32 bit_simps)

lemma bit_imm_I: "bit (imm_I inst) n \<longleftrightarrow> n < 32 \<and> (if n < 12 then bit inst (20 + n) else bit inst 31)"
  by (auto simp: imm_I_def bit_sign_extend bit_simps dest: bit_imp_le_length)

lemma bit_imm_S: "bit (imm_S inst) n \<longleftrightarrow> n < 32 \<and>
   (if n < 5 then bit inst (7 + n) else if n < 12 then bit inst (20 + n) else bit inst 31)"
  by (auto simp: imm_S_def Let_def bit_sign_extend bit_simps field_masks min_def dest: bit_imp_le_length)



lemma bit_and_1: "bit ((x::u32) AND 1) n \<longleftrightarrow> n = 0 \<and> bit x 0"
  by (auto simp: bit_simps)
lemma bit_push_1: "bit (push_bit 1 (x::u32)) n \<longleftrightarrow> 0 < n \<and> n < 32 \<and> bit x (n - 1)"
  unfolding bit_push_bit_iff by auto
lemma bit_drop_1: "bit (drop_bit 1 (x::u32)) n \<longleftrightarrow> bit x (n + 1)"
  by (simp only: bit_drop_bit_eq o_def add.commute)

lemma bit_imm_SB: "bit (imm_SB inst) n \<longleftrightarrow> n < 16 \<and>
   (if n < 4 then bit inst (8 + n) else if n < 8 then bit inst (21 + n)
    else bit inst 28 \<or> (n = 10 \<and> bit inst 7) \<or> (n = 11 \<and> bit inst 31))"
  unfolding imm_SB_def Let_def bit_unsigned_iff bit_or_iff bit_push_bit_iff bit_and_1 bit_drop_1 bit_signed_iff
   field_masks bit_take_bit_iff bit_drop_bit_eq o_def
  by (cases "n = 7"; cases "n = 11") (auto simp: min_def dest: bit_imp_le_length)

lemma bit_branch_offset: "bit (branch_offset inst) n \<longleftrightarrow> n < 32 \<and>
   (if n = 0 then False
    else if n < 5 then bit inst (7 + n)
    else if n < 9 then bit inst (20 + n)
    else bit inst 28 \<or> (n = 11 \<and> bit inst 7) \<or> (12 \<le> n \<and> bit inst 31))"
  unfolding branch_offset_def bit_sign_extend[OF zero_less_numeral] bit_push_1 bit_signed_iff bit_imm_SB
  by (auto simp: min_def dest: bit_imp_le_length)

lemma bit_imm_UJ: "bit (imm_UJ inst) n \<longleftrightarrow> 
   (if n < 10 then bit inst (21 + n)
    else if n = 10 then bit inst 20
    else if n < 19 then bit inst (1 + n)
    else  n = 19 \<and> bit inst 31)"
  unfolding imm_UJ_def Let_def bit_unsigned_iff bit_or_iff bit_push_bit_iff bit_and_1 bit_drop_1 bit_signed_iff
   field_masks bit_take_bit_iff bit_drop_bit_eq o_def
  by (auto simp: min_def dest: bit_imp_le_length)

lemma bit_jump_offset: "bit (jump_offset inst) n \<longleftrightarrow> n < 32 \<and>
   (if n = 0 then False
    else if n < 11 then bit inst (20 + n)
    else if n = 11 then bit inst 20
    else if n < 19 then bit inst n
    else bit inst 18 \<or> (n = 19 \<and> bit inst 19) \<or> (n = 20 \<and> bit inst 31))"
  unfolding jump_offset_def bit_sign_extend[OF zero_less_numeral] bit_push_1 bit_imm_UJ
  by (cases "n = 19") (auto simp: min_def dest: bit_imp_le_length)

lemma bit_lui: "bit (push_bit 12 (imm_U inst)) n \<longleftrightarrow> n < 32 \<and> 12 \<le> n \<and> (bit inst n \<or> (24 \<le> n \<and> bit inst 23))"
  by (auto simp: imm_U_def Let_def bit_sign_extend bit_simps field_masks min_def dest: bit_imp_le_length)

end
