(* ===== verification/Vm_Spec.thy ===== *)
theory Vm_Spec
  imports Vm_Decode
begin

text \<open>
  The base integer instruction set RV32I as the abstract specification of the interpreter:
  its formats, its instructions and their effect on registers and memory (the program
  counter is register 32 of the machine's state). \<open>conforming\<close> delimits the instructions
  and states on which the interpreter implements it; the refinement theorem says it does.
\<close>

section \<open>Formats\<close>

definition rv_field :: "nat \<Rightarrow> nat \<Rightarrow> u32 \<Rightarrow> nat" where
  "rv_field lo len inst = unat (take_bit len (drop_bit lo inst))"

text \<open>The source bit of every bit of an immediate, least significant first.\<close>

definition rv_imm_I :: "u32 \<Rightarrow> u32" where
  "rv_imm_I inst = word_of_bits (map (bit inst) ([20..<31] @ replicate 21 31))"

definition rv_imm_S :: "u32 \<Rightarrow> u32" where
  "rv_imm_S inst = word_of_bits (map (bit inst) ([7..<12] @ [25..<31] @ replicate 21 31))"

definition rv_imm_B :: "u32 \<Rightarrow> u32" where
  "rv_imm_B inst = word_of_bits (False # map (bit inst) ([8..<12] @ [25..<31] @ [7] @ replicate 20 31))"

definition rv_imm_U :: "u32 \<Rightarrow> u32" where
  "rv_imm_U inst = word_of_bits (replicate 12 False @ map (bit inst) [12..<32])"

definition rv_imm_J :: "u32 \<Rightarrow> u32" where
  "rv_imm_J inst = word_of_bits (False # map (bit inst) ([21..<31] @ [20] @ [12..<20] @ replicate 12 31))"

section \<open>Instructions\<close>

datatype rv_op = ADD | SUB | SLL | SLT | SLTU | XORR | SRL | SRA | ORR | ANDR
datatype rv_opi = ADDI | SLTI | SLTIU | XORI | ORI | ANDI | SLLI | SRLI | SRAI
datatype rv_cond = BEQ | BNE | BLT | BGE | BLTU | BGEU

datatype rv_instr =
    Op rv_op nat nat nat
  | OpImm rv_opi nat nat u32
  | Load nat bool nat nat u32 \<comment> \<open>bytes, sign extension, rd, rs1, offset\<close>
  | Store nat nat nat u32 \<comment> \<open>bytes, rs1, rs2, offset\<close>
  | Branch rv_cond nat nat u32
  | Lui nat u32
  | Jal nat u32
  | Jalr nat nat u32

definition rv_dec_op :: "nat \<Rightarrow> nat \<Rightarrow> rv_op option" where
  "rv_dec_op f3 f7 =
     (if f7 = 0 then
        (if f3 = 0 then Some ADD else if f3 = 1 then Some SLL else if f3 = 2 then Some SLT
         else if f3 = 3 then Some SLTU else if f3 = 4 then Some XORR else if f3 = 5 then Some SRL
         else if f3 = 6 then Some ORR else if f3 = 7 then Some ANDR else None)
      else if f7 = 32 then (if f3 = 0 then Some SUB else if f3 = 5 then Some SRA else None)
      else None)"

definition rv_dec_opi :: "nat \<Rightarrow> nat \<Rightarrow> rv_opi option" where
  "rv_dec_opi f3 f7 =
     (if f3 = 0 then Some ADDI else if f3 = 2 then Some SLTI else if f3 = 3 then Some SLTIU
      else if f3 = 4 then Some XORI else if f3 = 6 then Some ORI else if f3 = 7 then Some ANDI
      else if f3 = 1 \<and> f7 = 0 then Some SLLI else if f3 = 5 \<and> f7 = 0 then Some SRLI
      else if f3 = 5 \<and> f7 = 32 then Some SRAI else None)"

definition rv_dec_width :: "nat \<Rightarrow> (nat \<times> bool) option" where
  "rv_dec_width f3 =
     (if f3 = 0 then Some (1, True) else if f3 = 1 then Some (2, True) else if f3 = 2 then Some (4, False)
      else if f3 = 4 then Some (1, False) else if f3 = 5 then Some (2, False) else None)"

definition rv_dec_cond :: "nat \<Rightarrow> rv_cond option" where
  "rv_dec_cond f3 =
     (if f3 = 0 then Some BEQ else if f3 = 1 then Some BNE else if f3 = 4 then Some BLT
      else if f3 = 5 then Some BGE else if f3 = 6 then Some BLTU else if f3 = 7 then Some BGEU else None)"

definition rv_decode :: "u32 \<Rightarrow> rv_instr option" where
  "rv_decode inst =
     (let opc = rv_field 0 7 inst; rd = rv_field 7 5 inst; f3 = rv_field 12 3 inst;
          rs1 = rv_field 15 5 inst; rs2 = rv_field 20 5 inst; f7 = rv_field 25 7 inst in
      if opc = 0x33 then map_option (\<lambda>k. Op k rd rs1 rs2) (rv_dec_op f3 f7)
      else if opc = 0x13 then map_option (\<lambda>k. OpImm k rd rs1 (rv_imm_I inst)) (rv_dec_opi f3 f7)
      else if opc = 0x03 then map_option (\<lambda>(n, sx). Load n sx rd rs1 (rv_imm_I inst)) (rv_dec_width f3)
      else if opc = 0x23 \<and> f3 \<le> 2 then Some (Store (2 ^ f3) rs1 rs2 (rv_imm_S inst))
      else if opc = 0x63 then map_option (\<lambda>k. Branch k rs1 rs2 (rv_imm_B inst)) (rv_dec_cond f3)
      else if opc = 0x37 then Some (Lui rd (rv_imm_U inst))
      else if opc = 0x6F then Some (Jal rd (rv_imm_J inst))
      else if opc = 0x67 \<and> f3 = 0 then Some (Jalr rd rs1 (rv_imm_I inst))
      else None)"

section \<open>Effect of an instruction\<close>

definition rv_set :: "regs \<Rightarrow> nat \<Rightarrow> u32 \<Rightarrow> u32 \<Rightarrow> regs" where
  \<comment> \<open>write \<open>rd\<close> unless it is register 0, then the program counter\<close>
  "rv_set r rd v pc = (if rd = 0 then r else r[rd := v])[R_PC := pc]"

fun rv_alu :: "rv_op \<Rightarrow> u32 \<Rightarrow> u32 \<Rightarrow> u32" where
  "rv_alu ADD a b = a + b"
| "rv_alu SUB a b = a - b"
| "rv_alu SLL a b = push_bit (unat (take_bit 5 b)) a"
| "rv_alu SLT a b = of_bool (sint a < sint b)"
| "rv_alu SLTU a b = of_bool (uint a < uint b)"
| "rv_alu XORR a b = a XOR b"
| "rv_alu SRL a b = drop_bit (unat (take_bit 5 b)) a"
| "rv_alu SRA a b = signed_drop_bit (unat (take_bit 5 b)) a"
| "rv_alu ORR a b = a OR b"
| "rv_alu ANDR a b = a AND b"

fun rv_alui :: "rv_opi \<Rightarrow> u32 \<Rightarrow> u32 \<Rightarrow> u32" where
  "rv_alui ADDI a i = rv_alu ADD a i"
| "rv_alui SLTI a i = rv_alu SLT a i"
| "rv_alui SLTIU a i = rv_alu SLTU a i"
| "rv_alui XORI a i = rv_alu XORR a i"
| "rv_alui ORI a i = rv_alu ORR a i"
| "rv_alui ANDI a i = rv_alu ANDR a i"
| "rv_alui SLLI a i = rv_alu SLL a i"
| "rv_alui SRLI a i = rv_alu SRL a i"
| "rv_alui SRAI a i = rv_alu SRA a i"

fun rv_taken :: "rv_cond \<Rightarrow> u32 \<Rightarrow> u32 \<Rightarrow> bool" where
  "rv_taken BEQ a b \<longleftrightarrow> a = b"
| "rv_taken BNE a b \<longleftrightarrow> a \<noteq> b"
| "rv_taken BLT a b \<longleftrightarrow> sint a < sint b"
| "rv_taken BGE a b \<longleftrightarrow> sint b \<le> sint a"
| "rv_taken BLTU a b \<longleftrightarrow> uint a < uint b"
| "rv_taken BGEU a b \<longleftrightarrow> uint b \<le> uint a"

definition rv_load :: "mem \<Rightarrow> u32 \<Rightarrow> nat \<Rightarrow> bool \<Rightarrow> u32" where
  "rv_load m addr n sx =
     (let v = bytes_val m (unat addr) n in if sx then signed_take_bit (8 * n - 1) v else v)"

definition rv_store :: "mem \<Rightarrow> u32 \<Rightarrow> nat \<Rightarrow> u32 \<Rightarrow> mem" where
  "rv_store m addr n d = (\<lambda>x. if unat addr \<le> x \<and> x < unat addr + n then byte_of d (x - unat addr) else m x)"

fun rv_exec :: "rv_instr \<Rightarrow> vm \<Rightarrow> vm" where
  "rv_exec (Op k rd rs1 rs2) s =
     s\<lparr>reg := rv_set (reg s) rd (rv_alu k (reg s ! rs1) (reg s ! rs2)) (reg s ! R_PC + 4)\<rparr>"
| "rv_exec (OpImm k rd rs1 i) s =
     s\<lparr>reg := rv_set (reg s) rd (rv_alui k (reg s ! rs1) i) (reg s ! R_PC + 4)\<rparr>"
| "rv_exec (Load n sx rd rs1 i) s =
     s\<lparr>reg := rv_set (reg s) rd (rv_load (memory s) (reg s ! rs1 + i) n sx) (reg s ! R_PC + 4)\<rparr>"
| "rv_exec (Store n rs1 rs2 i) s =
     s\<lparr>memory := rv_store (memory s) (reg s ! rs1 + i) n (reg s ! rs2),
       reg := rv_set (reg s) 0 0 (reg s ! R_PC + 4)\<rparr>"
| "rv_exec (Branch k rs1 rs2 off) s =
     s\<lparr>reg := rv_set (reg s) 0 0
        (reg s ! R_PC + (if rv_taken k (reg s ! rs1) (reg s ! rs2) then off else 4))\<rparr>"
| "rv_exec (Lui rd i) s = s\<lparr>reg := rv_set (reg s) rd i (reg s ! R_PC + 4)\<rparr>"
| "rv_exec (Jal rd off) s = s\<lparr>reg := rv_set (reg s) rd (reg s ! R_PC + 4) (reg s ! R_PC + off)\<rparr>"
| "rv_exec (Jalr rd rs1 i) s =
     s\<lparr>reg := rv_set (reg s) rd (reg s ! R_PC + 4) ((reg s ! rs1 + i) AND NOT 1)\<rparr>"

section \<open>Where the interpreter conforms\<close>

definition same_sign :: "u32 \<Rightarrow> u32 \<Rightarrow> bool" where
  "same_sign a b \<longleftrightarrow> (sint a < 0 \<longleftrightarrow> sint b < 0)"

definition fits :: "nat \<Rightarrow> u32 \<Rightarrow> bool" where
  \<comment> \<open>representable as a two's complement number with \<open>n + 1\<close> bits\<close>
  "fits n x \<longleftrightarrow> - (2 ^ n) \<le> sint x \<and> sint x < 2 ^ n"

fun conforming :: "rv_instr \<Rightarrow> vm \<Rightarrow> bool" where
  "conforming (Op k rd rs1 rs2) s \<longleftrightarrow>
     k \<noteq> SRL \<and> k \<noteq> SRA \<and> (k = SLL \<longrightarrow> unat (reg s ! rs2) < 32)"
| "conforming (OpImm k rd rs1 i) s \<longleftrightarrow>
     k \<notin> {SLLI, SRLI, SRAI} \<and> (k = SLTI \<longrightarrow> same_sign (reg s ! rs1) i) \<and> (k = SLTIU \<longrightarrow> 0 \<le> sint i)"
| "conforming (Load n sx rd rs1 i) s \<longleftrightarrow>
     (let a = reg s ! rs1 + i in
      a \<notin> {vir_addr VIR_R_CHAR, vir_addr VIR_R_INT} \<and> unat a + n \<le> MEMORY_MAX)"
| "conforming (Store n rs1 rs2 i) s \<longleftrightarrow>
     (let a = reg s ! rs1 + i in
      a \<notin> vir_addr ` {VIR_W_CHAR, VIR_W_INT, VIR_W_UINT, VIR_HALT, VIR_DUMP_PC, VIR_DUMP_REG, VIR_DUMP_MEM} \<and>
      unat a + 4 \<le> MEMORY_MAX \<and>
      (n < 4 \<longrightarrow> (\<forall>x\<in>{unat a + (4 - n) ..< unat a + 4}. memory s x = 0)))"
| "conforming (Branch k rs1 rs2 off) s \<longleftrightarrow>
     fits 8 off \<and>
     (k \<in> {BLT, BGE} \<longrightarrow> same_sign (reg s ! rs1) (reg s ! rs2)) \<and>
     (k \<in> {BGE, BGEU} \<longrightarrow> reg s ! rs1 \<noteq> reg s ! rs2)"
| "conforming (Lui rd i) s \<longleftrightarrow> (bit i 23 \<longrightarrow> fits 23 i)"
| "conforming (Jal rd off) s \<longleftrightarrow> fits 18 off"
| "conforming (Jalr rd rs1 i) s \<longleftrightarrow> (rd = rs1 \<longrightarrow> rd = 0) \<and> \<not> bit (reg s ! rs1 + i) 0"

section \<open>The decoder against the formats\<close>

lemma u8_eq_iff: "(a::u8) = b \<longleftrightarrow> unat a = unat b"
  by (simp add: word_unat_eq_iff)

lemma rv_fields:
  "get_rd inst = rv_field 7 5 inst" "get_rs1 inst = rv_field 15 5 inst" "get_rs2 inst = rv_field 20 5 inst"
  by (simp_all add: vm_defs rv_field_def field_masks)

lemma unat_ucast_u8: "unat (ucast (take_bit k (x::u32)) :: u8) = unat (take_bit k x)" if "k \<le> 8"
proof -
  have "unat (take_bit k x) < 2 ^ 8"
    using that by (metis (no_types) less_le_trans one_le_numeral power_increasing take_bit_nat_less_exp unsigned_take_bit_eq)
  then show ?thesis by (simp add: unsigned_ucast_eq take_bit_nat_eq_self)
qed

lemma rv_codes:
  "unat (get_opcode inst) = rv_field 0 7 inst" "unat (get_func3 inst) = rv_field 12 3 inst"
  "unat (get_func7 inst) = rv_field 25 7 inst"
proof -
  have "drop_bit 25 inst = take_bit 7 (drop_bit 25 inst)"
    by (rule u32_eqI) (auto simp: bit_simps dest: bit_imp_le_length)
  then show "unat (get_func7 inst) = rv_field 25 7 inst"
    using unat_ucast_u8 [of 7 "drop_bit 25 inst"] by (simp add: vm_defs rv_field_def)
qed (simp_all add: vm_defs rv_field_def field_masks unat_ucast_u8)

lemma rv_field_bound: "rv_field lo len inst < 2 ^ len"
  by (simp add: rv_field_def unsigned_take_bit_eq)

lemma bit_rv_imm_I: "bit (rv_imm_I inst) n \<longleftrightarrow> n < 32 \<and> (if n < 11 then bit inst (20 + n) else bit inst 31)"
  by (auto simp: rv_imm_I_def bit_word_of_bits nth_append simp del: upt_rec_numeral)
lemma bit_rv_imm_S: "bit (rv_imm_S inst) n \<longleftrightarrow> n < 32 \<and> (if n < 5 then bit inst (7 + n) else if n < 11 then bit inst (20 + n) else bit inst 31)"
  by (auto simp: rv_imm_S_def bit_word_of_bits nth_append simp del: upt_rec_numeral)
lemma bit_rv_imm_B: "bit (rv_imm_B inst) n \<longleftrightarrow> n < 32 \<and> 
  (if n = 0 then False else if n < 5 then bit inst (7 + n) else if n < 11 then bit inst (20 + n) else if n = 11 then bit inst 7 else bit inst 31)"
  by (cases n) (auto simp: rv_imm_B_def bit_word_of_bits nth_append nth_Cons' simp del: upt_rec_numeral)
lemma bit_rv_imm_U: "bit (rv_imm_U inst) n \<longleftrightarrow> n < 32 \<and> 12 \<le> n \<and> bit inst n"
  by (auto simp: rv_imm_U_def bit_word_of_bits nth_append simp del: upt_rec_numeral)
lemma bit_rv_imm_J: "bit (rv_imm_J inst) n \<longleftrightarrow> n < 32 \<and> 
  (if n = 0 then False else if n < 11 then bit inst (20 + n) else if n = 11 then bit inst 20
   else if n < 20 then bit inst n else bit inst 31)"
  by (cases n) (auto simp: rv_imm_J_def bit_word_of_bits nth_append nth_Cons' simp del: upt_rec_numeral)

lemma imm_I_conforms: "imm_I inst = rv_imm_I inst"
proof (rule u32_eqI)
  fix n :: nat assume "n < 32"
  then show "bit (imm_I inst) n = bit (rv_imm_I inst) n"
    by (cases "n = 11") (auto simp: bit_imm_I bit_rv_imm_I)
qed
lemma imm_S_conforms: "imm_S inst = rv_imm_S inst"
proof (rule u32_eqI)
  fix n :: nat assume "n < 32"
  then show "bit (imm_S inst) n = bit (rv_imm_S inst) n"
    by (cases "n = 11") (auto simp: bit_imm_S bit_rv_imm_S)
qed

lemma fits_iff_bits:
  assumes "n < 31"
  shows "fits n x \<longleftrightarrow> (\<forall>i. n \<le> i \<and> i < 32 \<longrightarrow> bit x i = bit x n)" (is "_ \<longleftrightarrow> ?bits")
proof -
  have nth: "bit (sint x) i = bit x (min i 31)" for i
    by (simp add: bit_sint_iff min_def) (auto dest: bit_imp_le_length)
  have "fits n x \<longleftrightarrow> signed_take_bit n (sint x) = sint x"
    by (simp add: fits_def signed_take_bit_int_eq_self_iff)
  also have "\<dots> \<longleftrightarrow> (\<forall>i. bit x (min (min i n) 31) = bit x (min i 31))"
    by (simp add: bit_eq_iff bit_signed_take_bit_iff nth min.commute)
  also have "\<dots> \<longleftrightarrow> ?bits"
  proof
    assume *: "\<forall>i. bit x (min (min i n) 31) = bit x (min i 31)"
    show ?bits
    proof (intro allI impI)
      fix i assume "n \<le> i \<and> i < 32"
      with * [rule_format, of i] assms show "bit x i = bit x n" by (simp add: min_def split: if_splits)
    qed
  next
    assume *: ?bits
    show "\<forall>i. bit x (min (min i n) 31) = bit x (min i 31)"
    proof
      fix i
      from * [rule_format, of "min i 31"] assms show "bit x (min (min i n) 31) = bit x (min i 31)"
        by (auto simp: min_def)
    qed
  qed
  finally show ?thesis .
qed

lemma fits_bits: "fits n x \<Longrightarrow> n < 31 \<Longrightarrow> n \<le> i \<Longrightarrow> i < 32 \<Longrightarrow> bit x i = bit x n"
  using fits_iff_bits by blast

lemma branch_offset_iff:
  "branch_offset inst = rv_imm_B inst \<longleftrightarrow>
     (if bit inst 28 then bit inst 29 \<and> bit inst 30 \<and> bit inst 7 \<and> bit inst 31
      else \<not> bit inst 29 \<and> \<not> bit inst 30)" (is "_ \<longleftrightarrow> ?c")
proof
  assume "branch_offset inst = rv_imm_B inst"
  then have "bit (branch_offset inst) n = bit (rv_imm_B inst) n" for n by simp
  from this [of 9] this [of 10] this [of 11] this [of 12] show ?c
    by (auto simp: bit_branch_offset bit_rv_imm_B)
next
  assume c: ?c
  show "branch_offset inst = rv_imm_B inst"
  proof (rule u32_eqI)
    fix n :: nat assume "n < 32"
    then consider "n < 9" | "n = 9" | "n = 10" | "n = 11" | "12 \<le> n" by linarith
    then show "bit (branch_offset inst) n = bit (rv_imm_B inst) n"
      using c \<open>n < 32\<close> by cases (auto simp: bit_branch_offset bit_rv_imm_B split: if_splits)
  qed
qed

lemma branch_offset_fits: "fits 8 (rv_imm_B inst) \<Longrightarrow> branch_offset inst = rv_imm_B inst"
proof -
  assume f: "fits 8 (rv_imm_B inst)"
  note eq = fits_bits [OF f]
  have "bit inst 29 = bit inst 28" "bit inst 30 = bit inst 28" "bit inst 7 = bit inst 28" "bit inst 31 = bit inst 28"
    using eq [of 9] eq [of 10] eq [of 11] eq [of 12] unfolding bit_rv_imm_B by simp_all
  then show ?thesis unfolding branch_offset_iff by simp
qed

lemma jump_offset_iff:
  "jump_offset inst = rv_imm_J inst \<longleftrightarrow>
     (if bit inst 18 then bit inst 19 \<and> bit inst 31 else \<not> bit inst 31)" (is "_ \<longleftrightarrow> ?c")
proof
  assume "jump_offset inst = rv_imm_J inst"
  then have "bit (jump_offset inst) n = bit (rv_imm_J inst) n" for n by simp
  from this [of 19] this [of 20] this [of 21] show ?c
    by (auto simp: bit_jump_offset bit_rv_imm_J)
next
  assume c: ?c
  show "jump_offset inst = rv_imm_J inst"
  proof (rule u32_eqI)
    fix n :: nat assume "n < 32"
    then consider "n < 19" | "n = 19" | "n = 20" | "21 \<le> n" by linarith
    then show "bit (jump_offset inst) n = bit (rv_imm_J inst) n"
      using c \<open>n < 32\<close> by cases (auto simp: bit_jump_offset bit_rv_imm_J split: if_splits)
  qed
qed

lemma jump_offset_fits: "fits 18 (rv_imm_J inst) \<Longrightarrow> jump_offset inst = rv_imm_J inst"
proof -
  assume f: "fits 18 (rv_imm_J inst)"
  note eq = fits_bits [OF f]
  have "bit inst 19 = bit inst 18" "bit inst 31 = bit inst 18"
    using eq [of 19] eq [of 20] unfolding bit_rv_imm_J by simp_all
  then show ?thesis unfolding jump_offset_iff by simp
qed

lemma lui_iff:
  "push_bit 12 (imm_U inst) = rv_imm_U inst \<longleftrightarrow> (bit inst 23 \<longrightarrow> (\<forall>i. 24 \<le> i \<and> i < 32 \<longrightarrow> bit inst i))"
  (is "?l = ?r \<longleftrightarrow> ?c")
proof
  assume "?l = ?r"
  then have eq: "bit ?l i = bit ?r i" for i by simp
  show ?c
  proof (intro impI allI)
    fix i :: nat assume "bit inst 23" "24 \<le> i \<and> i < 32"
    with eq [of i] show "bit inst i" unfolding bit_lui bit_rv_imm_U by simp
  qed
next
  assume c: ?c
  show "?l = ?r"
  proof (rule u32_eqI)
    fix n :: nat assume "n < 32"
    with c show "bit ?l n = bit ?r n" unfolding bit_lui bit_rv_imm_U by auto
  qed
qed

lemma lui_fits:
  assumes "bit (rv_imm_U inst) 23 \<longrightarrow> fits 23 (rv_imm_U inst)"
  shows "push_bit 12 (imm_U inst) = rv_imm_U inst"
  unfolding lui_iff
proof (intro impI allI)
  fix i :: nat assume "bit inst 23" and i: "24 \<le> i \<and> i < 32"
  then have b: "bit (rv_imm_U inst) 23" by (simp add: bit_rv_imm_U)
  with assms have "fits 23 (rv_imm_U inst)" by blast
  from fits_bits [OF this, of i] i b have "bit (rv_imm_U inst) i" by simp
  then show "bit inst i" by (simp add: bit_rv_imm_U)
qed

section \<open>Refinement\<close>

lemma sint_u32: "sint (x :: u32) = uint x - (if bit x 31 then 2 ^ 32 else 0)"
proof -
  have "sint x = signed_take_bit 31 (uint x)" by (simp add: sint_uint)
  also have "\<dots> = take_bit 32 (uint x) - 2 ^ 32 * of_bool (bit (uint x) 31)"
    by (simp add: signed_take_bit_eq_take_bit_minus)
  also have "take_bit 32 (uint x) = uint x"
    using unsigned_less [of x, where 'a = int] by (simp add: take_bit_int_eq_self)
  finally show ?thesis by (simp add: bit_uint_iff)
qed

lemma sint_neg_iff: "sint (x :: u32) < 0 \<longleftrightarrow> bit x 31"
  using unsigned_less [of x, where 'a = int] unsigned_greater_eq [of x, where 'a = int]
  by (simp add: sint_u32)

lemma same_sign_less: "same_sign a b \<Longrightarrow> a < b \<longleftrightarrow> sint a < sint b"
  by (simp add: same_sign_def sint_neg_iff) (simp add: sint_u32 word_less_def)

lemma rv_set_reg_write: "rv_set r rd v pc = (reg_write r rd v)[R_PC := pc]"
  by (simp add: rv_set_def reg_write_def)

lemma pc_next_eq: "rd < 32 \<Longrightarrow> pc_next (reg_write r rd v) = rv_set r rd v (r ! R_PC + 4)"
  by (simp add: pc_next_def rv_set_reg_write reg_write_def R_PC_def)

lemma rd_bound: "rv_field lo 5 inst < 32"
  using rv_field_bound [of lo 5 inst] by simp

lemma pc_next_noop: "pc_next r = rv_set r 0 0 (r ! R_PC + 4)"
  by (simp add: pc_next_def rv_set_def)

lemma exec_R_conforms:
  assumes "rv_dec_op (rv_field 12 3 inst) (rv_field 25 7 inst) = Some k"
    and "conforming (Op k (rv_field 7 5 inst) (rv_field 15 5 inst) (rv_field 20 5 inst)) s"
  shows "exec_R inst s = Running (rv_exec (Op k (rv_field 7 5 inst) (rv_field 15 5 inst) (rv_field 20 5 inst)) s)"
proof -
  have sll: "unat b < 32 \<Longrightarrow> take_bit 5 b = b" for b :: u32
    by (simp add: word_unat_eq_iff unsigned_take_bit_eq take_bit_nat_eq_self)
  show ?thesis
    using assms
    by (auto simp: exec_R_def alu_R_def rv_fields rv_codes u8_eq_iff rv_dec_op_def c_shl_def slt_case_def
        pc_next_eq rd_bound sll word_less_def split: if_splits)
qed


lemma exec_I_conforms:
  assumes "rv_dec_opi (rv_field 12 3 inst) (rv_field 25 7 inst) = Some k"
    and "conforming (OpImm k (rv_field 7 5 inst) (rv_field 15 5 inst) (rv_imm_I inst)) s"
  shows "exec_I inst s = Running (rv_exec (OpImm k (rv_field 7 5 inst) (rv_field 15 5 inst) (rv_imm_I inst)) s)"
proof -
  have low: "ucast (ucast i :: u16) = i" if "0 \<le> sint i" "i = rv_imm_I inst" for i :: u32
  proof (rule u32_eqI)
    fix n :: nat assume "n < 32"
    from that sint_neg_iff [of i] have "\<not> bit inst 31" by (simp add: bit_rv_imm_I)
    with that(2) \<open>n < 32\<close> show "bit (ucast (ucast i :: u16) :: u32) n = bit i n"
      by (auto simp: bit_simps bit_rv_imm_I)
  qed
  show ?thesis
    using assms
    by (auto simp: exec_I_def alu_I_def rv_fields rv_codes u8_eq_iff rv_dec_opi_def imm_I_conforms
        pc_next_eq rd_bound low same_sign_less word_less_def [symmetric] split: if_splits)
qed

lemma ucast_addr: "unat (a :: u32) < MEMORY_MAX \<Longrightarrow> unat (ucast a :: u16) = unat a"
  by (simp add: unsigned_ucast_eq take_bit_nat_eq_self MEMORY_MAX_def)

lemma sign_extend_signed: "0 < n \<Longrightarrow> n \<le> 3 \<Longrightarrow> sign_extend (bytes_val m a n) (8 * n) = signed_take_bit (8 * n - 1) (bytes_val m a n)"
proof (rule u32_eqI)
  fix j :: nat assume n: "0 < n" "n \<le> 3" and j: "j < 32"
  have hi: "bit (bytes_val m a n) i \<Longrightarrow> i < 8 * n" for i
    by (simp add: bit_bytes_val div_less_iff_less_mult mult.commute)
  show "bit (sign_extend (bytes_val m a n) (8 * n)) j = bit (signed_take_bit (8 * n - 1) (bytes_val m a n)) j"
    using n j hi [of j] by (cases "j = 8 * n - 1") (auto simp: bit_sign_extend bit_signed_take_bit_iff min_def)
qed

lemma ucast_bytes:
  "ucast (ucast (ucast (b :: u8) :: u32) :: u8) = (ucast b :: u32)"
  "ucast (ucast (bytes_val m a 2) :: u16) = bytes_val m a 2"
proof -
  show "ucast (ucast (ucast (b :: u8) :: u32) :: u8) = (ucast b :: u32)"
    by (rule u32_eqI) (auto simp: bit_simps dest: bit_imp_le_length)
  show "ucast (ucast (bytes_val m a 2) :: u16) = bytes_val m a 2"
    by (rule u32_eqI) (auto simp: bit_simps bit_bytes_val div_less_iff_less_mult)
qed

lemma exec_I_MEM_conforms:
  assumes "rv_dec_width (rv_field 12 3 inst) = Some (n, sx)"
    and "conforming (Load n sx (rv_field 7 5 inst) (rv_field 15 5 inst) (rv_imm_I inst)) s"
  shows "exec_I_MEM inst s = Running (rv_exec (Load n sx (rv_field 7 5 inst) (rv_field 15 5 inst) (rv_imm_I inst)) s)"
proof -
  let ?a = "reg s ! rv_field 15 5 inst + rv_imm_I inst"
  from assms(1) have n: "0 < n" by (auto simp: rv_dec_width_def split: if_splits)
  with assms(2) have a: "unat ?a + n \<le> MEMORY_MAX" "unat (ucast ?a :: u16) = unat ?a"
    by (auto simp: Let_def intro: ucast_addr)
  have "load_value (get_func3 inst) (memory s) ?a = Inr (Some (rv_load (memory s) ?a n sx))"
    using assms(1) a sign_extend_signed [of 1] sign_extend_signed [of 2]
    by (auto simp: load_value_def rv_codes u8_eq_iff rv_dec_width_def mem_read_eq rv_load_def ucast_bytes split: if_splits)
  with assms(2) show ?thesis
    by (simp add: exec_I_MEM_def rv_fields imm_I_conforms Let_def pc_next_eq rd_bound)
qed


lemma exec_S_conforms:
  assumes "rv_field 12 3 inst \<le> 2"
    and "conforming (Store (2 ^ rv_field 12 3 inst) (rv_field 15 5 inst) (rv_field 20 5 inst) (rv_imm_S inst)) s"
  shows "exec_S inst s =
    Running (rv_exec (Store (2 ^ rv_field 12 3 inst) (rv_field 15 5 inst) (rv_field 20 5 inst) (rv_imm_S inst)) s)"
proof -
  let ?a = "reg s ! rv_field 15 5 inst + rv_imm_S inst" and ?n = "2 ^ rv_field 12 3 inst :: nat"
    and ?d = "reg s ! rv_field 20 5 inst"
  from assms(1) consider "rv_field 12 3 inst = 0" | "rv_field 12 3 inst = 1" | "rv_field 12 3 inst = 2"
    by linarith
  then have n: "?n \<in> {1, 2, 4}" and st: "store_value (get_func3 inst) (memory s) ?a ?d = mem_write (memory s) (ucast ?a) ?d ?n"
    by (cases; simp add: store_value_def u8_eq_iff rv_codes)+
  from assms(2) have a: "unat ?a + 4 \<le> MEMORY_MAX" "unat (ucast ?a :: u16) = unat ?a"
    by (auto simp: Let_def intro: ucast_addr)
  from n have "1 \<le> ?n" "?n \<le> 4" by auto
  from mem_write_ok [OF this, of "ucast ?a"] a
  have "mem_write (memory s) (ucast ?a) ?d ?n = Inr (stored (memory s) (unat ?a) ?d ?n)" by simp
  also have "stored (memory s) (unat ?a) ?d ?n = rv_store (memory s) ?a ?n ?d"
    using assms(2) n by (auto simp: stored_def rv_store_def Let_def fun_eq_iff)
  finally show ?thesis
    using assms(2) st by (auto simp: exec_S_def rv_fields imm_S_conforms Let_def vm_advance_def pc_next_noop)
qed

lemma exec_SB_conforms:
  assumes "rv_dec_cond (rv_field 12 3 inst) = Some k"
    and "conforming (Branch k (rv_field 15 5 inst) (rv_field 20 5 inst) (rv_imm_B inst)) s"
  shows "exec_SB inst s = Running (rv_exec (Branch k (rv_field 15 5 inst) (rv_field 20 5 inst) (rv_imm_B inst)) s)"
proof -
  let ?a = "reg s ! rv_field 15 5 inst" and ?b = "reg s ! rv_field 20 5 inst"
  have ss: "same_sign ?a ?b \<Longrightarrow> same_sign ?b ?a" by (auto simp: same_sign_def)
  have neq: "?a \<noteq> ?b \<Longrightarrow> sint ?a \<noteq> sint ?b" "?a \<noteq> ?b \<Longrightarrow> uint ?a \<noteq> uint ?b"
    by (auto dest: signed_word_eqI unsigned_word_eqI)
  have "branch_cond (get_func3 inst) ?a ?b = Some (rv_taken k ?a ?b)"
    using assms same_sign_less [of ?a ?b] same_sign_less [OF ss] neq
    by (auto simp: branch_cond_def rv_codes u8_eq_iff rv_dec_cond_def word_less_def split: if_splits)
  moreover have "branch_offset inst = rv_imm_B inst" using assms(2) by (simp add: branch_offset_fits)
  ultimately show ?thesis
    by (cases "rv_taken k ?a ?b") (simp_all add: exec_SB_def rv_fields vm_advance_def pc_next_noop rv_set_def)
qed

lemma exec_U_conforms:
  "conforming (Lui (rv_field 7 5 inst) (rv_imm_U inst)) s \<Longrightarrow>
   exec_U inst s = Running (rv_exec (Lui (rv_field 7 5 inst) (rv_imm_U inst)) s)"
  by (simp add: exec_U_def rv_fields pc_next_eq rd_bound lui_fits)

lemma exec_UJ_conforms:
  "conforming (Jal (rv_field 7 5 inst) (rv_imm_J inst)) s \<Longrightarrow>
   exec_UJ inst s = Running (rv_exec (Jal (rv_field 7 5 inst) (rv_imm_J inst)) s)"
  using rd_bound [of 7 inst]
  by (simp add: exec_UJ_def rv_fields jump_offset_fits rv_set_reg_write) (simp add: Let_def reg_write_def R_PC_def)

lemma exec_I_JMP_conforms:
  assumes "conforming (Jalr (rv_field 7 5 inst) (rv_field 15 5 inst) (rv_imm_I inst)) s"
  shows "exec_I_JMP inst s = Running (rv_exec (Jalr (rv_field 7 5 inst) (rv_field 15 5 inst) (rv_imm_I inst)) s)"
proof -
  have clear: "x AND NOT 1 = x" if "\<not> bit x 0" for x :: u32
  proof (rule u32_eqI)
    fix n :: nat assume "n < 32"
    with that show "bit (x AND NOT 1) n = bit x n" by (cases n) (auto simp: bit_simps)
  qed
  have clear2: "x AND - 2 = x" if "\<not> bit x 0" for x :: u32
    using clear [OF that] by simp
  from assms show ?thesis
    by (auto simp: exec_I_JMP_def Let_def rv_fields imm_I_conforms rv_set_reg_write reg_write_def clear2)
qed

lemma exec_conforms:
  assumes dec: "rv_decode inst = Some i" and conf: "conforming i s"
  shows "exec inst s = Running (rv_exec i s)"
proof -
  note exec_unfold = exec_def rv_codes u8_eq_iff
  note dispatch = exec_R_conforms exec_I_conforms exec_I_MEM_conforms exec_S_conforms exec_SB_conforms
    exec_U_conforms exec_UJ_conforms exec_I_JMP_conforms
  from dec conf show ?thesis
    unfolding rv_decode_def Let_def
    by (auto simp: exec_unfold dispatch simp del: conforming.simps rv_exec.simps split: if_splits)
qed

end
