(* ===== verification/Vm_Props.thy ===== *)
theory Vm_Props
  imports Vm_Spec
begin

text \<open>
  Properties of the interpreter: the invariant of the register file over whole runs, the
  frame of a step, loads and stores, the loader, halting, and the conformance of the
  decoder with RV32I, with the exact conditions where the code departs from it.
\<close>

section \<open>Invariant\<close>

definition wf_vm :: "vm \<Rightarrow> bool" where
  "wf_vm s \<longleftrightarrow> wf_regs (reg s)"

lemma wf_regs_pc: "wf_regs r \<Longrightarrow> wf_regs (r[R_PC := v])"
  by (simp add: wf_regs_def vm_sizes)

lemma wf_regs_write: "wf_regs r \<Longrightarrow> wf_regs (reg_write r i v)"
proof (cases "i < REG_COUNT")
  case True
  then show "wf_regs r \<Longrightarrow> wf_regs (reg_write r i v)" by (rule rf.valid_put [rotated])
next
  case False
  then show "wf_regs r \<Longrightarrow> wf_regs (reg_write r i v)"
    by (simp add: wf_regs_def reg_write_def list_update_beyond)
qed

lemma wf_regs_pc_next: "wf_regs r \<Longrightarrow> wf_regs (pc_next r)"
  by (simp add: pc_next_def wf_regs_pc)

lemma wf_regs_update: "wf_regs r \<Longrightarrow> i \<noteq> 0 \<Longrightarrow> wf_regs (r[i := v])"
  by (simp add: wf_regs_def vm_sizes)

lemmas wf_intros = wf_regs_pc wf_regs_write wf_regs_pc_next wf_regs_update

lemma alu_R_wf: "wf_regs r \<Longrightarrow> alu_R f3 f7 r rd rs1 rs2 = Inr r' \<Longrightarrow> wf_regs r'"
  by (auto simp: alu_R_def slt_case_def Let_def intro!: wf_intros split: if_splits)

lemma alu_I_wf: "wf_regs r \<Longrightarrow> wf_regs (alu_I f3 r rd rs1 i)"
  by (auto simp: alu_I_def intro!: wf_intros)

lemma exec_R_wf: "wf_vm s \<Longrightarrow> exec_R inst s = Running s' \<Longrightarrow> wf_vm s'"
  by (auto simp: exec_R_def wf_vm_def intro!: wf_intros dest: alu_R_wf split: sum.splits)
lemma exec_I_wf: "wf_vm s \<Longrightarrow> exec_I inst s = Running s' \<Longrightarrow> wf_vm s'"
  by (auto simp: exec_I_def wf_vm_def intro!: wf_intros alu_I_wf)
lemma exec_I_MEM_wf: "wf_vm s \<Longrightarrow> exec_I_MEM inst s = Running s' \<Longrightarrow> wf_vm s'"
  by (auto simp: exec_I_MEM_def wf_vm_def Let_def intro!: wf_intros split: if_splits sum.splits option.splits prod.splits)
lemma exec_S_wf: "wf_vm s \<Longrightarrow> exec_S inst s = Running s' \<Longrightarrow> wf_vm s'"
  by (auto simp: exec_S_def wf_vm_def Let_def vm_advance_def print_def intro!: wf_intros split: if_splits sum.splits)
lemma exec_SB_wf: "wf_vm s \<Longrightarrow> exec_SB inst s = Running s' \<Longrightarrow> wf_vm s'"
  by (auto simp: exec_SB_def wf_vm_def vm_advance_def intro!: wf_intros split: option.splits bool.splits)
lemma exec_jumps_wf:
  "wf_vm s \<Longrightarrow> exec_I_JMP inst s = Running s' \<Longrightarrow> wf_vm s'"
  "wf_vm s \<Longrightarrow> exec_U inst s = Running s' \<Longrightarrow> wf_vm s'"
  "wf_vm s \<Longrightarrow> exec_UJ inst s = Running s' \<Longrightarrow> wf_vm s'"
  by (auto simp: exec_I_JMP_def exec_U_def exec_UJ_def wf_vm_def Let_def intro!: wf_intros)

lemmas handlers_wf = exec_R_wf exec_I_wf exec_I_MEM_wf exec_S_wf exec_SB_wf exec_jumps_wf

lemma exec_wf:
  assumes "wf_vm s" and "exec inst s = Running s'"
  shows "wf_vm s'"
proof -
  have "wf_vm (print t s)" for t using assms(1) by (simp add: wf_vm_def print_def)
  with assms show ?thesis unfolding exec_def Let_def by (auto split: if_splits intro: handlers_wf)
qed

lemma vm_step_wf: "wf_vm s \<Longrightarrow> vm_step s = Running s' \<Longrightarrow> wf_vm s'"
  by (auto simp: vm_step_def exec_wf split: sum.splits)

definition vm_next :: "unit \<Rightarrow> vm \<Rightarrow> vm option" where
  "vm_next _ s = (case vm_step s of Running s' \<Rightarrow> Some s' | _ \<Rightarrow> None)"

interpretation vmi: stepping vm_next wf_vm
  by unfold_locales (auto simp: vm_next_def vm_step_wf split: outcome.splits)

lemma vm_run_stepping: "vm_run n s = Running t \<longleftrightarrow> vmi.run (replicate n ()) s = Some t"
  by (induction n arbitrary: s) (auto simp: vm_next_def split: outcome.splits)

lemma load_loop_eq:
  "load_loop m c bs = (if c + length bs \<le> MEMORY_MAX \<or> bs = []
     then Inr (\<lambda>x. if c \<le> x \<and> x < c + length bs then bs ! (x - c) else m x)
     else Inl (MemOutOfBounds (max c MEMORY_MAX)))"
proof (induction bs arbitrary: m c)
  case Nil
  then show ?case by (auto simp: fun_eq_iff)
next
  case (Cons b bs)
  then show ?case by (auto simp: poke_def fun_eq_iff nth_Cons' max_def)
qed

definition io_ext :: "vm \<Rightarrow> vm \<Rightarrow> bool" where
  "io_ext s s' \<longleftrightarrow> (\<exists>t. stdout s' = stdout s @ t) \<and> (\<exists>u. stdin s = u @ stdin s')"

lemma io_ext_same: "stdout s' = stdout s \<Longrightarrow> stdin s' = stdin s \<Longrightarrow> io_ext s s'"
  by (simp add: io_ext_def)

lemma scan_int_suffix: "\<exists>u. inp = u @ snd (scan_int inp)"
proof -
  have dw: "\<exists>u. xs = u @ dropWhile P xs" for xs and P :: "char \<Rightarrow> bool"
    by (metis takeWhile_dropWhile_id)
  obtain u where u: "inp = u @ dropWhile isspace inp" using dw by blast
  show ?thesis
  proof (cases "dropWhile isspace inp")
    case Nil
    then show ?thesis by (simp add: scan_int_def del: dropWhile_eq_Nil_conv)
  next
    case (Cons c cs)
    obtain w where "cs = w @ dropWhile isdigit cs" using dw by blast
    moreover obtain w' where "c # cs = w' @ dropWhile isdigit (c # cs)" using dw by blast
    ultimately show ?thesis using u Cons
      by (cases "c = CHR ''-'' \<or> c = CHR ''+''") (simp add: scan_int_def Let_def split: if_splits; metis append.assoc append_Cons append_Nil)+
  qed
qed


definition store_window :: "vm \<Rightarrow> u32 \<Rightarrow> nat set" where
  "store_window s inst = (let a = unat (ucast (reg s ! get_rs1 inst + imm_S inst) :: u16) in {a ..< a + 4})"

lemma exec_R_frame: "exec_R inst s = Running s' \<Longrightarrow> memory s' = memory s \<and> io_ext s s'"
  by (auto simp: exec_R_def io_ext_same split: sum.splits)
lemma exec_SB_frame: "exec_SB inst s = Running s' \<Longrightarrow> memory s' = memory s \<and> io_ext s s'"
  by (auto simp: exec_SB_def vm_advance_def io_ext_same split: option.splits bool.splits)
lemma exec_others_frame:
  "exec_I inst s = Running s' \<Longrightarrow> memory s' = memory s \<and> io_ext s s'"
  "exec_I_JMP inst s = Running s' \<Longrightarrow> memory s' = memory s \<and> io_ext s s'"
  "exec_U inst s = Running s' \<Longrightarrow> memory s' = memory s \<and> io_ext s s'"
  "exec_UJ inst s = Running s' \<Longrightarrow> memory s' = memory s \<and> io_ext s s'"
  by (auto simp: exec_I_def exec_I_JMP_def exec_U_def exec_UJ_def Let_def io_ext_same)
lemma exec_I_MEM_frame: 
  assumes "exec_I_MEM inst s = Running s'"
  shows "memory s' = memory s \<and> io_ext s s'"
proof -
  have gc: "\<exists>u. stdin s = u @ snd (vm_getchar (stdin s))" by (cases "stdin s") (auto simp: vm_getchar_def)
  from assms gc scan_int_suffix [of "stdin s"] show ?thesis
    by (auto simp: exec_I_MEM_def io_ext_def Let_def split: if_splits sum.splits option.splits prod.splits)
qed
lemma exec_S_frame:
  assumes "exec_S inst s = Running s'"
  shows "(\<forall>x. x \<notin> store_window s inst \<longrightarrow> memory s' x = memory s x) \<and> io_ext s s'"
proof -
  have st: "x \<notin> store_window s inst \<longrightarrow> m x = memory s x"
    if "store_value f (memory s) (reg s ! get_rs1 inst + imm_S inst) d = Inr m" for f d m x
    using that by (auto simp: store_value_def store_window_def Let_def stored_def dest!: mem_write_Inr split: if_splits)
  from assms show ?thesis
    by (auto simp: exec_S_def io_ext_def Let_def vm_advance_def print_def st split: if_splits sum.splits)
qed

section \<open>Evaluation of a fetch\<close>

lemma bytes_val_word: "bytes_val m a 4 = ucast (m a) OR push_bit 8 (ucast (m (a + 1))) OR
    push_bit 16 (ucast (m (a + 2))) OR push_bit 24 (ucast (m (a + 3)))"
  by (simp add: numeral_eq_Suc or.assoc)

lemma fetch_eval: "fetch s = (let a = unat (ucast (reg s ! 32) :: u16) in
   if a + 4 \<le> 65536 then Inr (ucast (memory s a) OR push_bit 8 (ucast (memory s (a + 1))) OR
    push_bit 16 (ucast (memory s (a + 2))) OR push_bit 24 (ucast (memory s (a + 3)))) else Inl (MemOutOfBounds (a + 3)))"
  by (simp add: fetch_def mem_read_eq bytes_val_word R_PC_def MEMORY_MAX_def Let_def)

section \<open>Runs\<close>

lemma vm_run_add:
  "vm_run (m + n) s = (case vm_run m s of Running s' \<Rightarrow> vm_run n s' | Halted s' \<Rightarrow> Halted s' | Fault e \<Rightarrow> Fault e)"
  by (induction m arbitrary: s) (auto split: outcome.splits)

definition not_implemented :: "u32 \<Rightarrow> string" where
  "not_implemented inst = ''Instruction Not Implemented: '' @ fmt_hex inst @ [NL]"


section \<open>Example machines\<close>

text \<open>
  Machines for the witnesses: a memory that is zero but for one instruction at address 0,
  and the sixteen bytes of a program that prints a letter and halts.
\<close>

definition one_inst :: "u8 list \<Rightarrow> regs \<Rightarrow> vm" where
  "one_inst bs r = \<lparr>memory = (\<lambda>x. if x < length bs then bs ! x else 0), reg = r, stdin = [], stdout = []\<rparr>"

definition hello :: "u8 list" where
  "hello = [0x37, 0x11, 0, 0, 0x93, 0, 0x10, 0x04, 0x23, 0, 0x11, 0x80, 0x23, 0x06, 0x01, 0x80]"

lemmas vm_eval = vm_step_def fetch_eval one_inst_def hello_def exec_def vm_defs handler_defs alu_I_def
  pc_next_def reg_write_def R_PC_def imm_U_def imm_I_def imm_S_def sign_extend_def vm_advance_def print_def
  fmt_char_def

definition hello_regs :: "u32 \<Rightarrow> u32 \<Rightarrow> u32 \<Rightarrow> regs" where
  "hello_regs x1 x2 pc = (replicate 33 0)[Suc 0 := x1, 2 := x2, 32 := pc]"

lemma hello_steps:
  "vm_step (one_inst hello (hello_regs 0 0 0)) = Running (one_inst hello (hello_regs 0 0x1000 4))"
  "vm_step (one_inst hello (hello_regs 0 0x1000 4)) = Running (one_inst hello (hello_regs 65 0x1000 8))"
  "vm_step (one_inst hello (hello_regs 65 0x1000 8)) =
     Running (one_inst hello (hello_regs 65 0x1000 12)\<lparr>stdout := ''A''\<rparr>)"
  "vm_step (one_inst hello (hello_regs 65 0x1000 12)\<lparr>stdout := ''A''\<rparr>) =
     Halted (one_inst hello (hello_regs 65 0x1000 12)\<lparr>stdout := ''ACPU Halt Requested'' @ [NL]\<rparr>)"
  by (simp_all add: vm_eval hello_regs_def char_of_def list_update_swap [of 32] list_update_swap [of 2 "Suc 0"])

lemma hello_runs:
  "vm_run 4 (one_inst hello (hello_regs 0 0 0)) =
     Halted (one_inst hello (hello_regs 65 0x1000 12)\<lparr>stdout := ''ACPU Halt Requested'' @ [NL]\<rparr>)"
proof -
  have "(4::nat) = Suc (Suc (Suc (Suc 0)))" by simp
  then show ?thesis by (simp only: vm_run.simps hello_steps outcome.case)
qed

section \<open>Conformance with RV32I\<close>

text \<open>C1: the interpreter implements RV32I. One iteration of the loop of \<open>main\<close>, on a state whose
  next instruction decodes to an RV32I instruction that is conforming in that state, has
  exactly the effect the instruction set prescribes, and the machine keeps running.\<close>

theorem vm_refines_rv32i:
  assumes "fetch s = Inr inst" and "rv_decode inst = Some i" and "conforming i s"
  shows "vm_step s = Running (rv_exec i s)"
  using assms by (simp add: vm_step_def exec_conforms)

theorem vm_refines_rv32i_witness:
  "vm_step (one_inst [0x93, 0, 0x50, 0] (replicate 33 0)) =
     Running (rv_exec (OpImm ADDI 1 0 5) (one_inst [0x93, 0, 0x50, 0] (replicate 33 0)))"
proof (rule vm_refines_rv32i)
  show "fetch (one_inst [0x93, 0, 0x50, 0] (replicate 33 0)) = Inr 0x00500093"
    by (simp add: fetch_eval one_inst_def)
  show "rv_decode 0x00500093 = Some (OpImm ADDI 1 0 5)"
    by (simp add: rv_decode_def rv_field_def rv_dec_opi_def rv_imm_I_def word_of_bits_def)
qed simp

text \<open>C21: the offset of a conditional branch that \<open>case(OP_SB)\<close> computes is the one of the
  B format exactly when bit 8 of the offset is set together with all bits above it, or
  bits 8, 9 and 10 are clear (\<open>int8_t bit10to5\<close> keeps only 8 bits); so it is right for every
  offset from -256 to 255.\<close>

theorem branch_offset_correct:
  "(branch_offset inst = rv_imm_B inst \<longleftrightarrow>
      (if bit (rv_imm_B inst) 8
       then bit (rv_imm_B inst) 9 \<and> bit (rv_imm_B inst) 10 \<and> bit (rv_imm_B inst) 11 \<and> bit (rv_imm_B inst) 12
       else \<not> bit (rv_imm_B inst) 9 \<and> \<not> bit (rv_imm_B inst) 10))
   \<and> (- 256 \<le> sint (rv_imm_B inst) \<and> sint (rv_imm_B inst) < 256 \<longrightarrow> branch_offset inst = rv_imm_B inst)"
proof
  show "branch_offset inst = rv_imm_B inst \<longleftrightarrow>
      (if bit (rv_imm_B inst) 8
       then bit (rv_imm_B inst) 9 \<and> bit (rv_imm_B inst) 10 \<and> bit (rv_imm_B inst) 11 \<and> bit (rv_imm_B inst) 12
       else \<not> bit (rv_imm_B inst) 9 \<and> \<not> bit (rv_imm_B inst) 10)"
    by (simp add: branch_offset_iff bit_rv_imm_B)
  show "- 256 \<le> sint (rv_imm_B inst) \<and> sint (rv_imm_B inst) < 256 \<longrightarrow> branch_offset inst = rv_imm_B inst"
    using branch_offset_fits [of inst] by (simp add: fits_def)
qed

theorem branch_offset_correct_witness:
  "branch_offset 0xFE000EE3 = rv_imm_B 0xFE000EE3 \<and> sint (rv_imm_B 0xFE000EE3) = - 4"
proof -
  have "sint (rv_imm_B 0xFE000EE3) = - 4"
    by (simp add: rv_imm_B_def word_of_bits_def numeral_eq_Suc)
  with branch_offset_correct [of "0xFE000EE3"] show ?thesis by simp
qed

text \<open>C22: the offset of \<open>jal\<close> that \<open>case(OP_UJ)\<close> computes (sign extended from bit 18) is the one of
  the J format exactly when bit 18 is set together with bits 19 and 20, or bits 18 and 20 are
  clear; so it is right for every offset from -2^18 up to 2^18, which covers all of memory.\<close>

theorem jump_offset_correct:
  "(jump_offset inst = rv_imm_J inst \<longleftrightarrow>
      (if bit (rv_imm_J inst) 18 then bit (rv_imm_J inst) 19 \<and> bit (rv_imm_J inst) 20
       else \<not> bit (rv_imm_J inst) 20))
   \<and> (- (2 ^ 18) \<le> sint (rv_imm_J inst) \<and> sint (rv_imm_J inst) < 2 ^ 18 \<longrightarrow> jump_offset inst = rv_imm_J inst)"
proof
  show "jump_offset inst = rv_imm_J inst \<longleftrightarrow>
      (if bit (rv_imm_J inst) 18 then bit (rv_imm_J inst) 19 \<and> bit (rv_imm_J inst) 20
       else \<not> bit (rv_imm_J inst) 20)"
    by (simp add: jump_offset_iff bit_rv_imm_J)
  show "- (2 ^ 18) \<le> sint (rv_imm_J inst) \<and> sint (rv_imm_J inst) < 2 ^ 18 \<longrightarrow> jump_offset inst = rv_imm_J inst"
    using jump_offset_fits [of inst] by (simp add: fits_def)
qed

theorem jump_offset_correct_witness:
  "jump_offset 0x008000EF = rv_imm_J 0x008000EF \<and> sint (rv_imm_J 0x008000EF) = 8"
proof -
  have "sint (rv_imm_J 0x008000EF) = 8"
    by (simp add: rv_imm_J_def word_of_bits_def)
  with jump_offset_correct [of "0x008000EF"] show ?thesis by simp
qed

text \<open>the value that \<open>case(OP_U)\<close> loads is that of \<open>lui\<close> exactly when bit 23 of the
  instruction is clear or bits 24 to 31 are all set: \<open>sign_extend(inst >> 12, 12)\<close> extends
  a 20-bit immediate from its bit 11.\<close>

theorem lui_correct_iff:
  "push_bit 12 (imm_U inst) = rv_imm_U inst \<longleftrightarrow> (\<not> bit inst 23 \<or> (\<forall>i\<in>{24..<32}. bit inst i))"
  by (auto simp: lui_iff)

theorem lui_correct_iff_witness:
  "push_bit 12 (imm_U 0x00001137) = rv_imm_U 0x00001137 \<and>
   push_bit 12 (imm_U 0x00800137) \<noteq> rv_imm_U 0x00800137"
proof
  show "push_bit 12 (imm_U 0x00001137) = rv_imm_U 0x00001137"
    unfolding lui_correct_iff by simp
  have "bit (0x00800137 :: u32) 23" "\<not> bit (0x00800137 :: u32) 24" by simp_all
  then show "push_bit 12 (imm_U 0x00800137) \<noteq> rv_imm_U 0x00800137"
    unfolding lui_correct_iff by (auto intro!: bexI [of _ 24])
qed

text \<open>C23: For a destination other than register 0 and a shift below 32, \<open>srl\<close> and \<open>sra\<close> do not store the shifted value. Their
  case has no \<open>break\<close> of its own and falls through into \<open>slt\<close>: the destination receives 0 or 1, the result of the signed comparison of the two sources. When
  the destination is apart from both sources this is what \<open>slt\<close> stores; when it is one of them, that source is compared with the shifted value already in it.\<close>

theorem shift_right_is_slt:
  assumes "get_func3 inst = SRL_FUNC3" and "get_func7 inst \<in> {SRL_FUNC7, SRA_FUNC7}"
    and "wf_vm s" and "get_rd inst \<noteq> 0" and "unat (reg s ! get_rs2 inst) < 32"
  shows "\<exists>s'. exec_R inst s = Running s' \<and>
    (let n = reg s ! get_rs2 inst; v = drop_bit (unat n) (reg s ! get_rs1 inst);
         shifted = (if get_func7 inst = SRA_FUNC7 then v OR (DATA_BIT_LEN - n) else v);
         source = (\<lambda>r. if r = get_rd inst then shifted else reg s ! r)
     in reg s' ! get_rd inst = of_bool (sint (source (get_rs1 inst)) < sint (source (get_rs2 inst))))"
proof -
  have rd: "get_rd inst < 32" using rd_bound [of 7 inst] by (simp add: rv_fields)
  have len: "length (reg s) = 33" using assms(3) by (simp add: wf_vm_def wf_regs_def REG_COUNT_def)
  have ne: "SRL_FUNC7 \<noteq> SRA_FUNC7" by simp
  show ?thesis using assms(1,2,4,5) rd len ne
    by (auto simp: exec_R_def alu_R_def c_shr_def slt_case_def reg_write_def Let_def pc_next_def R_PC_def)
qed

theorem shift_right_is_slt_witness:
  "(\<exists>s'. exec_R 0x0020D1B3 (one_inst [] ((replicate 33 0)[1 := 64, 2 := 2])) = Running s' \<and> reg s' ! 3 = 0) \<and>
   (\<exists>s'. exec_R 0x0020D0B3 (one_inst [] ((replicate 33 0)[1 := 3, 2 := 2])) = Running s' \<and> reg s' ! 1 = 1)"
  using shift_right_is_slt [of "0x0020D1B3" "one_inst [] ((replicate 33 0)[1 := 64, 2 := 2])"]
    shift_right_is_slt [of "0x0020D0B3" "one_inst [] ((replicate 33 0)[1 := 3, 2 := 2])"]
  by (simp add: vm_defs one_inst_def wf_vm_def wf_regs_def vm_sizes)

text \<open>\<open>jalr\<close> with the same register as base and as link jumps relative to the link address,
  because the link is written before the base is read.\<close>

theorem jalr_same_register:
  assumes "wf_vm s" and "get_rd inst = get_rs1 inst" and "get_rd inst \<noteq> 0"
  shows "\<exists>s'. exec_I_JMP inst s = Running s' \<and> reg s' ! R_PC = reg s ! R_PC + 4 + imm_I inst"
proof -
  have rd: "get_rs1 inst < 32" using rd_bound [of 15 inst] by (simp add: rv_fields)
  then show ?thesis using assms
    by (auto simp: exec_I_JMP_def Let_def reg_write_def wf_vm_def wf_regs_def REG_COUNT_def R_PC_def)
qed

theorem jalr_same_register_witness:
  "\<exists>s'. exec_I_JMP 0x000080E7 (one_inst [] ((replicate 33 0)[1 := 64])) = Running s' \<and> reg s' ! 32 = 4"
  using jalr_same_register [of "one_inst [] ((replicate 33 0)[1 := 64])" "0x000080E7"]
  by (simp add: vm_defs one_inst_def wf_vm_def wf_regs_def vm_sizes imm_I_def sign_extend_def)

section \<open>Memory\<close>

text \<open>C11: what \<open>mem_write\<close> stores, \<open>mem_read\<close> of the same size at the same address returns, cut to
  that size, for the sizes of the store instructions.\<close>

theorem mem_read_write:
  assumes "mem_write m a d n = Inr m'" and "n \<in> {1, 2, 4}"
  shows "mem_read m' a n = Inr (take_bit (8 * n) d)"
proof -
  from assms(2) have n: "1 \<le> n" "n \<le> 4" "n \<noteq> 3" by auto
  from mem_write_Inr [OF assms(1) n(1,2)] n show ?thesis
    by (auto simp: mem_read_eq read_after_store)
qed

theorem mem_read_write_witness:
  "mem_read (stored (\<lambda>_. 0) 16 0x12345678 2) 16 2 = Inr 0x5678"
  using mem_read_write [of "\<lambda>_. 0" 16 "0x12345678" 2 "stored (\<lambda>_. 0) 16 0x12345678 2"]
    mem_write_ok [of 2 16 "\<lambda>_. 0" "0x12345678"] by (simp add: MEMORY_MAX_def)

text \<open>a word stored at one address survives a later word store to any window that does not
  overlap it.\<close>

theorem mem_word_survives:
  assumes "mem_write m a v 4 = Inr m1" and "mem_write m1 b w 4 = Inr m2"
    and "unat a + 4 \<le> unat b \<or> unat b + 4 \<le> unat a"
  shows "mem_read m2 a 4 = Inr v"
  using assms by (intro wm.store_survives [of m a v m1 b w m2]) (auto simp: word_apart_def)

theorem mem_word_survives_witness:
  "mem_read (stored (stored (\<lambda>_. 0) 16 7 4) 20 9 4) 16 4 = Inr 7"
  using mem_word_survives [of "\<lambda>_. 0" 16 7 "stored (\<lambda>_. 0) 16 7 4" 20 9 "stored (stored (\<lambda>_. 0) 16 7 4) 20 9 4"]
    mem_write_ok [of 4 16 "\<lambda>_. 0" 7] mem_write_ok [of 4 20 "stored (\<lambda>_. 0) 16 7 4" 9]
  by (simp add: MEMORY_MAX_def)

text \<open>C20: exactly which bytes a store changes. \<open>mem_write\<close> of 1, 2 or 4 bytes puts the bytes of the
  datum at the address and leaves everything outside the four-byte window alone; of the
  window it clears the last byte for a byte store and the last two for a halfword store.\<close>

theorem mem_write_effect:
  assumes "mem_write m a d n = Inr m'" and "n \<in> {1, 2, 4}"
  shows "(\<forall>i<n. m' (unat a + i) = byte_of d i) \<and>
    (\<forall>x. x < unat a \<or> unat a + 4 \<le> x \<longrightarrow> m' x = m x) \<and>
    (n = 1 \<longrightarrow> m' (unat a + 1) = m (unat a + 1) \<and> m' (unat a + 2) = m (unat a + 2) \<and> m' (unat a + 3) = 0) \<and>
    (n = 2 \<longrightarrow> m' (unat a + 2) = 0 \<and> m' (unat a + 3) = 0)"
proof -
  from assms(2) have n: "1 \<le> n" "n \<le> 4" by auto
  from mem_write_Inr [OF assms(1) n] assms(2) show ?thesis
    by (auto simp: stored_def)
qed

theorem mem_write_effect_witness:
  "stored (\<lambda>_. 0xAA) 16 0x11 1 19 = 0 \<and> stored (\<lambda>_. 0xAA) 16 0x11 1 17 = 0xAA"
  using mem_write_effect [of "\<lambda>_. 0xAA" 16 "0x11" 1 "stored (\<lambda>_. 0xAA) 16 0x11 1"]
    mem_write_ok [of 1 16 "\<lambda>_. 0xAA" "0x11"] by (simp add: MEMORY_MAX_def)

text \<open>bounds of memory accesses. A load of \<open>n\<close> bytes stays inside the array exactly when its
  last byte does; a store of any size does exactly when the whole four-byte window does, so a
  byte store to one of the last three addresses leaves the array.\<close>

theorem mem_access_bounds:
  assumes "n \<in> {1, 2, 4}"
  shows "((\<exists>v. mem_read m a n = Inr v) \<longleftrightarrow> unat a + n \<le> 65536) \<and>
    ((\<exists>m'. mem_write m a d n = Inr m') \<longleftrightarrow> unat a + 4 \<le> 65536)"
proof -
  from assms have n: "1 \<le> n" "n \<le> 4" "0 < n" by auto
  show ?thesis
    using mem_write_ok [OF n(1,2), of a m d] mem_write_Inr [of m a d n] n
    by (auto simp: mem_read_eq MEMORY_MAX_def)
qed

theorem mem_access_bounds_witness:
  "(\<exists>v. mem_read (\<lambda>_. 0) 65535 1 = Inr v) \<and> \<not> (\<exists>m'. mem_write (\<lambda>_. 0) 65535 0 1 = Inr m')"
  using mem_access_bounds [of 1 "\<lambda>_. 0" 65535 0] by simp

section \<open>Steps and runs\<close>

text \<open>C19: the register file stays well formed. From the start of \<open>main\<close> with any image and input, after any
  number of iterations, there are 33 registers and register 0 holds zero.\<close>

theorem vm_registers_invariant:
  assumes "vm_main fuel garbage img inp = Running s"
  shows "length (reg s) = 33 \<and> reg s ! 0 = 0"
proof -
  from assms obtain s0 where boot: "vm_boot garbage img inp = Inr s0" and run: "vm_run fuel s0 = Running s"
    by (auto simp: vm_main_def split: sum.splits)
  from boot have "wf_vm s0"
    by (auto simp: vm_boot_def wf_vm_def wf_regs_def vm_sizes split: option.splits)
  from vmi.run_inv [OF this run [unfolded vm_run_stepping]] show ?thesis
    by (simp add: wf_vm_def wf_regs_def vm_sizes)
qed

theorem vm_registers_invariant_witness:
  "vm_main 0 (\<lambda>_. 0) (Some []) [] = Running (one_inst [] (replicate 33 0)) \<and>
   length (reg (one_inst [] (replicate 33 0))) = 33 \<and> reg (one_inst [] (replicate 33 0)) ! 0 = 0"
proof -
  have "vm_main 0 (\<lambda>_. 0) (Some []) [] = Running (one_inst [] (replicate 33 0))"
    by (simp add: vm_main_def vm_boot_def one_inst_def vm_sizes)
  with vm_registers_invariant [OF this] show ?thesis by simp
qed

text \<open>C24: the frame of a step. Console output only grows, console input is consumed from the front, and a byte
  of memory changes only under a store instruction, within the four bytes from its address.\<close>

theorem vm_step_frame:
  assumes "vm_step s = Running s'"
  shows "(\<exists>t. stdout s' = stdout s @ t) \<and> (\<exists>u. stdin s = u @ stdin s') \<and>
    (\<forall>x. memory s' x \<noteq> memory s x \<longrightarrow>
      (\<exists>inst. fetch s = Inr inst \<and> get_opcode inst = opcode_val OP_S \<and> x \<in> store_window s inst))"
proof -
  from assms obtain inst where f: "fetch s = Inr inst" and e: "exec inst s = Running s'"
    by (auto simp: vm_step_def split: sum.splits)
  note frames = exec_R_frame exec_SB_frame exec_others_frame exec_I_MEM_frame exec_S_frame
  have io: "io_ext s s'" using e unfolding exec_def Let_def
    by (auto simp: print_def io_ext_def split: if_splits dest!: frames [unfolded io_ext_def])
  have "get_opcode inst = opcode_val OP_S \<and> x \<in> store_window s inst" if "memory s' x \<noteq> memory s x" for x
    using e that unfolding exec_def Let_def by (auto simp: print_def split: if_splits dest!: frames)
  with io f show ?thesis by (auto simp: io_ext_def)
qed

theorem vm_step_frame_witness:
  "\<exists>s'. vm_step (one_inst [0x93, 0, 0x50, 0] (replicate 33 0)) = Running s' \<and>
     (\<exists>t. stdout s' = stdout (one_inst [0x93, 0, 0x50, 0] (replicate 33 0)) @ t)"
proof -
  let ?s = "one_inst [0x93, 0, 0x50, 0] (replicate 33 0)"
  obtain s' where "vm_step ?s = Running s'" by (simp add: vm_eval)
  with vm_step_frame [OF this] show ?thesis by blast
qed

text \<open>C25: an instruction whose opcode has no case is never left: every further iteration prints the
  same message once more and the machine neither advances nor halts.\<close>

theorem unimplemented_spins:
  assumes "fetch s = Inr inst" and "\<forall>c. get_opcode inst \<noteq> opcode_val c"
  shows "vm_run n s = Running (s\<lparr>stdout := stdout s @ concat (replicate n (not_implemented inst))\<rparr>)"
  using assms(1)
proof (induction n arbitrary: s)
  case 0
  then show ?case by simp
next
  case (Suc n)
  let ?t = "print (not_implemented inst) s"
  have "exec inst s = Running ?t"
    using assms(2) by (simp add: exec_def Let_def not_implemented_def del: opcode_val.simps)
  with Suc.prems have "vm_step s = Running ?t" by (simp add: vm_step_def)
  moreover have "fetch ?t = Inr inst" using Suc.prems by (simp add: fetch_def print_def)
  ultimately show ?case using Suc.IH [of ?t] by (simp add: print_def)
qed

theorem unimplemented_spins_witness:
  "vm_run 2 (one_inst [] (replicate 33 0)) =
     Running (one_inst [] (replicate 33 0)
       \<lparr>stdout := not_implemented 0 @ not_implemented 0\<rparr>)"
proof -
  have "fetch (one_inst [] (replicate 33 0)) = Inr 0" by (simp add: fetch_eval one_inst_def)
  moreover have "\<forall>c. get_opcode 0 \<noteq> opcode_val c"
  proof
    fix c show "get_opcode 0 \<noteq> opcode_val c" by (cases c) (simp_all add: vm_defs)
  qed
  ultimately show ?thesis
    using unimplemented_spins [of "one_inst [] (replicate 33 0)" 0 2]
    by (simp add: one_inst_def numeral_eq_Suc)
qed

text \<open>the loader. An image of at most 64 KiB is copied to address 0, the rest of memory keeps its
  indeterminate contents, all registers and the program counter start at zero; a larger
  image is written past the end of the array.\<close>

theorem vm_boot_image:
  "vm_boot garbage (Some bs) inp =
     (if length bs \<le> 65536
      then Inr \<lparr>memory = (\<lambda>x. if x < length bs then bs ! x else garbage x), reg = replicate 33 0,
             stdin = inp, stdout = []\<rparr>
      else Inl (MemOutOfBounds 65536))"
  by (auto simp: vm_boot_def load_loop_eq vm_sizes fun_eq_iff)

text \<open>halting is final and independent of the bound on the iterations: a run that halts, halts in the same
  state with any larger bound.\<close>

theorem vm_halt_stable:
  assumes "vm_run n s = Halted t"
  shows "vm_run (n + k) s = Halted t"
  by (simp add: vm_run_add assms)

theorem vm_halt_stable_witness:
  "\<exists>t. vm_run (4 + 1000) (one_inst hello (hello_regs 0 0 0)) = Halted t \<and>
     stdout t = ''ACPU Halt Requested'' @ [NL]"
  using vm_halt_stable [OF hello_runs, of 1000] by (intro exI conjI) (assumption, simp add: one_inst_def)

end
