(* ===== verification/C_Io.thy ===== *)
theory C_Io
  imports C_Text
begin

text \<open>
  Input and output as the programs do it: the effects of a step in order, the ways a step
  can go wrong, reading a line with \<open>fgets\<close>, and the fixed buffers that messages are read
  into, cut and split in place.
\<close>

section \<open>Effects and faults\<close>

datatype effect =
    Print string
  | Write int string    \<comment> \<open>\<open>write(fd, text, strlen(text))\<close>\<close>
  | Kill int            \<comment> \<open>\<open>kill(pid, SIGUSR1)\<close>\<close>
  | Close int
  | Unlink string

datatype fault =
    NullPointer
  | Uninitialised       \<comment> \<open>a local variable is read before it is assigned\<close>
  | BufferOverrun
  | InvalidFree
  | DivisionByZero
  | OutOfFuel

section \<open>Lines\<close>

text \<open>\<open>fgets(s, n + 1, file)\<close>: at most \<open>n\<close> characters, up to and with a newline; \<open>None\<close> at the end.\<close>

fun fgets_chars :: "nat \<Rightarrow> string \<Rightarrow> string \<times> string" where
  "fgets_chars 0 inp = ([], inp)"
| "fgets_chars (Suc n) [] = ([], [])"
| "fgets_chars (Suc n) (c # cs) =
     (if c = NL then ([c], cs) else let (l, rest) = fgets_chars n cs in (c # l, rest))"

definition fgets :: "nat \<Rightarrow> string \<Rightarrow> (string \<times> string) option" where
  "fgets n inp = (if inp = [] then None else Some (fgets_chars n inp))"

text \<open>
  The lines of a file, each read with \<open>fgets\<close> into memory from \<open>malloc\<close> and cut at its newline; a
  line that is missing leaves that memory uninitialised.
\<close>

fun read_lines :: "nat \<Rightarrow> nat \<Rightarrow> string \<Rightarrow> fault + string list" where
  "read_lines len 0 inp = Inr []"
| "read_lines len (Suc n) inp =
     (case fgets len inp of
        None \<Rightarrow> Inl Uninitialised
      | Some (l, rest) \<Rightarrow> bind_err (read_lines len n rest) (\<lambda>ls. Inr (cut_at NL (cstr l) # ls)))"

section \<open>Message buffers\<close>

text \<open>
  \<open>memset(b, 0, strlen(b))\<close> clears the buffer up to its first NUL; \<open>read\<close> overwrites the
  front of it; \<open>b[strcspn(b, ";")] = 0\<close> cuts it. Each of the searches runs out of the array
  when the character it looks for is missing.
\<close>

definition clear_cstr :: "string \<Rightarrow> fault + string" where
  "clear_cstr b =
     (let n = length (cstr b) in
      if n \<ge> length b then Inl BufferOverrun else Inr (replicate n NUL @ drop n b))"

definition read_into :: "string \<Rightarrow> string \<Rightarrow> string" where
  "read_into bytes b = take (length b) bytes @ drop (length (take (length b) bytes)) b"

definition cut_message :: "string \<Rightarrow> fault + string" where
  "cut_message b =
     (let n = length (takeWhile (\<lambda>c. c \<noteq> CHR '';'' \<and> c \<noteq> NUL) b) in
      if n \<ge> length b then Inl BufferOverrun else Inr (b[n := NUL]))"

text \<open>
  \<open>strtok\<close> ends each word it returns with a NUL in the buffer itself; the message readers ask for
  a number of words at most, and for none when they reject the spacing.
\<close>

fun null_spaces :: "nat \<Rightarrow> string \<Rightarrow> string" where
  "null_spaces n [] = []"
| "null_spaces 0 cs = cs"
| "null_spaces (Suc n) (c # cs) =
     (if c = NUL then c # cs
      else if c = CHR '' '' then NUL # null_spaces n cs else c # null_spaces (Suc n) cs)"

fun double_space :: "string \<Rightarrow> bool" where
  "double_space (a # b # cs) = (if a = CHR '' '' \<and> b = CHR '' '' then True else double_space (b # cs))"
| "double_space _ = False"

definition spacing_ok :: "string \<Rightarrow> bool" where
  "spacing_ok m \<longleftrightarrow> m \<noteq> [] \<and> hd m \<noteq> CHR '' '' \<and> last m \<noteq> CHR '' '' \<and> \<not> double_space m"

lemma clear_cstr_length: "clear_cstr b = Inr b' \<Longrightarrow> length b' = length b"
  by (auto simp: clear_cstr_def Let_def split: if_splits)

lemma cut_message_length: "cut_message b = Inr b' \<Longrightarrow> length b' = length b"
  by (auto simp: cut_message_def Let_def split: if_splits)

lemma read_into_length [simp]: "length (read_into bytes b) = length b"
  by (simp add: read_into_def)

lemma null_spaces_length [simp]: "length (null_spaces n b) = length b"
  by (induction n b rule: null_spaces.induct) auto

section \<open>Buffers that keep a terminator\<close>

lemma takeWhile_short: "x \<in> set xs \<Longrightarrow> \<not> P x \<Longrightarrow> length (takeWhile P xs) < length xs"
  by (induction xs) auto

lemma cstr_short: "NUL \<in> set b \<Longrightarrow> length (cstr b) < length b"
  unfolding cstr_def by (rule takeWhile_short) simp_all

lemma clear_cstr_keeps:
  assumes "clear_cstr b = Inr b'"
  shows "NUL \<in> set b'"
proof -
  have n: "length (cstr b) < length b" using assms by (auto simp: clear_cstr_def Let_def split: if_splits)
  have "b ! length (cstr b) = NUL" using nth_length_takeWhile [of "\<lambda>c. c \<noteq> NUL" b] n by (simp add: cstr_def)
  then have "hd (drop (length (cstr b)) b) = NUL" "drop (length (cstr b)) b \<noteq> []" using n by (simp_all add: hd_drop_conv_nth)
  then have "NUL \<in> set (drop (length (cstr b)) b)" by (metis hd_in_set)
  then show ?thesis using assms n by (auto simp: clear_cstr_def Let_def)
qed

lemma clear_cstr_ok:
  assumes "NUL \<in> set b"
  shows "\<exists>b'. clear_cstr b = Inr b' \<and> NUL \<in> set b' \<and> length b' = length b"
proof -
  obtain b' where "clear_cstr b = Inr b'" using cstr_short [OF assms] by (simp add: clear_cstr_def Let_def)
  with clear_cstr_keeps clear_cstr_length show ?thesis by blast
qed

lemma null_spaces_terminated: "NUL \<in> set b \<Longrightarrow> NUL \<in> set (null_spaces n b)"
  by (induction n b rule: null_spaces.induct) auto

lemma cut_message_ok:
  assumes "CHR '';'' \<in> set b \<or> NUL \<in> set b"
  shows "\<exists>b'. cut_message b = Inr b' \<and> NUL \<in> set b' \<and> length b' = length b"
proof -
  have "length (takeWhile (\<lambda>c. c \<noteq> CHR '';'' \<and> c \<noteq> NUL) b) < length b"
    using assms takeWhile_short [of _ b "\<lambda>c. c \<noteq> CHR '';'' \<and> c \<noteq> NUL"] by blast
  then show ?thesis by (simp add: cut_message_def Let_def set_update_memI)
qed

lemma read_into_char: "c \<in> set (take (length b) bytes) \<Longrightarrow> c \<in> set (read_into bytes b)"
  by (simp add: read_into_def)

text \<open>What is cut out of a buffer into which bytes with a semicolon were read: the bytes up to the first semicolon or NUL.\<close>

definition first_message :: "string \<Rightarrow> string" where
  "first_message bytes = takeWhile (\<lambda>c. c \<noteq> CHR '';'' \<and> c \<noteq> NUL) bytes"

lemma cut_message_cstr:
  assumes semi: "CHR '';'' \<in> set (take (length b) bytes)" and cut: "cut_message (read_into bytes b) = Inr b'"
  shows "cstr b' = first_message bytes"
proof -
  let ?P = "\<lambda>c. c \<noteq> CHR '';'' \<and> c \<noteq> NUL" and ?b = "read_into bytes b"
  define m where "m = takeWhile ?P ?b"
  have "takeWhile ?P (take (length b) bytes @ r) = takeWhile ?P (take (length b) bytes)" for r
    using takeWhile_append1 [OF semi, of ?P] by simp
  from this [of "drop (length (take (length b) bytes)) b"] this [of "drop (length b) bytes"]
  have "m = takeWhile ?P bytes" by (simp only: m_def read_into_def append_take_drop_id)
  moreover have n: "length m < length ?b" and b': "b' = ?b[length m := NUL]"
    using cut by (auto simp: cut_message_def m_def Let_def split: if_splits)
  have "?b = m @ ?b ! length m # drop (Suc (length m)) ?b"
    using id_take_nth_drop [OF n] unfolding m_def takeWhile_eq_take [symmetric] .
  then obtain x r where b: "?b = m @ x # r" by blast
  then have "b' = m @ NUL # r" unfolding b' b by simp
  moreover have "\<forall>c\<in>set m. c \<noteq> NUL" unfolding m_def by (auto dest: set_takeWhileD)
  then have "cstr (m @ NUL # r) = m" by (simp add: cstr_def)
  ultimately show ?thesis by (simp add: first_message_def)
qed

section \<open>Messages made of words\<close>

fun unwords :: "string list \<Rightarrow> string" where
  "unwords [] = []"
| "unwords [w] = w"
| "unwords (w # ws) = w @ CHR '' '' # unwords ws"

definition is_word :: "string \<Rightarrow> bool" where
  "is_word w \<longleftrightarrow> w \<noteq> [] \<and> CHR '' '' \<notin> set w"

lemma double_space_word: "CHR '' '' \<notin> set w \<Longrightarrow> \<not> double_space w"
  by (induction w rule: double_space.induct) auto

lemma double_space_append:
  "CHR '' '' \<notin> set w \<Longrightarrow> s \<noteq> [] \<Longrightarrow> hd s \<noteq> CHR '' '' \<Longrightarrow> double_space (w @ CHR '' '' # s) = double_space s"
proof (induction w)
  case Nil
  then show ?case by (cases s) auto
next
  case (Cons c w)
  then show ?case by (cases w) auto
qed

lemma unwords_words:
  assumes "ws \<noteq> []" "\<forall>w\<in>set ws. is_word w"
  shows "spacing_ok (unwords ws)" "strtok_all (unwords ws) = ws"
proof -
  have "spacing_ok (unwords ws) \<and> strtok_all (unwords ws) = ws"
    using assms
  proof (induction ws rule: unwords.induct)
    case 1
    then show ?case by simp
  next
    case (2 w)
    then have "w \<noteq> []" "CHR '' '' \<notin> set w" by (auto simp: is_word_def)
    moreover from this have "hd w \<noteq> CHR '' ''" "last w \<noteq> CHR '' ''" by (metis hd_in_set, metis last_in_set)
    ultimately show ?case using double_space_word [of w] by (simp add: spacing_ok_def strtok_all_last)
  next
    case (3 w v ws)
    then have w: "w \<noteq> []" "CHR '' '' \<notin> set w" by (auto simp: is_word_def)
    have IH: "spacing_ok (unwords (v # ws))" "strtok_all (unwords (v # ws)) = v # ws" using 3 by auto
    moreover have "hd w \<noteq> CHR '' ''" using w by (metis hd_in_set)
    ultimately show ?case using w double_space_append [OF w(2), of "unwords (v # ws)"]
      by (simp add: spacing_ok_def strtok_all_word)
  qed
  then show "spacing_ok (unwords ws)" "strtok_all (unwords ws) = ws" by simp_all
qed

text \<open>The text before the first semicolon arrives as it was sent, whatever follows it.\<close>

lemma cut_message_first:
  assumes "CHR '';'' \<notin> set m" "NUL \<notin> set m" "length m < length b"
  shows "\<exists>b'. cut_message (read_into (m @ CHR '';'' # r) b) = Inr b' \<and> cstr b' = m \<and> NUL \<in> set b' \<and> length b' = length b"
proof -
  let ?b = "read_into (m @ CHR '';'' # r) b"
  have "length b - length m = Suc (length b - Suc (length m))" using assms(3) by simp
  then have "take (length b) (m @ CHR '';'' # r) = m @ CHR '';'' # take (length b - Suc (length m)) r"
    using assms(3) by simp
  then obtain r' where r: "?b = m @ CHR '';'' # r'" unfolding read_into_def by (metis append_Cons append_assoc)
  have t: "takeWhile (\<lambda>c. c \<noteq> CHR '';'' \<and> c \<noteq> NUL) (m @ CHR '';'' # r') = m"
    using assms by (subst takeWhile_append2) auto
  have "cut_message ?b = Inr (m @ NUL # r')" unfolding r cut_message_def t by (simp add: Let_def)
  moreover have "cstr (m @ NUL # r') = m" unfolding cstr_def using assms by (subst takeWhile_append2) auto
  moreover have "length (m @ NUL # r') = length b" using arg_cong [OF r, of length] by simp
  ultimately show ?thesis by (metis in_set_conv_decomp)
qed

text \<open>A message that ends with its semicolon arrives as it was sent.\<close>

lemma cut_message_sent:
  assumes "CHR '';'' \<notin> set m" "NUL \<notin> set m" "length m < length b"
  shows "\<exists>b'. cut_message (read_into (m @ '';'') b) = Inr b' \<and> cstr b' = m"
  using cut_message_first [OF assms, of "[]"] by blast

end
