(* ===== verification/Ex_State.thy ===== *)
theory Ex_State
  imports C_Io
begin

text \<open>
  The data of the exchange in \<open>private_exchange/private_exchange\<close> (\<open>pe_common.h\<close>,
  \<open>pe_mytrader.h\<close>, \<open>pe_market.h\<close>) and the store it lives in. Orders are shared by the order
  book, by their trader and by trades, and each operation writes through one of these
  pointers; so an order is a cell of a store and a pointer to it is the number of the cell.
  A pointer to a trader is the position of the trader in the array \<open>traders\<close> of \<open>main\<close>.

  A growing array (\<open>orderbook\<close>, \<open>orders\<close>, \<open>completed_trades\<close>) is the list of the slots in
  use, so the count field of the source is the length of the list, together with the
  number of slots allocated.
\<close>

section \<open>Constants\<close>

definition MAX_ORDER_ID :: int where "MAX_ORDER_ID = 999999"
definition MAX_QUANTITY :: int where "MAX_QUANTITY = 999999"
definition MAX_UNIT_PRICE :: int where "MAX_UNIT_PRICE = 999999"
definition MAX_TRADERS :: int where "MAX_TRADERS = 999999"
definition BUFFER_READ :: nat where "BUFFER_READ = 40"
definition INITIAL_CAPACITY :: nat where "INITIAL_CAPACITY = 10"

lemmas pe_limits = MAX_QUANTITY_def MAX_UNIT_PRICE_def

section \<open>Data\<close>

datatype order_type = BUY | SELL

type_synonym oref = nat
type_synonym tref = nat

record order_struct =
  order_type :: order_type
  item :: string
  quantity :: int
  unit_price :: int
  trader :: tref
  order_id :: int
  order_index :: int
  completed :: bool

record trader_struct =
  name :: string
  exc2trader :: string
  trader2exc :: string
  fd_w :: int
  fd_r :: int
  trader_pid :: int
  trader_id :: int
  product_count :: nat
  inventory_products :: "string list"
  inventory_quantity :: "int list"
  bank :: "int list"
  orders :: "oref list"
  orders_cap :: nat
  disconnected :: bool

record trade_struct =
  incoming_order :: oref
  order_in_book :: oref
  transaction_quantity :: int
  transaction_price :: int
  trade_tax :: "int option" \<comment> \<open>\<open>None\<close> before it is assigned\<close>

record market_struct =
  orderbook :: "oref list"
  orderbook_cap :: nat
  completed_trades :: "trade_struct list"
  trades_cap :: nat
  transaction_fee :: int

record exchange =
  store :: "order_struct list"
  traders :: "trader_struct list"
  market :: market_struct

section \<open>Access to the store\<close>

text \<open>\<open>order->f = v\<close> and \<open>trader->f = v\<close>, and the pointer that \<open>malloc\<close> returns for a new order.\<close>

definition upd_order :: "oref \<Rightarrow> (order_struct \<Rightarrow> order_struct) \<Rightarrow> exchange \<Rightarrow> exchange" where
  "upd_order r f s = s\<lparr>store := (store s)[r := f (store s ! r)]\<rparr>"

definition upd_trader :: "tref \<Rightarrow> (trader_struct \<Rightarrow> trader_struct) \<Rightarrow> exchange \<Rightarrow> exchange" where
  "upd_trader t f s = s\<lparr>traders := (traders s)[t := f (traders s ! t)]\<rparr>"

definition upd_market :: "(market_struct \<Rightarrow> market_struct) \<Rightarrow> exchange \<Rightarrow> exchange" where
  "upd_market f s = s\<lparr>market := f (market s)\<rparr>"

definition alloc_order :: "order_struct \<Rightarrow> exchange \<Rightarrow> oref \<times> exchange" where
  "alloc_order x s = (length (store s), s\<lparr>store := store s @ [x]\<rparr>)"

abbreviation ord_of :: "exchange \<Rightarrow> oref \<Rightarrow> order_struct" where
  "ord_of s r \<equiv> store s ! r"

lemma upd_order_sel [heap_frame, simp]:
  "length (store (upd_order r f s)) = length (store s)"
  "traders (upd_order r f s) = traders s"
  "market (upd_order r f s) = market s"
  "r < length (store s) \<Longrightarrow> ord_of (upd_order r f s) q = (if q = r then f (ord_of s r) else ord_of s q)"
  by (simp_all add: upd_order_def)

lemma upd_trader_sel [heap_frame, simp]:
  "store (upd_trader t f s) = store s"
  "market (upd_trader t f s) = market s"
  "length (traders (upd_trader t f s)) = length (traders s)"
  "t < length (traders s) \<Longrightarrow> traders (upd_trader t f s) ! u = (if u = t then f (traders s ! t) else traders s ! u)"
  by (simp_all add: upd_trader_def)

lemma upd_market_sel [heap_frame, simp]:
  "store (upd_market f s) = store s"
  "traders (upd_market f s) = traders s"
  "market (upd_market f s) = f (market s)"
  by (simp_all add: upd_market_def)

end
