(* ===== verification/Ex_Order.thy ===== *)
theory Ex_Order
  imports Ex_State
begin

text \<open>
  \<open>pe_order.c\<close>: validation and creation of an order from the words of a message, and the two
  updates of an order. \<open>order_type\<close> is \<open>None\<close> for the source's \<open>-1\<close>.
\<close>

definition newOrder_fields :: "string list \<Rightarrow> exchange \<Rightarrow> tref \<Rightarrow> order_type option \<Rightarrow> order_struct option" where
  "newOrder_fields argv s t ty =
     (case ty of
        None \<Rightarrow> None
      | Some k \<Rightarrow>
          if \<not> isNumeric (argv ! 1) \<or> \<not> isNumeric (argv ! 3) \<or> \<not> isNumeric (argv ! 4) then None
          else
            let oid = atoi (argv ! 1); q = atoi (argv ! 3); p = atoi (argv ! 4) in
            if oid > int (length (orders (traders s ! t))) then None
            else if q \<le> 0 \<or> q > MAX_QUANTITY then None
            else if p \<le> 0 \<or> p > MAX_UNIT_PRICE then None
            else Some \<lparr>order_type = k, item = argv ! 2, quantity = q, unit_price = p, trader = t,
                        order_id = oid, order_index = - 1, completed = False\<rparr>)"

definition newOrder :: "string list \<Rightarrow> tref \<Rightarrow> order_type option \<Rightarrow> exchange \<Rightarrow> oref option \<times> exchange" where
  "newOrder argv t ty s =
     (case newOrder_fields argv s t ty of
        None \<Rightarrow> (None, s)
      | Some x \<Rightarrow> (let (r, s') = alloc_order x s in (Some r, s')))"

definition closeOrder :: "oref \<Rightarrow> exchange \<Rightarrow> exchange" where
  "closeOrder r s = upd_order r (\<lambda>x. x\<lparr>completed := True\<rparr>) s"

text \<open>The amount is never more than the quantity (\<open>match_quantity_bounds\<close>), so the difference is not reduced to 32 bits.\<close>

definition adjustAmount :: "oref \<Rightarrow> int \<Rightarrow> exchange \<Rightarrow> exchange" where
  "adjustAmount r amount s = upd_order r (\<lambda>x. x\<lparr>quantity := quantity x - amount\<rparr>) s"

lemma newOrder_None: "newOrder argv t ty s = (None, s') \<longleftrightarrow> newOrder_fields argv s t ty = None \<and> s' = s"
  by (auto simp: newOrder_def alloc_order_def split: option.splits)

lemma newOrder_Some:
  "newOrder argv t ty s = (Some r, s') \<longleftrightarrow>
     (\<exists>x. newOrder_fields argv s t ty = Some x \<and> r = length (store s) \<and> s' = s\<lparr>store := store s @ [x]\<rparr>)"
  by (auto simp: newOrder_def alloc_order_def split: option.splits)

lemma newOrder_fields_valid:
  assumes "newOrder_fields argv s t ty = Some x"
  shows "ty = Some (order_type x)" "item x = argv ! 2" "trader x = t" "\<not> completed x"
    "1 \<le> quantity x \<and> quantity x \<le> MAX_QUANTITY" "1 \<le> unit_price x \<and> unit_price x \<le> MAX_UNIT_PRICE"
    "order_id x = atoi (argv ! 1)" "order_id x \<le> int (length (orders (traders s ! t)))" "order_index x = - 1"
    "quantity x = atoi (argv ! 3)" "unit_price x = atoi (argv ! 4)"
  using assms by (auto simp: newOrder_fields_def Let_def split: option.splits if_splits)

lemma closeOrder_sel [heap_frame, simp]:
  "length (store (closeOrder r s)) = length (store s)"
  "traders (closeOrder r s) = traders s"
  "market (closeOrder r s) = market s"
  by (simp_all add: closeOrder_def)

lemma ord_closeOrder [heap_frame]:
  "r < length (store s) \<Longrightarrow>
     ord_of (closeOrder r s) q = (if q = r then (ord_of s r)\<lparr>completed := True\<rparr> else ord_of s q)"
  by (simp add: closeOrder_def)

lemma adjustAmount_sel [heap_frame, simp]:
  "length (store (adjustAmount r n s)) = length (store s)"
  "traders (adjustAmount r n s) = traders s"
  "market (adjustAmount r n s) = market s"
  by (simp_all add: adjustAmount_def)

lemma ord_adjustAmount [heap_frame]:
  "r < length (store s) \<Longrightarrow>
     ord_of (adjustAmount r n s) q =
       (if q = r then (ord_of s r)\<lparr>quantity := quantity (ord_of s r) - n\<rparr> else ord_of s q)"
  by (simp add: adjustAmount_def)

end
