(* ===== verification/Ex_Trader.thy ===== *)
theory Ex_Trader
  imports Ex_Order
begin

text \<open>
  \<open>pe_mytrader.c\<close>: a trader's orders and positions. The functions that work on one trader
  take and return its structure; those that follow the pointers of its \<open>orders\<close> array work
  on the whole store. Memory release (\<open>delTrader\<close>, \<open>disconnectTrader\<close>) has no counterpart.

  The second half states what the market relies on: a settlement calls \<open>buy\<close>, \<open>sell\<close> and
  \<open>tax\<close>, each of which moves a position by a known amount.
\<close>

section \<open>Operations\<close>

text \<open>The file descriptors and the process id are set by \<open>main\<close> when the trader is started.\<close>

definition inst_trader :: "string \<Rightarrow> int \<Rightarrow> nat \<Rightarrow> string list \<Rightarrow> trader_struct" where
  "inst_trader nm tid pcount product_list =
     \<lparr>name = nm, exc2trader = [], trader2exc = [], fd_w = 0, fd_r = 0, trader_pid = 0, trader_id = tid,
      product_count = pcount, inventory_products = product_list,
      inventory_quantity = replicate pcount 0, bank = replicate pcount 0,
      orders = [], orders_cap = INITIAL_CAPACITY, disconnected = False\<rparr>"

text \<open>\<open>realloc_ok\<close> tells whether \<open>realloc\<close> succeeds when it is called.\<close>

definition traderAddOrder :: "bool \<Rightarrow> trader_struct \<Rightarrow> oref \<Rightarrow> int \<times> trader_struct" where
  "traderAddOrder realloc_ok t r =
     (if length (orders t) \<ge> INITIAL_CAPACITY then
        (if \<not> realloc_ok then (1, t)
         else (0, t\<lparr>orders := orders t @ [r], orders_cap := length (orders t) + 1\<rparr>))
      else (0, t\<lparr>orders := orders t @ [r]\<rparr>))"

definition traderAmendOrder :: "tref \<Rightarrow> oref \<Rightarrow> exchange \<Rightarrow> exchange" where
  "traderAmendOrder t r s =
     upd_trader t (\<lambda>x. x\<lparr>orders := map (\<lambda>q. if order_id (ord_of s q) = order_id (ord_of s r) then r else q) (orders x)\<rparr>) s"

definition getOrder :: "tref \<Rightarrow> int \<Rightarrow> exchange \<Rightarrow> oref option" where
  "getOrder t oid s = List.find (\<lambda>q. order_id (ord_of s q) = oid) (orders (traders s ! t))"

text \<open>The loops of \<open>buy\<close> and \<open>sell\<close> stop at the first product of that name.\<close>

fun find_product :: "string \<Rightarrow> string list \<Rightarrow> nat option" where
  "find_product p [] = None"
| "find_product p (x # xs) = (if x = p then Some 0 else map_option Suc (find_product p xs))"

definition buy :: "trader_struct \<Rightarrow> string \<Rightarrow> int \<Rightarrow> int \<Rightarrow> int \<times> trader_struct" where
  "buy t p q buy_price =
     (case find_product p (take (product_count t) (inventory_products t)) of
        None \<Rightarrow> (1, t)
      | Some i \<Rightarrow>
          (0, t\<lparr>inventory_quantity := (inventory_quantity t)[i := c_int (inventory_quantity t ! i + q)],
                bank := (bank t)[i := c_llong (bank t ! i - buy_price * q)]\<rparr>))"

definition sell :: "trader_struct \<Rightarrow> string \<Rightarrow> int \<Rightarrow> int \<Rightarrow> int \<times> trader_struct" where
  "sell t p q sell_price =
     (case find_product p (take (product_count t) (inventory_products t)) of
        None \<Rightarrow> (1, t)
      | Some i \<Rightarrow>
          (0, t\<lparr>inventory_quantity := (inventory_quantity t)[i := c_int (inventory_quantity t ! i - q)],
                bank := (bank t)[i := c_llong (bank t ! i + sell_price * q)]\<rparr>))"

text \<open>The loop of \<open>tax\<close> has no \<open>break\<close>: it charges every product of that name.\<close>

fun tax_loop :: "nat \<Rightarrow> nat \<Rightarrow> trader_struct \<Rightarrow> int \<Rightarrow> string \<Rightarrow> trader_struct" where
  "tax_loop i 0 t amount p = t"
| "tax_loop i (Suc n) t amount p =
     tax_loop (Suc i) n
       (if inventory_products t ! i = p then t\<lparr>bank := (bank t)[i := c_llong (bank t ! i - amount)]\<rparr> else t)
       amount p"

definition tax :: "trader_struct \<Rightarrow> int \<Rightarrow> string \<Rightarrow> trader_struct" where
  "tax t tax_amount p = tax_loop 0 (product_count t) t tax_amount p"

section \<open>Lookup of a product\<close>

lemma find_product_Some:
  "find_product p xs = Some i \<Longrightarrow> i < length xs \<and> xs ! i = p"
  by (induction xs arbitrary: i) (auto split: if_splits)

lemma find_product_member: "p \<in> set xs \<Longrightarrow> \<exists>i. find_product p xs = Some i"
  by (induction xs) auto

lemma find_product_None: "find_product p xs = None \<longleftrightarrow> p \<notin> set xs"
  by (induction xs) auto

lemma find_product_distinct: "distinct xs \<Longrightarrow> i < length xs \<Longrightarrow> find_product (xs ! i) xs = Some i"
  using find_product_member [of "xs ! i" xs] find_product_Some [of "xs ! i" xs]
  by (auto simp: nth_eq_iff_index_eq)

section \<open>Accounts\<close>

text \<open>\<open>holds p t\<close>: the arrays of \<open>t\<close> agree in length, product names are distinct and \<open>p\<close> is one.\<close>

definition wf_account :: "trader_struct \<Rightarrow> bool" where
  "wf_account t \<longleftrightarrow> product_count t = length (inventory_products t) \<and>
     length (inventory_quantity t) = length (inventory_products t) \<and>
     length (bank t) = length (inventory_products t) \<and> distinct (inventory_products t)"

definition holds :: "string \<Rightarrow> trader_struct \<Rightarrow> bool" where
  "holds p t \<longleftrightarrow> wf_account t \<and> p \<in> set (inventory_products t)"

definition cash :: "trader_struct \<Rightarrow> int" where
  "cash t = sum_list (bank t)"

definition stock :: "string \<Rightarrow> trader_struct \<Rightarrow> int" where
  "stock p t = (case find_product p (inventory_products t) of None \<Rightarrow> 0 | Some i \<Rightarrow> inventory_quantity t ! i)"

lemma measure_frames [simp]:
  "stock p (t\<lparr>bank := b\<rparr>) = stock p t"
  "cash (t\<lparr>inventory_quantity := x\<rparr>) = cash t"
  by (simp_all add: stock_def cash_def split: option.split)

lemma tax_loop_none:
  "p \<notin> set (drop i (inventory_products t)) \<Longrightarrow> i + n \<le> length (inventory_products t) \<Longrightarrow>
   tax_loop i n t a p = t"
proof (induction n arbitrary: i)
  case 0
  then show ?case by simp
next
  case (Suc n)
  then have "drop i (inventory_products t) = inventory_products t ! i # drop (Suc i) (inventory_products t)"
    by (simp add: Cons_nth_drop_Suc)
  with Suc show ?case by auto
qed

lemma tax_loop_at:
  assumes "distinct (inventory_products t)" and "j < length (inventory_products t)"
    and "inventory_products t ! j = p" and "i \<le> j" and "i + n = length (inventory_products t)"
  shows "tax_loop i n t a p = t\<lparr>bank := (bank t)[j := c_llong (bank t ! j - a)]\<rparr>"
  using assms(4,5)
proof (induction n arbitrary: i)
  case 0
  with assms(2) show ?case by simp
next
  case (Suc n)
  show ?case
  proof (cases "i = j")
    case True
    have "p \<notin> set (drop (Suc j) (inventory_products t))"
      using assms(1-3) by (auto simp: in_set_conv_nth nth_eq_iff_index_eq)
    with True Suc.prems assms(3) tax_loop_none
      [of p "Suc j" "t\<lparr>bank := (bank t)[j := c_llong (bank t ! j - a)]\<rparr>" n a]
    show ?thesis by simp
  next
    case False
    with assms(1-3) Suc.prems have "inventory_products t ! i \<noteq> p"
      by (auto simp: nth_eq_iff_index_eq)
    with False Suc.IH [of "Suc i"] Suc.prems show ?thesis by simp
  qed
qed

lemma buy_holds:
  assumes "holds p t"
  obtains i where "find_product p (inventory_products t) = Some i" "i < length (inventory_products t)"
    "inventory_products t ! i = p"
    "buy t p q pr = (0, t\<lparr>inventory_quantity := (inventory_quantity t)[i := c_int (inventory_quantity t ! i + q)],
       bank := (bank t)[i := c_llong (bank t ! i - pr * q)]\<rparr>)"
    "sell t p q pr = (0, t\<lparr>inventory_quantity := (inventory_quantity t)[i := c_int (inventory_quantity t ! i - q)],
       bank := (bank t)[i := c_llong (bank t ! i + pr * q)]\<rparr>)"
    "tax t a p = t\<lparr>bank := (bank t)[i := c_llong (bank t ! i - a)]\<rparr>"
proof -
  from assms have wf: "wf_account t" and "p \<in> set (inventory_products t)" by (auto simp: holds_def)
  then obtain i where i: "find_product p (inventory_products t) = Some i" using find_product_member by blast
  from find_product_Some [OF i] have "i < length (inventory_products t)" "inventory_products t ! i = p" by auto
  with i wf tax_loop_at [of t i p 0 "length (inventory_products t)" a] that [of i] show thesis
    by (simp add: buy_def sell_def tax_def wf_account_def)
qed

lemma cash_update:
  "i < length (bank t) \<Longrightarrow> 2 ^ 64 dvd cash (t\<lparr>bank := (bank t)[i := c_llong (bank t ! i + d)]\<rparr>) - (cash t + d)"
  using wraps_dvd(2) [of "bank t ! i + d"] by (simp add: cash_def sum_list_int_update algebra_simps)

lemma stock_update:
  assumes "find_product p (inventory_products t) = Some i" and "i < length (inventory_quantity t)"
    and "length (inventory_quantity t) = length (inventory_products t)"
  shows "2 ^ 32 dvd stock p' (t\<lparr>inventory_quantity := (inventory_quantity t)[i := c_int (inventory_quantity t ! i + d)]\<rparr>) -
    (stock p' t + (if p' = p then d else 0))"
proof (cases "p' = p")
  case True
  with assms wraps_dvd(1) [of "inventory_quantity t ! i + d"] show ?thesis
    by (simp add: stock_def algebra_simps)
next
  case False
  have "i \<noteq> j" if "find_product p' (inventory_products t) = Some j" for j
    using False find_product_Some [OF that] find_product_Some [OF assms(1)] by auto
  with False show ?thesis by (auto simp: stock_def split: option.splits)
qed

section \<open>The settlement interface\<close>

text \<open>
  A quantity \<open>measure_of k\<close> of a trader (its cash, or its stock of a product) that the three
  operations change by known amounts up to a modulus; what the buyer's operation adds, the
  seller's takes away. The client's facts are the effect of a call on the total over all traders
  (\<open>moved_total\<close>) and of a purchase and a sale one after the other (\<open>two_moves_total\<close>).
\<close>

locale settlement =
  fixes buy_op :: "'t \<Rightarrow> 'p \<Rightarrow> int \<Rightarrow> int \<Rightarrow> int \<times> 't"
    and sell_op :: "'t \<Rightarrow> 'p \<Rightarrow> int \<Rightarrow> int \<Rightarrow> int \<times> 't"
    and tax_op :: "'t \<Rightarrow> int \<Rightarrow> 'p \<Rightarrow> 't"
    and account :: "'p \<Rightarrow> 't \<Rightarrow> bool"
    and measure_of :: "'k \<Rightarrow> 't \<Rightarrow> int"
    and modulus :: int
    and flow :: "'k \<Rightarrow> 'p \<Rightarrow> int \<Rightarrow> int \<Rightarrow> int"
    and levy :: "'k \<Rightarrow> 'p \<Rightarrow> int \<Rightarrow> int"
  assumes buy_law: "account p t \<Longrightarrow> \<exists>t'. buy_op t p q pr = (0, t') \<and> (\<forall>p'. account p' t' = account p' t) \<and>
      modulus dvd measure_of k t' - (measure_of k t + flow k p q pr)"
    and sell_law: "account p t \<Longrightarrow> \<exists>t'. sell_op t p q pr = (0, t') \<and> (\<forall>p'. account p' t' = account p' t) \<and>
      modulus dvd measure_of k t' - (measure_of k t - flow k p q pr)"
    and tax_law: "account p t \<Longrightarrow> (\<forall>p'. account p' (tax_op t f p) = account p' t) \<and>
      modulus dvd measure_of k (tax_op t f p) - (measure_of k t - levy k p f)"
begin

definition total :: "'k \<Rightarrow> 't list \<Rightarrow> int" where
  "total k ts = sum_list (map (measure_of k) ts)"

text \<open>\<open>moved d t t'\<close>: replacing \<open>t\<close> by \<open>t'\<close> keeps its accounts and adds \<open>d\<close> to the measure.\<close>

definition moved :: "'k \<Rightarrow> int \<Rightarrow> 't \<Rightarrow> 't \<Rightarrow> bool" where
  "moved k d t t' \<longleftrightarrow> (\<forall>p. account p t' = account p t) \<and> modulus dvd measure_of k t' - (measure_of k t + d)"

lemma buy_moved: "account p t \<Longrightarrow> buy_op t p q pr = (rc, t') \<Longrightarrow> rc = 0 \<and> moved k (flow k p q pr) t t'"
  using buy_law [of p t q pr k] by (auto simp: moved_def)

lemma sell_moved: "account p t \<Longrightarrow> sell_op t p q pr = (rc, t') \<Longrightarrow> rc = 0 \<and> moved k (- flow k p q pr) t t'"
  using sell_law [of p t q pr k] by (auto simp: moved_def)

lemma tax_moved: "account p t \<Longrightarrow> moved k (- levy k p f) t (tax_op t f p)"
  using tax_law [of p t f k] by (auto simp: moved_def)

lemma moved_total:
  assumes "i < length ts" and "moved k d (ts ! i) t'"
  shows "modulus dvd total k (ts[i := t']) - (total k ts + d)"
    and "\<forall>t\<in>set ts. account p t \<Longrightarrow> \<forall>t\<in>set (ts[i := t']). account p t"
proof -
  show "modulus dvd total k (ts[i := t']) - (total k ts + d)"
    using assms by (simp add: moved_def total_def sum_list_map_update algebra_simps)
  assume all: "\<forall>t\<in>set ts. account p t"
  then have "account p t'" using assms by (simp add: moved_def)
  with all show "\<forall>t\<in>set (ts[i := t']). account p t" by (rule ball_update)
qed

lemma two_moves_total:
  assumes "i < length ts" "j < length ts" and "moved k d (ts ! i) t1" and "moved k e (ts[i := t1] ! j) t2"
  shows "modulus dvd total k (ts[i := t1, j := t2]) - (total k ts + d + e)"
  using dvd_add [OF moved_total(1) [OF assms(1,3)] moved_total(1) [of j "ts[i := t1]" k e t2]] assms(2,4)
  by (simp add: algebra_simps)

text \<open>A whole settlement: the two sides of a trade, in either order, and the fee.\<close>

lemma keeps_accounts: "i < length ts \<Longrightarrow> moved k d (ts ! i) t' \<Longrightarrow> account p (ts[i := t'] ! j) = account p (ts ! j)"
  by (cases "i = j") (simp_all add: moved_def)

lemma taxed_total:
  assumes "i < length ts" "j < length ts" "l < length ts" and "moved k d (ts ! i) t1" and "moved k e (ts[i := t1] ! j) t2"
    and "account p (ts ! l)"
  shows "modulus dvd total k (ts[i := t1, j := t2, l := tax_op (ts[i := t1, j := t2] ! l) f p]) - (total k ts + d + e - levy k p f)"
proof -
  have "account p (ts[i := t1, j := t2] ! l)"
    using keeps_accounts [of j "ts[i := t1]" k e t2 p l] keeps_accounts [of i ts k d t1 p l] assms by simp
  then have "moved k (- levy k p f) (ts[i := t1, j := t2] ! l) (tax_op (ts[i := t1, j := t2] ! l) f p)" by (rule tax_moved)
  from dvd_add [OF two_moves_total [OF assms(1,2,4,5)] moved_total(1) [OF _ this]] assms(3)
  show ?thesis by (simp add: algebra_simps)
qed

lemma settlement_total:
  assumes "i < length ts" "j < length ts" "l < length ts" and "account p (ts ! i)" "account p' (ts ! j)" "account p'' (ts ! l)"
  shows "ts1 = ts[i := snd (buy_op (ts ! i) p q pr)] \<Longrightarrow> ts2 = ts1[j := snd (sell_op (ts1 ! j) p' q pr)] \<Longrightarrow>
      modulus dvd total k (ts2[l := tax_op (ts2 ! l) f p'']) - (total k ts + flow k p q pr - flow k p' q pr - levy k p'' f)"
    and "ts1 = ts[i := snd (sell_op (ts ! i) p q pr)] \<Longrightarrow> ts2 = ts1[j := snd (buy_op (ts1 ! j) p' q pr)] \<Longrightarrow>
      modulus dvd total k (ts2[l := tax_op (ts2 ! l) f p'']) - (total k ts - flow k p q pr + flow k p' q pr - levy k p'' f)"
proof -
  assume ts1: "ts1 = ts[i := snd (buy_op (ts ! i) p q pr)]" and ts2: "ts2 = ts1[j := snd (sell_op (ts1 ! j) p' q pr)]"
  have m1: "moved k (flow k p q pr) (ts ! i) (snd (buy_op (ts ! i) p q pr))"
    using buy_moved [OF assms(4)] by (metis prod.collapse)
  have "account p' (ts1 ! j)" using keeps_accounts [OF assms(1) m1, of p' j] assms(5) by (simp add: ts1)
  then have m2: "moved k (- flow k p' q pr) (ts[i := snd (buy_op (ts ! i) p q pr)] ! j) (snd (sell_op (ts1 ! j) p' q pr))"
    using sell_moved by (metis prod.collapse ts1)
  from taxed_total [OF assms(1-3) m1 m2 assms(6), of f]
  show "modulus dvd total k (ts2[l := tax_op (ts2 ! l) f p'']) - (total k ts + flow k p q pr - flow k p' q pr - levy k p'' f)"
    by (simp add: ts1 ts2)
next
  assume ts1: "ts1 = ts[i := snd (sell_op (ts ! i) p q pr)]" and ts2: "ts2 = ts1[j := snd (buy_op (ts1 ! j) p' q pr)]"
  have m1: "moved k (- flow k p q pr) (ts ! i) (snd (sell_op (ts ! i) p q pr))"
    using sell_moved [OF assms(4)] by (metis prod.collapse)
  have "account p' (ts1 ! j)" using keeps_accounts [OF assms(1) m1, of p' j] assms(5) by (simp add: ts1)
  then have m2: "moved k (flow k p' q pr) (ts[i := snd (sell_op (ts ! i) p q pr)] ! j) (snd (buy_op (ts1 ! j) p' q pr))"
    using buy_moved by (metis prod.collapse ts1)
  from taxed_total [OF assms(1-3) m1 m2 assms(6), of f]
  show "modulus dvd total k (ts2[l := tax_op (ts2 ! l) f p'']) - (total k ts - flow k p q pr + flow k p' q pr - levy k p'' f)"
    by (simp add: ts1 ts2)
qed

end

interpretation cash: settlement buy sell tax holds "\<lambda>_::unit. cash" "2 ^ 64"
  "\<lambda>_ _ q pr. - (pr * q)" "\<lambda>_ _ f. f"
proof
  fix p t q pr and k :: unit
  assume h: "holds p t"
  from h have wf: "length (bank t) = length (inventory_products t)" by (simp add: holds_def wf_account_def)
  obtain i where i: "i < length (inventory_products t)"
    and b: "buy t p q pr = (0, t\<lparr>inventory_quantity := (inventory_quantity t)[i := c_int (inventory_quantity t ! i + q)],
       bank := (bank t)[i := c_llong (bank t ! i - pr * q)]\<rparr>)" (is "_ = (0, ?t)")
    using h by (rule buy_holds [of p t q pr])
  have "\<forall>p'. holds p' ?t = holds p' t" by (simp add: holds_def wf_account_def)
  moreover have "2 ^ 64 dvd cash ?t - (cash t + - (pr * q))"
    using cash_update [of i t "- (pr * q)"] i wf by (simp add: cash_def)
  ultimately show "\<exists>t'. buy t p q pr = (0, t') \<and> (\<forall>p'. holds p' t' = holds p' t) \<and> 2 ^ 64 dvd cash t' - (cash t + - (pr * q))"
    using b by blast
next
  fix p t q pr and k :: unit
  assume h: "holds p t"
  from h have wf: "length (bank t) = length (inventory_products t)" by (simp add: holds_def wf_account_def)
  obtain i where i: "i < length (inventory_products t)"
    and b: "sell t p q pr = (0, t\<lparr>inventory_quantity := (inventory_quantity t)[i := c_int (inventory_quantity t ! i - q)],
       bank := (bank t)[i := c_llong (bank t ! i + pr * q)]\<rparr>)" (is "_ = (0, ?t)")
    using h by (rule buy_holds [of p t q pr])
  have "\<forall>p'. holds p' ?t = holds p' t" by (simp add: holds_def wf_account_def)
  moreover have "2 ^ 64 dvd cash ?t - (cash t - - (pr * q))"
    using cash_update [of i t "pr * q"] i wf by (simp add: cash_def)
  ultimately show "\<exists>t'. sell t p q pr = (0, t') \<and> (\<forall>p'. holds p' t' = holds p' t) \<and> 2 ^ 64 dvd cash t' - (cash t - - (pr * q))"
    using b by blast
next
  fix p t f and k :: unit
  assume h: "holds p t"
  from h have wf: "length (bank t) = length (inventory_products t)" by (simp add: holds_def wf_account_def)
  obtain i where i: "i < length (inventory_products t)"
    and b: "tax t f p = t\<lparr>bank := (bank t)[i := c_llong (bank t ! i - f)]\<rparr>"
    using h by (rule buy_holds [of p t _ _ f])
  from b h i wf cash_update [of i t "- f"]
  show "(\<forall>p'. holds p' (tax t f p) = holds p' t) \<and> 2 ^ 64 dvd cash (tax t f p) - (cash t - f)"
    by (simp add: holds_def wf_account_def)
qed

interpretation stock: settlement buy sell tax holds stock "2 ^ 32"
  "\<lambda>k p q _. if k = p then q else 0" "\<lambda>_ _ _. 0"
proof
  fix p t q pr k
  assume h: "holds p t"
  from h have wf: "length (inventory_quantity t) = length (inventory_products t)" by (simp add: holds_def wf_account_def)
  obtain i where i: "find_product p (inventory_products t) = Some i" "i < length (inventory_products t)"
    and b: "buy t p q pr = (0, t\<lparr>inventory_quantity := (inventory_quantity t)[i := c_int (inventory_quantity t ! i + q)],
       bank := (bank t)[i := c_llong (bank t ! i - pr * q)]\<rparr>)" (is "_ = (0, ?t)")
    using h by (rule buy_holds [of p t q pr])
  have "\<forall>p'. holds p' ?t = holds p' t" by (simp add: holds_def wf_account_def)
  moreover have "2 ^ 32 dvd stock k ?t - (stock k t + (if k = p then q else 0))"
    using stock_update [OF i(1), of k q] i wf by simp
  ultimately show "\<exists>t'. buy t p q pr = (0, t') \<and> (\<forall>p'. holds p' t' = holds p' t) \<and>
      2 ^ 32 dvd stock k t' - (stock k t + (if k = p then q else 0))"
    using b by blast
next
  fix p t q pr k
  assume h: "holds p t"
  from h have wf: "length (inventory_quantity t) = length (inventory_products t)" by (simp add: holds_def wf_account_def)
  obtain i where i: "find_product p (inventory_products t) = Some i" "i < length (inventory_products t)"
    and b: "sell t p q pr = (0, t\<lparr>inventory_quantity := (inventory_quantity t)[i := c_int (inventory_quantity t ! i - q)],
       bank := (bank t)[i := c_llong (bank t ! i + pr * q)]\<rparr>)" (is "_ = (0, ?t)")
    using h by (rule buy_holds [of p t q pr])
  have "\<forall>p'. holds p' ?t = holds p' t" by (simp add: holds_def wf_account_def)
  moreover have "2 ^ 32 dvd stock k ?t - (stock k t - (if k = p then q else 0))"
    using stock_update [OF i(1), of k "- q"] i wf by (simp split: if_splits)
  ultimately show "\<exists>t'. sell t p q pr = (0, t') \<and> (\<forall>p'. holds p' t' = holds p' t) \<and>
      2 ^ 32 dvd stock k t' - (stock k t - (if k = p then q else 0))"
    using b by blast
next
  fix p t f k
  assume h: "holds p t"
  obtain i where "tax t f p = t\<lparr>bank := (bank t)[i := c_llong (bank t ! i - f)]\<rparr>"
    using h by (rule buy_holds [of p t _ _ f])
  with h show "(\<forall>p'. holds p' (tax t f p) = holds p' t) \<and> 2 ^ 32 dvd stock k (tax t f p) - (stock k t - 0)"
    by (simp add: holds_def wf_account_def)
qed

end
