(* ===== verification/Ex_Sort.thy ===== *)
theory Ex_Sort
  imports Ex_Trader "HOL-Library.Multiset"
begin

text \<open>
  The two sorts of \<open>pe_market.c\<close>, \<open>orderSort\<close> and \<open>orderSortReverse\<close>. Both are the same
  pair of loops around a comparison of prices, \<open>order[i]\<close> against \<open>order[j]\<close>; the locale
  \<open>exchange_sort\<close> proves, for any strict weak order, that the loops sort, permute, and put
  the earliest of the best elements first, and is interpreted for both comparisons.
\<close>

section \<open>The loops\<close>

definition swap :: "'a list \<Rightarrow> nat \<Rightarrow> nat \<Rightarrow> 'a list" where
  "swap xs i j = xs[i := xs ! j, j := xs ! i]"

text \<open>The last number is the count of iterations left.\<close>

fun sort_inner :: "('a \<Rightarrow> 'a \<Rightarrow> bool) \<Rightarrow> nat \<Rightarrow> nat \<Rightarrow> nat \<Rightarrow> 'a list \<Rightarrow> 'a list" where
  "sort_inner gt i j 0 xs = xs"
| "sort_inner gt i j (Suc k) xs =
     sort_inner gt i (Suc j) k (if gt (xs ! i) (xs ! j) then swap xs i j else xs)"

fun sort_outer :: "('a \<Rightarrow> 'a \<Rightarrow> bool) \<Rightarrow> nat \<Rightarrow> nat \<Rightarrow> 'a list \<Rightarrow> 'a list" where
  "sort_outer gt i 0 xs = xs"
| "sort_outer gt i (Suc k) xs = sort_outer gt (Suc i) k (sort_inner gt i i (Suc k) xs)"

definition dearer :: "exchange \<Rightarrow> oref \<Rightarrow> oref \<Rightarrow> bool" where
  "dearer s a b \<longleftrightarrow> unit_price (ord_of s a) > unit_price (ord_of s b)"

definition cheaper :: "exchange \<Rightarrow> oref \<Rightarrow> oref \<Rightarrow> bool" where
  "cheaper s a b \<longleftrightarrow> unit_price (ord_of s a) < unit_price (ord_of s b)"

definition orderSort :: "exchange \<Rightarrow> oref list \<Rightarrow> oref list" where
  "orderSort s xs = sort_outer (dearer s) 0 (length xs) xs"

definition orderSortReverse :: "exchange \<Rightarrow> oref list \<Rightarrow> oref list" where
  "orderSortReverse s xs = sort_outer (cheaper s) 0 (length xs) xs"

section \<open>What the loops keep\<close>

lemma length_swap [simp]: "length (swap xs i j) = length xs"
  by (simp add: swap_def)

lemma nth_swap:
  "i < length xs \<Longrightarrow> j < length xs \<Longrightarrow>
     swap xs i j ! m = (if m = j then xs ! i else if m = i then xs ! j else xs ! m)"
  by (auto simp: swap_def nth_list_update)

lemma mset_swap_list: "i < length xs \<Longrightarrow> j < length xs \<Longrightarrow> mset (swap xs i j) = mset xs"
  by (simp add: swap_def mset_swap)

lemma length_sort_inner [simp]: "length (sort_inner gt i j k xs) = length xs"
  by (induction k arbitrary: j xs) auto

lemma length_sort_outer [simp]: "length (sort_outer gt i k xs) = length xs"
  by (induction k arbitrary: i xs) auto

lemma mset_sort_inner:
  "i < length xs \<Longrightarrow> j + k \<le> length xs \<Longrightarrow> mset (sort_inner gt i j k xs) = mset xs"
  by (induction k arbitrary: j xs) (auto simp: mset_swap_list)

lemma mset_sort_outer: "i + k \<le> length xs \<Longrightarrow> mset (sort_outer gt i k xs) = mset xs"
  by (induction k arbitrary: i xs) (auto simp: mset_sort_inner simp del: sort_inner.simps)

lemma sort_inner_below:
  "m < i \<Longrightarrow> i \<le> j \<Longrightarrow> j + k \<le> length xs \<Longrightarrow> sort_inner gt i j k xs ! m = xs ! m"
  by (induction k arbitrary: j xs) (auto simp: nth_swap)

lemma sort_outer_below:
  "m < i \<Longrightarrow> i + k \<le> length xs \<Longrightarrow> sort_outer gt i k xs ! m = xs ! m"
  by (induction k arbitrary: i xs) (auto simp: sort_inner_below simp del: sort_inner.simps)

text \<open>The entries from \<open>i\<close> on are only rearranged among themselves.\<close>

lemma sort_inner_above:
  assumes "i \<le> j" "j + k \<le> length xs" "i \<le> m" "m < length xs" "i < length xs"
  shows "\<exists>m'\<ge>i. m' < length xs \<and> sort_inner gt i j k xs ! m = xs ! m'"
  using assms
proof (induction k arbitrary: j xs)
  case 0
  then show ?case by auto
next
  case (Suc k)
  show ?case
  proof (cases "gt (xs ! i) (xs ! j)")
    case True
    from Suc.IH [of "Suc j" "swap xs i j"] Suc.prems obtain m' where
      "i \<le> m'" "m' < length xs" "sort_inner gt i (Suc j) k (swap xs i j) ! m = swap xs i j ! m'" by auto
    with True Suc.prems show ?thesis by (cases "m' = i"; cases "m' = j") (auto simp: nth_swap)
  next
    case False
    with Suc.IH [of "Suc j" xs] Suc.prems show ?thesis by auto
  qed
qed

section \<open>Correctness for a strict weak order\<close>

locale exchange_sort =
  fixes gt :: "'a \<Rightarrow> 'a \<Rightarrow> bool"
  assumes gt_irrefl: "\<not> gt a a"
    and gt_trans: "gt a b \<Longrightarrow> gt b c \<Longrightarrow> gt a c"
    and ngt_trans: "\<not> gt a b \<Longrightarrow> \<not> gt b c \<Longrightarrow> \<not> gt a c"
begin

lemma gt_asym: "gt a b \<Longrightarrow> \<not> gt b a"
  using gt_irrefl gt_trans by blast

lemma inner_min:
  assumes "i \<le> j" "j + k = length xs" "i < length xs"
    and "\<forall>m. i \<le> m \<and> m < j \<longrightarrow> \<not> gt (xs ! i) (xs ! m)"
  shows "\<forall>m. i \<le> m \<and> m < length xs \<longrightarrow> \<not> gt (sort_inner gt i j k xs ! i) (sort_inner gt i j k xs ! m)"
  using assms
proof (induction k arbitrary: j xs)
  case 0
  then show ?case by simp
next
  case (Suc k)
  let ?ys = "if gt (xs ! i) (xs ! j) then swap xs i j else xs"
  have "\<not> gt (?ys ! i) (?ys ! m)" if m: "i \<le> m" "m < Suc j" for m
  proof (cases "gt (xs ! i) (xs ! j)")
    case True
    then have "i < j" using Suc.prems(1) gt_irrefl by (cases "i = j") auto
    show ?thesis
    proof (cases "m = j")
      case True
      with \<open>gt (xs ! i) (xs ! j)\<close> \<open>i < j\<close> Suc.prems show ?thesis by (simp add: nth_swap gt_asym)
    next
      case False
      with m Suc.prems(4) have "\<not> gt (xs ! i) (xs ! m)" by simp
      with True have "\<not> gt (xs ! j) (xs ! m)" using gt_trans by blast
      with True False \<open>i < j\<close> Suc.prems show ?thesis by (simp add: nth_swap gt_irrefl)
    qed
  next
    case False
    with m Suc.prems(4) show ?thesis by (cases "m = j") auto
  qed
  with Suc.IH [of "Suc j" ?ys] Suc.prems show ?case by simp
qed

lemma outer_sorted:
  assumes "i + k = length xs"
    and "\<forall>a b. a < i \<and> a < b \<and> b < length xs \<longrightarrow> \<not> gt (xs ! a) (xs ! b)"
  shows "\<forall>a b. a < b \<and> b < length xs \<longrightarrow> \<not> gt (sort_outer gt i k xs ! a) (sort_outer gt i k xs ! b)"
  using assms
proof (induction k arbitrary: i xs)
  case 0
  then show ?case by simp
next
  case (Suc k)
  let ?ys = "sort_inner gt i i (Suc k) xs"
  have "\<not> gt (?ys ! a) (?ys ! b)" if ab: "a < Suc i" "a < b" "b < length xs" for a b
  proof (cases "a = i")
    case True
    have "\<forall>m. i \<le> m \<and> m < length xs \<longrightarrow> \<not> gt (?ys ! i) (?ys ! m)"
      using Suc.prems(1) by (intro inner_min) auto
    with True ab show ?thesis by simp
  next
    case False
    then have a: "?ys ! a = xs ! a" using ab Suc.prems(1) by (intro sort_inner_below) auto
    show ?thesis
    proof (cases "b < i")
      case True
      then have "?ys ! b = xs ! b" using Suc.prems(1) by (intro sort_inner_below) auto
      with a False ab Suc.prems(2) show ?thesis by (simp del: sort_inner.simps)
    next
      case b: False
      then obtain m' where "i \<le> m'" "m' < length xs" "?ys ! b = xs ! m'"
        using sort_inner_above [of i i "Suc k" xs b gt] ab Suc.prems(1) by (auto simp del: sort_inner.simps)
      with a False ab Suc.prems(2) show ?thesis by (simp del: sort_inner.simps)
    qed
  qed
  with Suc.IH [of "Suc i" ?ys] Suc.prems(1) show ?case by (simp del: sort_inner.simps)
qed

lemma sorts: "sorted_wrt (\<lambda>a b. \<not> gt a b) (sort_outer gt 0 (length xs) xs)"
  using outer_sorted [of 0 "length xs" xs] by (simp add: sorted_wrt_iff_nth_less)

text \<open>The earliest of the best entries ends up in front.\<close>

lemma inner_first:
  assumes "j + k = length xs" "0 < length xs" "p < j \<or> j = 0 \<and> p = 0"
    and "xs ! 0 = zs ! p" "\<forall>m\<ge>j. xs ! m = zs ! m" "length zs = length xs"
    and "\<forall>m<j. \<not> gt (zs ! p) (zs ! m)" "\<forall>m<p. gt (zs ! m) (zs ! p)"
  shows "\<exists>q<length xs. sort_inner gt 0 j k xs ! 0 = zs ! q \<and>
    (\<forall>m<length xs. \<not> gt (zs ! q) (zs ! m)) \<and> (\<forall>m<q. gt (zs ! m) (zs ! q))"
  using assms
proof (induction k arbitrary: j xs p)
  case 0
  then show ?case by auto
next
  case (Suc k)
  show ?case
  proof (cases "gt (xs ! 0) (xs ! j)")
    case True
    then have "0 < j" using gt_irrefl by (cases "j = 0") auto
    from True have pj: "gt (zs ! p) (zs ! j)" using Suc.prems by simp
    have "\<not> gt (zs ! j) (zs ! m)" if "m < Suc j" for m
      using that Suc.prems(7) gt_trans [OF pj] gt_irrefl by (metis less_antisym)
    moreover have "gt (zs ! m) (zs ! j)" if "m < j" for m
      using that Suc.prems(7) pj ngt_trans by blast
    ultimately show ?thesis
      using Suc.IH [of "Suc j" "swap xs 0 j" j] True Suc.prems \<open>0 < j\<close> by (simp add: nth_swap)
  next
    case False
    then have "\<not> gt (zs ! p) (zs ! m)" if "m < Suc j" for m
      using that Suc.prems by (cases "m = j") auto
    moreover have "p < Suc j" using Suc.prems(3) by auto
    ultimately show ?thesis using Suc.IH [of "Suc j" xs p] False Suc.prems by simp
  qed
qed

lemma first_best:
  assumes "xs \<noteq> []"
  shows "\<exists>q<length xs. sort_outer gt 0 (length xs) xs ! 0 = xs ! q \<and>
    (\<forall>m<length xs. \<not> gt (xs ! q) (xs ! m)) \<and> (\<forall>m<q. gt (xs ! m) (xs ! q))"
proof -
  obtain k where k: "length xs = Suc k" using assms by (cases xs) auto
  have "sort_outer gt 0 (length xs) xs ! 0 = sort_inner gt 0 0 (Suc k) xs ! 0"
    using k by (simp add: sort_outer_below del: sort_inner.simps)
  with inner_first [of 0 "Suc k" xs 0 xs] k show ?thesis by (simp del: sort_inner.simps)
qed

end

text \<open>
  On positions of the order book, listed in the order of the book, the front entry is the
  best one, and among equals the one that entered the book first.
\<close>

locale book_sort = exchange_sort gt for gt :: "nat \<Rightarrow> nat \<Rightarrow> bool"
begin

definition best_of :: "nat list \<Rightarrow> nat \<Rightarrow> bool" where
  "best_of xs r \<longleftrightarrow> r \<in> set xs \<and> (\<forall>q\<in>set xs. \<not> gt r q \<and> (\<not> gt q r \<longrightarrow> r \<le> q))"

lemma best_of_unique: "best_of xs a \<Longrightarrow> best_of xs b \<Longrightarrow> a = b"
  by (metis antisym best_of_def)

lemma head_best_of:
  assumes "xs \<noteq> []" and "sorted_wrt (<) xs"
  shows "hd (sort_outer gt 0 (length xs) xs) = r \<longleftrightarrow> best_of xs r"
proof -
  have "sort_outer gt 0 (length xs) xs \<noteq> []" using assms(1) by (metis length_0_conv length_sort_outer)
  then obtain q where q: "q < length xs" "hd (sort_outer gt 0 (length xs) xs) = xs ! q"
    "\<forall>m<length xs. \<not> gt (xs ! q) (xs ! m)" "\<forall>m<q. gt (xs ! m) (xs ! q)"
    using first_best [OF assms(1)] by (auto simp: hd_conv_nth)
  have "xs ! q \<le> xs ! m" if "m < length xs" "\<not> gt (xs ! m) (xs ! q)" for m
  proof -
    have "q \<le> m" using that q(4) by (meson not_le_imp_less)
    with assms(2) that(1) show ?thesis by (cases "q = m") (auto simp: sorted_wrt_iff_nth_less less_imp_le)
  qed
  with q have "best_of xs (xs ! q)" by (auto simp: best_of_def in_set_conv_nth)
  with q(2) show ?thesis using best_of_unique by metis
qed

end

interpretation asc: book_sort "dearer s" for s
  by unfold_locales (auto simp: dearer_def)

interpretation desc: book_sort "cheaper s" for s
  by unfold_locales (auto simp: cheaper_def)

lemma mset_orderSort [simp]:
  "mset (orderSort s xs) = mset xs" "mset (orderSortReverse s xs) = mset xs"
  by (simp_all add: orderSort_def orderSortReverse_def mset_sort_outer)

lemma set_orderSort [simp]:
  "set (orderSort s xs) = set xs" "set (orderSortReverse s xs) = set xs"
  by (metis mset_orderSort set_mset_mset)+

lemma orderSort_Nil [simp]:
  "orderSort s xs = [] \<longleftrightarrow> xs = []" "orderSortReverse s xs = [] \<longleftrightarrow> xs = []"
  by (metis length_0_conv length_sort_outer orderSort_def orderSortReverse_def)+

end
