(* ===== verification/Ex_Fee.thy ===== *)
theory Ex_Fee
  imports Ex_State
begin

text \<open>
  The transaction fee of \<open>placeBuyOrder\<close> and \<open>placeSellOrder\<close>,
  \<open>roundl(amount * price * 0.01)\<close>: a product in binary64 arithmetic, rounded to the
  nearest integer with halves away from zero. The model computes it with integers, a value
  being a numerator over \<open>2 ^ 59\<close>, the denominator of the binary64 number nearest to 0.01.
  The main lemma is that, within the limits on quantities and prices, the result is the
  one percent of the exact value, rounded half up.
\<close>

section \<open>Rounding to 53 bits\<close>

fun bit_count :: "nat \<Rightarrow> nat" where
  "bit_count n = (if n = 0 then 0 else Suc (bit_count (n div 2)))"

declare bit_count.simps [simp del]

text \<open>The multiple of \<open>2 ^ e\<close> nearest to \<open>n\<close>, the even one of two.\<close>

definition round_even :: "int \<Rightarrow> nat \<Rightarrow> int" where
  "round_even n e =
     (let q = n div 2 ^ e; r = n mod 2 ^ e in
      (if 2 * r < 2 ^ e then q else if 2 * r > 2 ^ e then q + 1 else if even q then q else q + 1) * 2 ^ e)"

definition fl53 :: "int \<Rightarrow> int" where
  "fl53 n = (let b = bit_count (nat n) in if b \<le> 53 then n else round_even n (b - 53))"

text \<open>0.01 is \<open>one_percent / 2 ^ 59\<close> in binary64.\<close>

definition one_percent :: int where
  "one_percent = 5764607523034235"

definition transaction_tax :: "int \<Rightarrow> int" where
  "transaction_tax v = (fl53 (fl53 v * one_percent) + 2 ^ 58) div 2 ^ 59"

section \<open>The fee is one percent, rounded half up\<close>

lemma one_percent_nearest: "100 * one_percent = 2 ^ 59 + 12" "2 ^ 52 \<le> one_percent" "one_percent < 2 ^ 53"
  by (simp_all add: one_percent_def)

lemma bit_count_bound: "n < 2 ^ k \<Longrightarrow> bit_count n \<le> k"
proof (induction k arbitrary: n)
  case 0
  then show ?case by (simp add: bit_count.simps)
next
  case (Suc k)
  then have "bit_count (n div 2) \<le> k" by simp
  then show ?case by (subst bit_count.simps) simp
qed

lemma round_even_bounds:
  "n - 2 ^ e \<le> round_even n e" "round_even n e \<le> n + 2 ^ e"
proof -
  let ?q = "n div 2 ^ e" and ?r = "n mod 2 ^ e"
  have n: "?q * 2 ^ e + ?r = n" by (rule div_mult_mod_eq)
  have r: "0 \<le> ?r" "?r < 2 ^ e" by simp_all
  have "round_even n e = ?q * 2 ^ e \<or> round_even n e = (?q + 1) * 2 ^ e"
    by (simp add: round_even_def Let_def)
  moreover have "(?q + 1) * 2 ^ e = ?q * 2 ^ e + 2 ^ e" by (simp add: algebra_simps)
  ultimately show "n - 2 ^ e \<le> round_even n e" "round_even n e \<le> n + 2 ^ e"
    using n r by linarith+
qed

text \<open>Rounding does not cross a representable number below.\<close>

lemma round_even_mono_representable:
  assumes "2 ^ e dvd m" and "m \<le> n"
  shows "m \<le> round_even n e"
proof -
  obtain k where k: "m = 2 ^ e * k" using assms(1) by (elim dvdE)
  have "k \<le> n div 2 ^ e"
    using assms(2) k zdiv_mono1 [of m n "2 ^ e"] by simp
  then have "m \<le> (n div 2 ^ e) * 2 ^ e" using k by simp
  moreover have "(n div 2 ^ e) * 2 ^ e \<le> round_even n e"
    by (simp add: round_even_def Let_def)
  ultimately show ?thesis by linarith
qed

lemma fl53_small: "0 \<le> v \<Longrightarrow> v < 2 ^ 53 \<Longrightarrow> fl53 v = v"
  using bit_count_bound [of "nat v" 53] by (simp add: fl53_def Let_def nat_less_iff)

lemma fl53_error:
  assumes "0 \<le> n" "n < 2 ^ 93"
  shows "n - 2 ^ 40 \<le> fl53 n" "fl53 n \<le> n + 2 ^ 40"
    and "2 ^ 58 dvd m \<Longrightarrow> m \<le> n \<Longrightarrow> m \<le> fl53 n"
proof -
  let ?e = "bit_count (nat n) - 53"
  have e: "?e \<le> 40" using bit_count_bound [of "nat n" 93] assms by (simp add: nat_less_iff)
  have p: "(2::int) ^ ?e \<le> 2 ^ 40" using e by (rule power_increasing) simp
  show "n - 2 ^ 40 \<le> fl53 n" "fl53 n \<le> n + 2 ^ 40"
    using round_even_bounds [where n = n and e = ?e] p by (auto simp: fl53_def Let_def)
  assume m: "2 ^ 58 dvd m" "m \<le> n"
  have "(2::int) ^ ?e dvd 2 ^ 58" using e by (intro le_imp_power_dvd) simp
  with m have "2 ^ ?e dvd m" using dvd_trans by blast
  with m(2) show "m \<le> fl53 n" by (auto simp: fl53_def Let_def round_even_mono_representable)
qed

lemma transaction_tax_eq:
  assumes "0 \<le> v" "v < 2 ^ 40"
  shows "transaction_tax v = (v + 50) div 100"
proof -
  define k r where "k = v div 100" and "r = v mod 100"
  have v: "v = 100 * k + r" and r: "0 \<le> r" "r < 100" by (auto simp: k_def r_def)
  let ?n = "v * one_percent"
  have n: "100 * ?n = 100 * k * (2 ^ 59 + 12) + r * (2 ^ 59 + 12)"
    using v by (simp add: one_percent_def algebra_simps)
  have n0: "0 \<le> ?n" "?n < 2 ^ 93"
    using assms by (simp_all add: one_percent_def)
  have kb: "0 \<le> k" "k < 2 ^ 40" using assms v r by linarith+
  have fl: "?n - 2 ^ 40 \<le> fl53 ?n" "fl53 ?n \<le> ?n + 2 ^ 40" using fl53_error [OF n0] by simp_all
  have tax: "transaction_tax v = (fl53 ?n + 2 ^ 58) div 2 ^ 59"
    using assms by (simp add: transaction_tax_def fl53_small)
  show ?thesis
  proof (cases "r < 50")
    case True
    then have "r \<le> 49" by simp
    with n r kb fl have "k * 2 ^ 59 \<le> fl53 ?n + 2 ^ 58" "fl53 ?n + 2 ^ 58 < (k + 1) * 2 ^ 59" by simp_all
    then have "(fl53 ?n + 2 ^ 58) div 2 ^ 59 = k" by (intro int_div_pos_eq [of _ _ _ "fl53 ?n + 2 ^ 58 - k * 2 ^ 59"]) (simp_all add: algebra_simps)
    moreover have "(v + 50) div 100 = k" using v r True by simp
    ultimately show ?thesis using tax by simp
  next
    case False
    have low: "(k + 1) * 2 ^ 59 \<le> fl53 ?n + 2 ^ 58"
    proof (cases "r = 50")
      case True
      have "(2 * k + 1) * 2 ^ 58 \<le> ?n" using n True kb by simp
      then have "(2 * k + 1) * 2 ^ 58 \<le> fl53 ?n" using fl53_error(3) [OF n0] by simp
      then show ?thesis by simp
    next
      case r50: False
      with False have "51 \<le> r" by simp
      with n kb fl show ?thesis by simp
    qed
    have "fl53 ?n + 2 ^ 58 < (k + 2) * 2 ^ 59" using n r kb fl by simp
    with low have "(fl53 ?n + 2 ^ 58) div 2 ^ 59 = k + 1"
      by (intro int_div_pos_eq [of _ _ _ "fl53 ?n + 2 ^ 58 - (k + 1) * 2 ^ 59"]) (simp_all add: algebra_simps)
    moreover have "(v + 50) div 100 = k + 1" using v r False by simp
    ultimately show ?thesis using tax by simp
  qed
qed

end
