(* ===== verification/Ex_Market.thy ===== *)
theory Ex_Market
  imports Ex_Sort Ex_Fee
begin

text \<open>
  \<open>pe_market.c\<close>: the order book, the search for the best opposite order, and the two
  functions that match an order. Memory release (\<open>delMarket\<close>) has no counterpart; an
  allocation with \<open>malloc\<close> or \<open>calloc\<close> succeeds, and whether a \<open>realloc\<close> does is an
  argument of the operation that calls it.
\<close>

section \<open>Book keeping\<close>

definition inst_market :: market_struct where
  "inst_market = \<lparr>orderbook = [], orderbook_cap = INITIAL_CAPACITY, completed_trades = [],
     trades_cap = INITIAL_CAPACITY, transaction_fee = 0\<rparr>"

definition marketAddOrder :: "bool \<Rightarrow> oref \<Rightarrow> exchange \<Rightarrow> int \<times> exchange" where
  "marketAddOrder realloc_ok r s =
     (let n = length (orderbook (market s));
          s1 = upd_order r (\<lambda>x. x\<lparr>order_index := int n\<rparr>) s in
      if n \<ge> INITIAL_CAPACITY then
        (if \<not> realloc_ok then (1, s1)
         else (0, upd_market (\<lambda>m. m\<lparr>orderbook := orderbook m @ [r], orderbook_cap := n + 1\<rparr>) s1))
      else (0, upd_market (\<lambda>m. m\<lparr>orderbook := orderbook m @ [r]\<rparr>) s1))"

definition addTrade :: "bool \<Rightarrow> trade_struct \<Rightarrow> exchange \<Rightarrow> int \<times> exchange" where
  "addTrade realloc_ok tr s =
     (let n = length (completed_trades (market s)) in
      if n \<ge> INITIAL_CAPACITY then
        (if \<not> realloc_ok then (1, s)
         else (0, upd_market (\<lambda>m. m\<lparr>completed_trades := completed_trades m @ [tr], trades_cap := n + 2\<rparr>) s))
      else (0, upd_market (\<lambda>m. m\<lparr>completed_trades := completed_trades m @ [tr]\<rparr>) s))"

abbreviation owner_id :: "exchange \<Rightarrow> oref \<Rightarrow> int" where
  "owner_id s r \<equiv> trader_id (traders s ! trader (ord_of s r))"

definition cancelOrder :: "oref option \<Rightarrow> exchange \<Rightarrow> exchange" where
  "cancelOrder optr s =
     (case optr of
        None \<Rightarrow> s
      | Some r \<Rightarrow>
          foldl (\<lambda>s' q. if owner_id s' q = owner_id s' r \<and> order_id (ord_of s' q) = order_id (ord_of s' r)
                       then closeOrder r s' else s') s (orderbook (market s)))"

section \<open>The best opposite order\<close>

definition open_orders :: "exchange \<Rightarrow> order_type \<Rightarrow> string \<Rightarrow> oref list" where
  "open_orders s ty product =
     filter (\<lambda>r. item (ord_of s r) = product \<and> order_type (ord_of s r) = ty \<and> \<not> completed (ord_of s r))
       (orderbook (market s))"

text \<open>
  The loop over the sorted matches: at the first acceptable price the book is searched for
  an open order of the same side with the match's trader and order id.
\<close>

definition rematch :: "exchange \<Rightarrow> order_type \<Rightarrow> oref \<Rightarrow> oref option" where
  "rematch s ty m =
     List.find (\<lambda>r. owner_id s r = owner_id s m \<and> order_id (ord_of s r) = order_id (ord_of s m) \<and>
                    order_type (ord_of s r) = ty \<and> \<not> completed (ord_of s r))
       (orderbook (market s))"

fun scan_matches :: "(oref \<Rightarrow> bool) \<Rightarrow> (oref \<Rightarrow> oref option) \<Rightarrow> oref list \<Rightarrow> oref option" where
  "scan_matches price_ok look [] = None"
| "scan_matches price_ok look (m # ms) =
     (if price_ok m then (case look m of Some r \<Rightarrow> Some r | None \<Rightarrow> scan_matches price_ok look ms)
      else scan_matches price_ok look ms)"

definition getBestBuyOrder :: "exchange \<Rightarrow> string \<Rightarrow> int \<Rightarrow> oref option" where
  "getBestBuyOrder s product sellPrice =
     (let matched = open_orders s BUY product in
      if length matched > 0 then
        scan_matches (\<lambda>m. unit_price (ord_of s m) \<ge> sellPrice) (rematch s BUY) (orderSortReverse s matched)
      else None)"

definition getBestSellOrder :: "exchange \<Rightarrow> string \<Rightarrow> int \<Rightarrow> oref option" where
  "getBestSellOrder s product buyPrice =
     (let matched = open_orders s SELL product in
      if length matched > 0 then
        scan_matches (\<lambda>m. unit_price (ord_of s m) \<le> buyPrice) (rematch s SELL) (orderSort s matched)
      else None)"

section \<open>Matching\<close>

text \<open>
  \<open>trade->tax = t\<close> through the pointer kept in \<open>completed_trades\<close>, \<open>market->transaction_fee += t\<close>,
  and the calls of \<open>buy\<close>, \<open>sell\<close> and \<open>tax\<close> through a pointer to a trader.
\<close>

definition set_trade_tax :: "int \<Rightarrow> exchange \<Rightarrow> exchange" where
  "set_trade_tax t s =
     upd_market (\<lambda>m. m\<lparr>completed_trades := butlast (completed_trades m) @
       [(last (completed_trades m))\<lparr>trade_tax := Some t\<rparr>]\<rparr>) s"

definition add_fee :: "int \<Rightarrow> exchange \<Rightarrow> exchange" where
  "add_fee t s = upd_market (\<lambda>m. m\<lparr>transaction_fee := c_llong (transaction_fee m + t)\<rparr>) s"

definition buy_at :: "tref \<Rightarrow> string \<Rightarrow> int \<Rightarrow> int \<Rightarrow> exchange \<Rightarrow> int \<times> exchange" where
  "buy_at t p q pr s = (let (rc, x) = buy (traders s ! t) p q pr in (rc, upd_trader t (\<lambda>_. x) s))"

definition sell_at :: "tref \<Rightarrow> string \<Rightarrow> int \<Rightarrow> int \<Rightarrow> exchange \<Rightarrow> int \<times> exchange" where
  "sell_at t p q pr s = (let (rc, x) = sell (traders s ! t) p q pr in (rc, upd_trader t (\<lambda>_. x) s))"

definition tax_at :: "tref \<Rightarrow> int \<Rightarrow> string \<Rightarrow> exchange \<Rightarrow> exchange" where
  "tax_at t f p s = upd_trader t (\<lambda>x. tax x f p) s"

definition close_if_filled :: "oref \<Rightarrow> exchange \<Rightarrow> exchange" where
  "close_if_filled r s = (if quantity (ord_of s r) \<le> 0 then closeOrder r s else s)"

text \<open>
  When \<open>addTrade\<close> fails, the trade is not among \<open>completed_trades\<close> and only the pointer that
  is returned has its \<open>tax\<close>; the return code of \<open>addTrade\<close> is not looked at otherwise.
\<close>

text \<open>
  Which trader pays the fee: of the incoming order \<open>a\<close> and the order in the book \<open>b\<close>, the
  owner of the one with the larger \<open>order_index\<close>.
\<close>

definition charge_tax :: "oref \<Rightarrow> oref \<Rightarrow> int \<Rightarrow> exchange \<Rightarrow> exchange" where
  "charge_tax a b t s =
     (if order_index (ord_of s a) > order_index (ord_of s b) then tax_at (trader (ord_of s a)) t (item (ord_of s a)) s
      else if order_index (ord_of s a) < order_index (ord_of s b)
      then tax_at (trader (ord_of s b)) t (item (ord_of s b)) s
      else s)"

definition placeBuyOrder :: "bool \<Rightarrow> oref option \<Rightarrow> exchange \<Rightarrow> trade_struct option \<times> exchange" where
  "placeBuyOrder realloc_ok optr s =
     (case optr of
        None \<Rightarrow> (None, s)
      | Some b \<Rightarrow>
          let bo = ord_of s b in
          if order_type bo = SELL \<or> completed bo then (None, s)
          else case getBestSellOrder s (item bo) (unit_price bo) of
            None \<Rightarrow> (None, s)
          | Some so \<Rightarrow>
              if quantity bo \<le> 0 \<or> quantity (ord_of s so) \<le> 0 then (None, s)
              else
                let sellAmount = (if quantity bo > quantity (ord_of s so) then quantity (ord_of s so) else quantity bo);
                    sellPrice = unit_price (ord_of s so);
                    tr = \<lparr>incoming_order = b, order_in_book = so, transaction_quantity = sellAmount,
                          transaction_price = sellPrice, trade_tax = None\<rparr>;
                    (ra, s1) = addTrade realloc_ok tr s;
                    s2 = adjustAmount so sellAmount s1;
                    s3 = adjustAmount b sellAmount s2;
                    (rb, s4) = buy_at (trader (ord_of s3 b)) (item (ord_of s3 b)) sellAmount sellPrice s3 in
                if rb \<noteq> 0 then (None, s4)
                else
                  let (rs, s5) = sell_at (trader (ord_of s4 so)) (item (ord_of s4 so)) sellAmount sellPrice s4 in
                  if rs \<noteq> 0 then (None, s5)
                  else
                    let t = transaction_tax (sellAmount * sellPrice);
                        s6 = (if ra = 0 then set_trade_tax t s5 else s5);
                        s7 = charge_tax b so t s6;
                        s8 = add_fee t s7;
                        s9 = close_if_filled so s8;
                        s10 = close_if_filled b s9
                    in (Some (tr\<lparr>trade_tax := Some t\<rparr>), s10))"

definition placeSellOrder :: "bool \<Rightarrow> oref option \<Rightarrow> exchange \<Rightarrow> trade_struct option \<times> exchange" where
  "placeSellOrder realloc_ok optr s =
     (case optr of
        None \<Rightarrow> (None, s)
      | Some a \<Rightarrow>
          let ao = ord_of s a in
          if order_type ao = BUY \<or> completed ao then (None, s)
          else case getBestBuyOrder s (item ao) (unit_price ao) of
            None \<Rightarrow> (None, s)
          | Some bo \<Rightarrow>
              if quantity ao \<le> 0 \<or> quantity (ord_of s bo) \<le> 0 then (None, s)
              else
                let buyAmount = (if quantity ao > quantity (ord_of s bo) then quantity (ord_of s bo) else quantity ao);
                    buyPrice = unit_price (ord_of s bo);
                    tr = \<lparr>incoming_order = a, order_in_book = bo, transaction_quantity = buyAmount,
                          transaction_price = buyPrice, trade_tax = None\<rparr>;
                    (ra, s1) = addTrade realloc_ok tr s;
                    s2 = adjustAmount bo buyAmount s1;
                    s3 = adjustAmount a buyAmount s2;
                    (rs, s4) = sell_at (trader (ord_of s3 a)) (item (ord_of s3 a)) buyAmount buyPrice s3 in
                if rs \<noteq> 0 then (None, s4)
                else
                  let (rb, s5) = buy_at (trader (ord_of s4 bo)) (item (ord_of s4 bo)) buyAmount buyPrice s4 in
                  if rb \<noteq> 0 then (None, s5)
                  else
                    let t = transaction_tax (buyAmount * buyPrice);
                        s6 = charge_tax a bo t s5;
                        s7 = add_fee t s6;
                        s8 = (if ra = 0 then set_trade_tax t s7 else s7);
                        s9 = close_if_filled bo s8;
                        s10 = close_if_filled a s9
                    in (Some (tr\<lparr>trade_tax := Some t\<rparr>), s10))"

end
