(* ===== verification/Ex_Book.thy ===== *)
theory Ex_Book
  imports Ex_Market
begin

text \<open>
  Well-formedness of the exchange as a whole, and the search for the best opposite order:
  \<open>getBestSellOrder\<close> and \<open>getBestBuyOrder\<close> against the price-time priority that
  \<open>best_sell\<close> and \<open>best_buy\<close> specify.
\<close>

section \<open>Well-formed exchanges\<close>

text \<open>
  The store holds the orders in the order they entered the book, each with its position as
  \<open>order_index\<close>; every order belongs to a trader and trades a product of the exchange, within
  the limits, and an open order has something left to trade. Every trader has one account
  per product and knows an order of the id of each of its orders. Every array has room for what it holds.
\<close>

definition wf_order :: "string list \<Rightarrow> exchange \<Rightarrow> oref \<Rightarrow> bool" where
  "wf_order ps s r \<longleftrightarrow>
     order_index (ord_of s r) = int r \<and> trader (ord_of s r) < length (traders s) \<and>
     item (ord_of s r) \<in> set ps \<and>
     0 \<le> quantity (ord_of s r) \<and> quantity (ord_of s r) \<le> MAX_QUANTITY \<and>
     1 \<le> unit_price (ord_of s r) \<and> unit_price (ord_of s r) \<le> MAX_UNIT_PRICE \<and>
     (\<not> completed (ord_of s r) \<longrightarrow> 0 < quantity (ord_of s r)) \<and> c_int (order_id (ord_of s r)) = order_id (ord_of s r)"

definition wf_trader :: "string list \<Rightarrow> exchange \<Rightarrow> tref \<Rightarrow> bool" where
  "wf_trader ps s t \<longleftrightarrow>
     trader_id (traders s ! t) = int t \<and> inventory_products (traders s ! t) = ps \<and> wf_account (traders s ! t) \<and>
     length (orders (traders s ! t)) \<le> orders_cap (traders s ! t) \<and> INITIAL_CAPACITY \<le> orders_cap (traders s ! t) \<and>
     (\<forall>r\<in>set (orders (traders s ! t)). r < length (store s) \<and> trader (ord_of s r) = t)"

definition wf_market :: "exchange \<Rightarrow> bool" where
  "wf_market s \<longleftrightarrow>
     orderbook (market s) = [0..<length (store s)] \<and>
     length (orderbook (market s)) \<le> orderbook_cap (market s) \<and> INITIAL_CAPACITY \<le> orderbook_cap (market s) \<and>
     length (completed_trades (market s)) \<le> trades_cap (market s) \<and> INITIAL_CAPACITY \<le> trades_cap (market s)"

definition registered :: "exchange \<Rightarrow> oref \<Rightarrow> bool" where
  "registered s r \<longleftrightarrow> (\<exists>q\<in>set (orders (traders s ! trader (ord_of s r))). order_id (ord_of s q) = order_id (ord_of s r))"

definition wf_exchange :: "string list \<Rightarrow> exchange \<Rightarrow> bool" where
  "wf_exchange ps s \<longleftrightarrow> distinct ps \<and> wf_market s \<and> (\<forall>r<length (store s). wf_order ps s r \<and> registered s r) \<and>
     (\<forall>t<length (traders s). wf_trader ps s t)"

text \<open>An open order is identified by its trader, its order id and its side.\<close>

definition uniq_open :: "exchange \<Rightarrow> bool" where
  "uniq_open s \<longleftrightarrow>
     (\<forall>a b. a \<in> set (orderbook (market s)) \<and> b \<in> set (orderbook (market s)) \<and>
        \<not> completed (ord_of s a) \<and> \<not> completed (ord_of s b) \<and> owner_id s a = owner_id s b \<and>
        order_id (ord_of s a) = order_id (ord_of s b) \<and> order_type (ord_of s a) = order_type (ord_of s b) \<longrightarrow> a = b)"

lemma wf_book: "wf_exchange ps s \<Longrightarrow> orderbook (market s) = [0..<length (store s)]"
  by (simp add: wf_exchange_def wf_market_def)

section \<open>The search for the best order\<close>

lemma find_Some_prop: "List.find P xs = Some x \<Longrightarrow> x \<in> set xs \<and> P x"
  by (induction xs) (auto split: if_splits)

lemma find_exists: "x \<in> set xs \<Longrightarrow> P x \<Longrightarrow> \<exists>y. List.find P xs = Some y"
  by (induction xs) auto

lemma scan_matches_find:
  "\<forall>m\<in>set ms. \<exists>r. look m = Some r \<Longrightarrow>
     scan_matches ok look ms = (case List.find ok ms of None \<Rightarrow> None | Some m \<Rightarrow> look m)"
  by (induction ms) auto

lemma rematch_member:
  assumes "m \<in> set (open_orders s ty p)"
  shows "\<exists>r. rematch s ty m = Some r"
  using assms find_exists [of m "orderbook (market s)"] by (auto simp: open_orders_def rematch_def)

lemma rematch_Some:
  "rematch s ty m = Some r \<Longrightarrow> r \<in> set (orderbook (market s)) \<and> order_type (ord_of s r) = ty \<and>
     \<not> completed (ord_of s r) \<and> owner_id s r = owner_id s m \<and> order_id (ord_of s r) = order_id (ord_of s m)"
  by (auto simp: rematch_def dest!: find_Some_prop)

lemma rematch_uniq:
  assumes "uniq_open s" and "m \<in> set (open_orders s ty p)"
  shows "rematch s ty m = Some m"
proof -
  obtain r where r: "rematch s ty m = Some r" using rematch_member [OF assms(2)] by blast
  with rematch_Some [OF r] assms have "r = m"
    unfolding uniq_open_def by (auto simp: open_orders_def)
  with r show ?thesis by simp
qed

text \<open>Both searches, for a comparison \<open>worse\<close> that the sort used puts last.\<close>

lemma find_sorted:
  assumes "xs \<noteq> []" and "\<And>m. m \<in> set xs \<Longrightarrow> ok m \<Longrightarrow> ok (hd xs)"
  shows "List.find ok xs = (if ok (hd xs) then Some (hd xs) else None)"
  using assms by (cases xs) (auto simp: find_None_iff)

definition best_sell :: "exchange \<Rightarrow> string \<Rightarrow> int \<Rightarrow> oref \<Rightarrow> bool" where
  "best_sell s p price r \<longleftrightarrow> r \<in> set (open_orders s SELL p) \<and> unit_price (ord_of s r) \<le> price \<and>
     (\<forall>q\<in>set (open_orders s SELL p). unit_price (ord_of s r) < unit_price (ord_of s q) \<or>
        unit_price (ord_of s r) = unit_price (ord_of s q) \<and> order_index (ord_of s r) \<le> order_index (ord_of s q))"

definition best_buy :: "exchange \<Rightarrow> string \<Rightarrow> int \<Rightarrow> oref \<Rightarrow> bool" where
  "best_buy s p price r \<longleftrightarrow> r \<in> set (open_orders s BUY p) \<and> unit_price (ord_of s r) \<ge> price \<and>
     (\<forall>q\<in>set (open_orders s BUY p). unit_price (ord_of s r) > unit_price (ord_of s q) \<or>
        unit_price (ord_of s r) = unit_price (ord_of s q) \<and> order_index (ord_of s r) \<le> order_index (ord_of s q))"

lemma open_orders_index:
  assumes "wf_exchange ps s"
  shows "sorted_wrt (<) (open_orders s ty p)"
    and "r \<in> set (open_orders s ty p) \<Longrightarrow> order_index (ord_of s r) = int r \<and> r < length (store s)"
proof -
  show "sorted_wrt (<) (open_orders s ty p)"
    unfolding open_orders_def wf_book [OF assms] by (intro sorted_wrt_filter) (simp add: sorted_wrt_upt)
  assume "r \<in> set (open_orders s ty p)"
  then have "r < length (store s)" by (simp add: open_orders_def wf_book [OF assms])
  with assms show "order_index (ord_of s r) = int r \<and> r < length (store s)"
    by (simp add: wf_exchange_def wf_order_def)
qed

lemma head_best:
  assumes "wf_exchange ps s" and "open_orders s ty p \<noteq> []"
  shows "asc.best_of s (open_orders s ty p) (hd (orderSort s (open_orders s ty p)))"
    and "desc.best_of s (open_orders s ty p) (hd (orderSortReverse s (open_orders s ty p)))"
  using asc.head_best_of [OF assms(2) open_orders_index(1) [OF assms(1)], THEN iffD1, OF refl]
    desc.head_best_of [OF assms(2) open_orders_index(1) [OF assms(1)], THEN iffD1, OF refl]
  by (simp_all add: orderSort_def orderSortReverse_def)

lemma best_sell_of:
  assumes "wf_exchange ps s"
  shows "best_sell s p price r \<longleftrightarrow> asc.best_of s (open_orders s SELL p) r \<and> unit_price (ord_of s r) \<le> price"
proof -
  have "(unit_price (ord_of s r) < unit_price (ord_of s q) \<or>
      unit_price (ord_of s r) = unit_price (ord_of s q) \<and> order_index (ord_of s r) \<le> order_index (ord_of s q)) \<longleftrightarrow>
      \<not> dearer s r q \<and> (\<not> dearer s q r \<longrightarrow> r \<le> q)"
    if "r \<in> set (open_orders s SELL p)" "q \<in> set (open_orders s SELL p)" for q
    using that [THEN open_orders_index(2) [OF assms]] by (auto simp: dearer_def)
  then show ?thesis unfolding best_sell_def asc.best_of_def by blast
qed

lemma best_buy_of:
  assumes "wf_exchange ps s"
  shows "best_buy s p price r \<longleftrightarrow> desc.best_of s (open_orders s BUY p) r \<and> price \<le> unit_price (ord_of s r)"
proof -
  have "(unit_price (ord_of s r) > unit_price (ord_of s q) \<or>
      unit_price (ord_of s r) = unit_price (ord_of s q) \<and> order_index (ord_of s r) \<le> order_index (ord_of s q)) \<longleftrightarrow>
      \<not> cheaper s r q \<and> (\<not> cheaper s q r \<longrightarrow> r \<le> q)"
    if "r \<in> set (open_orders s BUY p)" "q \<in> set (open_orders s BUY p)" for q
    using that [THEN open_orders_index(2) [OF assms]] by (auto simp: cheaper_def)
  then show ?thesis unfolding best_buy_def desc.best_of_def by blast
qed

text \<open>
  The search returns what the second look into the book finds for the front of the sorted
  matches: the same order where open orders are identified by trader, id and side.
\<close>

lemma getBestSell_head:
  assumes "wf_exchange ps s"
  shows "getBestSellOrder s p price =
    (let m = hd (orderSort s (open_orders s SELL p)) in
     if open_orders s SELL p \<noteq> [] \<and> unit_price (ord_of s m) \<le> price then rematch s SELL m else None)"
proof (cases "open_orders s SELL p = []")
  case True
  then show ?thesis by (simp add: getBestSellOrder_def)
next
  case False
  let ?xs = "open_orders s SELL p" and ?ys = "orderSort s (open_orders s SELL p)"
  have low: "\<forall>q\<in>set ?xs. unit_price (ord_of s (hd ?ys)) \<le> unit_price (ord_of s q)"
    using head_best(1) [OF assms False] by (simp add: asc.best_of_def dearer_def not_less)
  have "List.find (\<lambda>m. unit_price (ord_of s m) \<le> price) ?ys =
      (if unit_price (ord_of s (hd ?ys)) \<le> price then Some (hd ?ys) else None)"
    using False low by (intro find_sorted) (simp, metis order_trans set_orderSort(1))
  with False show ?thesis
    by (simp add: getBestSellOrder_def Let_def scan_matches_find rematch_member)
qed

lemma getBestBuy_head:
  assumes "wf_exchange ps s"
  shows "getBestBuyOrder s p price =
    (let m = hd (orderSortReverse s (open_orders s BUY p)) in
     if open_orders s BUY p \<noteq> [] \<and> price \<le> unit_price (ord_of s m) then rematch s BUY m else None)"
proof (cases "open_orders s BUY p = []")
  case True
  then show ?thesis by (simp add: getBestBuyOrder_def)
next
  case False
  let ?xs = "open_orders s BUY p" and ?ys = "orderSortReverse s (open_orders s BUY p)"
  have high: "\<forall>q\<in>set ?xs. unit_price (ord_of s q) \<le> unit_price (ord_of s (hd ?ys))"
    using head_best(2) [OF assms False] by (simp add: desc.best_of_def cheaper_def not_less)
  have "List.find (\<lambda>m. price \<le> unit_price (ord_of s m)) ?ys =
      (if price \<le> unit_price (ord_of s (hd ?ys)) then Some (hd ?ys) else None)"
    using False high by (intro find_sorted) (simp, metis order_trans set_orderSort(2))
  with False show ?thesis
    by (simp add: getBestBuyOrder_def Let_def scan_matches_find rematch_member)
qed

lemma getBestSell_uniq:
  assumes wf: "wf_exchange ps s" and uq: "uniq_open s"
  shows "getBestSellOrder s p price = Some r \<longleftrightarrow> best_sell s p price r"
proof (cases "open_orders s SELL p = []")
  case True
  then show ?thesis by (simp add: getBestSellOrder_def best_sell_def)
next
  case False
  note b = head_best(1) [OF wf False]
  then have "rematch s SELL (hd (orderSort s (open_orders s SELL p))) = Some (hd (orderSort s (open_orders s SELL p)))"
    using rematch_uniq [OF uq] unfolding asc.best_of_def by blast
  with False b asc.best_of_unique [OF b, of r] show ?thesis
    by (auto simp: getBestSell_head [OF wf] best_sell_of [OF wf] Let_def)
qed

lemma getBestBuy_uniq:
  assumes wf: "wf_exchange ps s" and uq: "uniq_open s"
  shows "getBestBuyOrder s p price = Some r \<longleftrightarrow> best_buy s p price r"
proof (cases "open_orders s BUY p = []")
  case True
  then show ?thesis by (simp add: getBestBuyOrder_def best_buy_def)
next
  case False
  note b = head_best(2) [OF wf False]
  then have "rematch s BUY (hd (orderSortReverse s (open_orders s BUY p))) = Some (hd (orderSortReverse s (open_orders s BUY p)))"
    using rematch_uniq [OF uq] unfolding desc.best_of_def by blast
  with False b desc.best_of_unique [OF b, of r] show ?thesis
    by (auto simp: getBestBuy_head [OF wf] best_buy_of [OF wf] Let_def)
qed

text \<open>Whatever the order ids, the result is an open order of the side asked for.\<close>

lemma getBest_open:
  assumes wf: "wf_exchange ps s"
  shows "getBestSellOrder s p price = Some r \<Longrightarrow> r < length (store s) \<and> order_type (ord_of s r) = SELL \<and> \<not> completed (ord_of s r)"
    and "getBestBuyOrder s p price = Some r \<Longrightarrow> r < length (store s) \<and> order_type (ord_of s r) = BUY \<and> \<not> completed (ord_of s r)"
  using rematch_Some [of s _ _ r] wf_book [OF wf]
  by (auto simp: getBestSell_head [OF wf] getBestBuy_head [OF wf] Let_def split: if_splits)

end
