(* ===== verification/Ex_Match.thy ===== *)
theory Ex_Match
  imports Ex_Book
begin

text \<open>
  What a match does. \<open>execute\<close> states the effect of a match between an incoming order and an
  order in the book in one piece; \<open>placeBuyOrder\<close> and \<open>placeSellOrder\<close> refine it, with the
  settlement operations in their order. Conservation of cash and stock and the invariant are
  proved once, on \<open>execute\<close>.
\<close>

section \<open>One match\<close>

type_synonym settle_op = "trader_struct \<Rightarrow> string \<Rightarrow> int \<Rightarrow> int \<Rightarrow> int \<times> trader_struct"

definition fill :: "int \<Rightarrow> order_struct \<Rightarrow> order_struct" where
  "fill q x = x\<lparr>quantity := quantity x - q, completed := completed x \<or> quantity x - q \<le> 0\<rparr>"

definition match_quantity :: "exchange \<Rightarrow> oref \<Rightarrow> oref \<Rightarrow> int" where
  "match_quantity s a b = min (quantity (ord_of s a)) (quantity (ord_of s b))"

definition match_value :: "exchange \<Rightarrow> oref \<Rightarrow> oref \<Rightarrow> int" where
  "match_value s a b = match_quantity s a b * unit_price (ord_of s b)"

definition match_trade :: "exchange \<Rightarrow> oref \<Rightarrow> oref \<Rightarrow> trade_struct" where
  "match_trade s a b =
     \<lparr>incoming_order = a, order_in_book = b, transaction_quantity = match_quantity s a b,
      transaction_price = unit_price (ord_of s b), trade_tax = Some (transaction_tax (match_value s a b))\<rparr>"

definition payer :: "exchange \<Rightarrow> oref \<Rightarrow> oref \<Rightarrow> order_struct" where
  "payer s a b = (if order_index (ord_of s a) > order_index (ord_of s b) then ord_of s a else ord_of s b)"

definition settle :: "settle_op \<Rightarrow> settle_op \<Rightarrow> oref \<Rightarrow> oref \<Rightarrow> exchange \<Rightarrow> trader_struct list" where
  "settle op1 op2 a b s =
     (let q = match_quantity s a b; pr = unit_price (ord_of s b);
          ta = trader (ord_of s a); tb = trader (ord_of s b); tp = trader (payer s a b);
          ts = traders s;
          ts1 = ts[ta := snd (op1 (ts ! ta) (item (ord_of s a)) q pr)];
          ts2 = ts1[tb := snd (op2 (ts1 ! tb) (item (ord_of s b)) q pr)]
      in ts2[tp := tax (ts2 ! tp) (transaction_tax (match_value s a b)) (item (payer s a b))])"

definition execute :: "settle_op \<Rightarrow> settle_op \<Rightarrow> oref \<Rightarrow> oref \<Rightarrow> exchange \<Rightarrow> exchange" where
  "execute op1 op2 a b s =
     (let q = match_quantity s a b; m = market s; n = length (completed_trades m) in
      s\<lparr>store := (store s)[a := fill q (ord_of s a), b := fill q (ord_of s b)],
        traders := settle op1 op2 a b s,
        market := m\<lparr>completed_trades := completed_trades m @ [match_trade s a b],
                    trades_cap := (if n \<ge> INITIAL_CAPACITY then n + 2 else trades_cap m),
                    transaction_fee := c_llong (transaction_fee m + transaction_tax (match_value s a b))\<rparr>\<rparr>)"

section \<open>The settlement operations\<close>

text \<open>They change the positions of a trader and nothing else.\<close>

definition repositioned :: "trader_struct \<Rightarrow> trader_struct \<Rightarrow> bool" where
  "repositioned t t' \<longleftrightarrow> (\<exists>iq bk. t' = t\<lparr>inventory_quantity := iq, bank := bk\<rparr> \<and>
     length iq = length (inventory_quantity t) \<and> length bk = length (bank t))"

lemma repositionedI:
  "length iq = length (inventory_quantity t) \<Longrightarrow> length bk = length (bank t) \<Longrightarrow>
     repositioned t (t\<lparr>inventory_quantity := iq, bank := bk\<rparr>)"
  by (auto simp: repositioned_def)

lemma repositioned_refl: "repositioned t t"
  unfolding repositioned_def by (intro exI [of _ "inventory_quantity t"] exI [of _ "bank t"]) simp

lemma repositioned_trans:
  assumes "repositioned t u" and "repositioned u v"
  shows "repositioned t v"
proof -
  obtain iq bk where u: "u = t\<lparr>inventory_quantity := iq, bank := bk\<rparr>"
    "length iq = length (inventory_quantity t)" "length bk = length (bank t)"
    using assms(1) by (auto simp: repositioned_def)
  obtain iq' bk' where v: "v = u\<lparr>inventory_quantity := iq', bank := bk'\<rparr>"
    "length iq' = length (inventory_quantity u)" "length bk' = length (bank u)"
    using assms(2) by (auto simp: repositioned_def)
  have "v = t\<lparr>inventory_quantity := iq', bank := bk'\<rparr>" using u v by simp
  with u v show ?thesis by (simp add: repositionedI)
qed

lemma repositioned_sel:
  assumes "repositioned t t'"
  shows "trader_id t' = trader_id t" "inventory_products t' = inventory_products t" "orders t' = orders t"
    "orders_cap t' = orders_cap t" "wf_account t' = wf_account t" "disconnected t' = disconnected t"
    "trader_pid t' = trader_pid t" "fd_w t' = fd_w t" "fd_r t' = fd_r t" "holds p t' = holds p t"
  using assms by (auto simp: repositioned_def wf_account_def holds_def)

lemma buy_sell_repositioned:
  "repositioned t (snd (buy t p q pr))" "repositioned t (snd (sell t p q pr))"
  by (auto simp: buy_def sell_def repositioned_refl intro!: repositionedI split: option.split)

lemma tax_loop_repositioned: "repositioned t (tax_loop i n t a p)"
proof (induction n arbitrary: i t)
  case 0
  then show ?case by (simp add: repositioned_refl)
next
  case (Suc n)
  let ?t = "if inventory_products t ! i = p then t\<lparr>bank := (bank t)[i := c_llong (bank t ! i - a)]\<rparr> else t"
  have "repositioned t ?t"
    using repositionedI [of "inventory_quantity t" t "(bank t)[i := c_llong (bank t ! i - a)]"]
    by (simp add: repositioned_refl)
  from repositioned_trans [OF this Suc [of ?t "Suc i"]] show ?case by simp
qed

lemma tax_repositioned: "repositioned t (tax t a p)"
  by (simp add: tax_def tax_loop_repositioned)

text \<open>A settlement with operations of that kind repositions traders, one by one.\<close>

lemma update_repositioned:
  assumes "length ts = length us" "\<forall>i<length us. repositioned (us ! i) (ts ! i)"
    and "j < length us \<Longrightarrow> repositioned (ts ! j) x"
  shows "\<forall>i<length us. repositioned (us ! i) (ts[j := x] ! i)"
proof (intro allI impI)
  fix i assume "i < length us"
  with assms show "repositioned (us ! i) (ts[j := x] ! i)"
    by (cases "i = j") (auto intro: repositioned_trans)
qed

lemma settle_repositioned:
  assumes "\<And>t p q pr. repositioned t (snd (op1 t p q pr))" "\<And>t p q pr. repositioned t (snd (op2 t p q pr))"
  shows "length (settle op1 op2 a b s) = length (traders s)"
    and "i < length (traders s) \<Longrightarrow> repositioned (traders s ! i) (settle op1 op2 a b s ! i)"
proof -
  show "length (settle op1 op2 a b s) = length (traders s)" by (simp add: settle_def Let_def)
  have "\<forall>i<length (traders s). repositioned (traders s ! i) (settle op1 op2 a b s ! i)"
    unfolding settle_def Let_def
    by (intro update_repositioned) (simp_all add: assms tax_repositioned repositioned_refl)
  then show "i < length (traders s) \<Longrightarrow> repositioned (traders s ! i) (settle op1 op2 a b s ! i)" by simp
qed

section \<open>The operations refine a match\<close>

lemma wf_orderD:
  assumes "wf_exchange ps s" and "r < length (store s)"
  shows "order_index (ord_of s r) = int r" "trader (ord_of s r) < length (traders s)"
    "item (ord_of s r) \<in> set ps" "0 \<le> quantity (ord_of s r)" "quantity (ord_of s r) \<le> MAX_QUANTITY"
    "1 \<le> unit_price (ord_of s r)" "unit_price (ord_of s r) \<le> MAX_UNIT_PRICE"
    "\<not> completed (ord_of s r) \<Longrightarrow> 0 < quantity (ord_of s r)"
  using assms by (simp_all add: wf_exchange_def wf_order_def)

lemma wf_order_id: "wf_exchange ps s \<Longrightarrow> r < length (store s) \<Longrightarrow> c_int (order_id (ord_of s r)) = order_id (ord_of s r)"
  by (simp add: wf_exchange_def wf_order_def)

lemma wf_traderD:
  assumes "wf_exchange ps s" and "t < length (traders s)"
  shows "trader_id (traders s ! t) = int t" "inventory_products (traders s ! t) = ps"
    "wf_account (traders s ! t)" "p \<in> set ps \<Longrightarrow> holds p (traders s ! t)"
  using assms by (simp_all add: wf_exchange_def wf_trader_def holds_def)

lemma holds_rc: "holds p t \<Longrightarrow> fst (buy t p q pr) = 0" "holds p t \<Longrightarrow> fst (sell t p q pr) = 0"
  using cash.buy_law [of p t q pr] cash.sell_law [of p t q pr] by auto

lemma addTrade_True:
  "addTrade True tr s = (0, upd_market (\<lambda>m. m\<lparr>completed_trades := completed_trades m @ [tr],
     trades_cap := (if length (completed_trades m) \<ge> INITIAL_CAPACITY then length (completed_trades m) + 2 else trades_cap m)\<rparr>) s)"
  by (simp add: addTrade_def Let_def upd_market_def)

lemma close_if_filled_sel:
  "traders (close_if_filled r s) = traders s" "market (close_if_filled r s) = market s"
  "length (store (close_if_filled r s)) = length (store s)"
  "r < length (store s) \<Longrightarrow> ord_of (close_if_filled r s) q =
     (if q = r then (ord_of s r)\<lparr>completed := completed (ord_of s r) \<or> quantity (ord_of s r) \<le> 0\<rparr> else ord_of s q)"
  by (simp_all add: close_if_filled_def closeOrder_def)

lemma charge_tax_sel:
  "store (charge_tax a b t s) = store s" "market (charge_tax a b t s) = market s"
  "order_index (ord_of s a) \<noteq> order_index (ord_of s b) \<Longrightarrow>
     traders (charge_tax a b t s) =
       (traders s)[trader (payer s a b) := tax (traders s ! trader (payer s a b)) t (item (payer s a b))]"
  by (simp_all add: charge_tax_def tax_at_def payer_def upd_trader_def)

lemma fee_sel:
  "store (add_fee t s) = store s" "traders (add_fee t s) = traders s"
  "store (set_trade_tax t s) = store s" "traders (set_trade_tax t s) = traders s"
  "market (add_fee t s) = (market s)\<lparr>transaction_fee := c_llong (transaction_fee (market s) + t)\<rparr>"
  "market (set_trade_tax t s) = (market s)\<lparr>completed_trades := butlast (completed_trades (market s)) @
       [(last (completed_trades (market s)))\<lparr>trade_tax := Some t\<rparr>]\<rparr>"
  by (simp_all add: add_fee_def set_trade_tax_def)

lemmas place_sel = close_if_filled_sel charge_tax_sel fee_sel ord_adjustAmount

text \<open>The steps after the two settlement calls, in the order of either function.\<close>

lemma traders_upd: "traders (upd_trader t f s) = (traders s)[t := f (traders s ! t)]"
  by (simp add: upd_trader_def)

lemma execute_chain:
  fixes s op1 op2 a b
  defines "q \<equiv> match_quantity s a b" and "t \<equiv> transaction_tax (match_quantity s a b * unit_price (ord_of s b))"
    and "ta \<equiv> trader (ord_of s a)" and "tb \<equiv> trader (ord_of s b)"
  defines "x \<equiv> snd (op1 (traders s ! ta) (item (ord_of s a)) q (unit_price (ord_of s b)))"
  defines "y \<equiv> snd (op2 ((traders s)[ta := x] ! tb) (item (ord_of s b)) q (unit_price (ord_of s b)))"
  defines "s5 \<equiv> upd_trader tb (\<lambda>_. y) (upd_trader ta (\<lambda>_. x) (adjustAmount a q (adjustAmount b q
     (upd_market (\<lambda>m. m\<lparr>completed_trades := completed_trades m @
         [\<lparr>incoming_order = a, order_in_book = b, transaction_quantity = q, transaction_price = unit_price (ord_of s b), trade_tax = None\<rparr>],
       trades_cap := (if length (completed_trades m) \<ge> INITIAL_CAPACITY then length (completed_trades m) + 2 else trades_cap m)\<rparr>) s))))"
  assumes ab: "a < length (store s)" "b < length (store s)" "a \<noteq> b"
    and "order_index (ord_of s a) \<noteq> order_index (ord_of s b)"
  shows "close_if_filled a (close_if_filled b (add_fee t (charge_tax a b t (set_trade_tax t s5)))) = execute op1 op2 a b s" (is "?l = _")
    and "close_if_filled a (close_if_filled b (set_trade_tax t (add_fee t (charge_tax a b t s5)))) = execute op1 op2 a b s" (is "?l' = _")
proof -
  have o5: "ord_of s5 r = (if r = a then (ord_of s a)\<lparr>quantity := quantity (ord_of s a) - q\<rparr>
      else if r = b then (ord_of s b)\<lparr>quantity := quantity (ord_of s b) - q\<rparr> else ord_of s r)" for r
    using ab by (simp add: s5_def ord_adjustAmount)
  have l5: "length (store s5) = length (store s)" by (simp add: s5_def)
  have st: "store ?l = store (execute op1 op2 a b s)" "store ?l' = store (execute op1 op2 a b s)"
    using ab by (auto intro!: nth_equalityI simp: place_sel l5 o5 execute_def Let_def fill_def nth_list_update q_def)
  have p5: "trader (payer s5 a b) = trader (payer s a b)" "item (payer s5 a b) = item (payer s a b)"
    using ab by (simp_all add: payer_def o5)
  have p6: "payer (set_trade_tax t' s5) a b = payer s5 a b" for t' by (simp add: payer_def fee_sel)
  have i5: "order_index (ord_of s5 a) \<noteq> order_index (ord_of s5 b)" using assms(11) ab by (simp add: o5)
  have t5: "traders s5 = (traders s)[ta := x, tb := y]" by (simp add: s5_def traders_upd)
  have tr: "traders ?l = traders (execute op1 op2 a b s)" "traders ?l' = traders (execute op1 op2 a b s)"
    using i5 by (simp_all add: place_sel t5 p5 p6 execute_def Let_def settle_def x_def y_def ta_def tb_def q_def t_def match_value_def)
  have mk: "market ?l = market (execute op1 op2 a b s)" "market ?l' = market (execute op1 op2 a b s)"
    by (simp_all add: place_sel s5_def execute_def Let_def match_trade_def match_value_def t_def q_def)
  show "?l = execute op1 op2 a b s" "?l' = execute op1 op2 a b s"
    using st tr mk by (simp_all add: exchange.equality)
qed

lemma placeBuy_step:
  assumes "a < length (store s)" "b < length (store s)" "a \<noteq> b"
    and "order_index (ord_of s a) \<noteq> order_index (ord_of s b)"
    and "order_type (ord_of s a) = BUY" "\<not> completed (ord_of s a)"
    and "0 < quantity (ord_of s a)" "0 < quantity (ord_of s b)"
    and "getBestSellOrder s (item (ord_of s a)) (unit_price (ord_of s a)) = Some b"
    and ts: "trader (ord_of s a) < length (traders s)" "trader (ord_of s b) < length (traders s)"
    and h: "holds (item (ord_of s a)) (traders s ! trader (ord_of s a))"
      "holds (item (ord_of s b)) (traders s ! trader (ord_of s b))"
  shows "placeBuyOrder True (Some a) s = (Some (match_trade s a b), execute buy sell a b s)"
proof -
  let ?q = "match_quantity s a b" and ?pr = "unit_price (ord_of s b)"
  have q: "(if quantity (ord_of s a) > quantity (ord_of s b) then quantity (ord_of s b) else quantity (ord_of s a)) = ?q"
    by (simp add: match_quantity_def)
  define x where "x = snd (buy (traders s ! trader (ord_of s a)) (item (ord_of s a)) ?q ?pr)"
  have r1: "buy (traders s ! trader (ord_of s a)) (item (ord_of s a)) ?q ?pr = (0, x)"
    using holds_rc(1) [OF h(1)] by (metis x_def prod.collapse)
  define ts1 where "ts1 = (traders s)[trader (ord_of s a) := x]"
  have "holds (item (ord_of s b)) (ts1 ! trader (ord_of s b))"
    using ts h repositioned_sel(10) [OF buy_sell_repositioned(1)] by (auto simp: ts1_def x_def nth_list_update)
  note rc2 = holds_rc(2) [OF this, of ?q ?pr]
  define y where "y = snd (sell (ts1 ! trader (ord_of s b)) (item (ord_of s b)) ?q ?pr)"
  have r2: "sell (ts1 ! trader (ord_of s b)) (item (ord_of s b)) ?q ?pr = (0, y)"
    using rc2 by (metis y_def prod.collapse)
  note ch = execute_chain(1) [OF assms(1-4), where ?op1.0 = buy and ?op2.0 = sell, folded x_def, folded ts1_def, folded y_def]
  show ?thesis
    using assms(1-3,5-9) r1 r2
    by (simp add: placeBuyOrder_def q Let_def addTrade_True buy_at_def sell_at_def ord_adjustAmount not_le traders_upd
        match_trade_def match_value_def ch del: upd_trader_sel(4) flip: ts1_def)
qed

lemma placeSell_step:
  assumes "a < length (store s)" "b < length (store s)" "a \<noteq> b"
    and "order_index (ord_of s a) \<noteq> order_index (ord_of s b)"
    and "order_type (ord_of s a) = SELL" "\<not> completed (ord_of s a)"
    and "0 < quantity (ord_of s a)" "0 < quantity (ord_of s b)"
    and "getBestBuyOrder s (item (ord_of s a)) (unit_price (ord_of s a)) = Some b"
    and ts: "trader (ord_of s a) < length (traders s)" "trader (ord_of s b) < length (traders s)"
    and h: "holds (item (ord_of s a)) (traders s ! trader (ord_of s a))"
      "holds (item (ord_of s b)) (traders s ! trader (ord_of s b))"
  shows "placeSellOrder True (Some a) s = (Some (match_trade s a b), execute sell buy a b s)"
proof -
  let ?q = "match_quantity s a b" and ?pr = "unit_price (ord_of s b)"
  have q: "(if quantity (ord_of s a) > quantity (ord_of s b) then quantity (ord_of s b) else quantity (ord_of s a)) = ?q"
    by (simp add: match_quantity_def)
  define x where "x = snd (sell (traders s ! trader (ord_of s a)) (item (ord_of s a)) ?q ?pr)"
  have r1: "sell (traders s ! trader (ord_of s a)) (item (ord_of s a)) ?q ?pr = (0, x)"
    using holds_rc(2) [OF h(1)] by (metis x_def prod.collapse)
  define ts1 where "ts1 = (traders s)[trader (ord_of s a) := x]"
  have "holds (item (ord_of s b)) (ts1 ! trader (ord_of s b))"
    using ts h repositioned_sel(10) [OF buy_sell_repositioned(2)] by (auto simp: ts1_def x_def nth_list_update)
  note rc2 = holds_rc(1) [OF this, of ?q ?pr]
  define y where "y = snd (buy (ts1 ! trader (ord_of s b)) (item (ord_of s b)) ?q ?pr)"
  have r2: "buy (ts1 ! trader (ord_of s b)) (item (ord_of s b)) ?q ?pr = (0, y)"
    using rc2 by (metis y_def prod.collapse)
  note ch = execute_chain(2) [OF assms(1-4), where ?op1.0 = sell and ?op2.0 = buy, folded x_def, folded ts1_def, folded y_def]
  show ?thesis
    using assms(1-3,5-9) r1 r2
    by (simp add: placeSellOrder_def q Let_def addTrade_True buy_at_def sell_at_def ord_adjustAmount not_le traders_upd
        match_trade_def match_value_def ch del: upd_trader_sel(4) flip: ts1_def)
qed

section \<open>A match under the invariant\<close>

text \<open>
  The handlers of \<open>pe_exchange.c\<close> call \<open>placeBuyOrder\<close> or \<open>placeSellOrder\<close> by the side of
  the order.
\<close>

definition place :: "bool \<Rightarrow> oref \<Rightarrow> exchange \<Rightarrow> trade_struct option \<times> exchange" where
  "place realloc_ok a s =
     (case order_type (ord_of s a) of
        BUY \<Rightarrow> placeBuyOrder realloc_ok (Some a) s
      | SELL \<Rightarrow> placeSellOrder realloc_ok (Some a) s)"

definition opposite :: "exchange \<Rightarrow> oref \<Rightarrow> oref option" where
  "opposite s a =
     (case order_type (ord_of s a) of
        BUY \<Rightarrow> getBestSellOrder s (item (ord_of s a)) (unit_price (ord_of s a))
      | SELL \<Rightarrow> getBestBuyOrder s (item (ord_of s a)) (unit_price (ord_of s a)))"

definition matched :: "oref \<Rightarrow> oref \<Rightarrow> exchange \<Rightarrow> exchange" where
  "matched a b s =
     (case order_type (ord_of s a) of
        BUY \<Rightarrow> execute buy sell a b s
      | SELL \<Rightarrow> execute sell buy a b s)"

lemma opposite_open:
  assumes "wf_exchange ps s" and "opposite s a = Some b"
  shows "b < length (store s)" "order_type (ord_of s b) \<noteq> order_type (ord_of s a)" "\<not> completed (ord_of s b)" "a \<noteq> b"
  using assms getBest_open [OF assms(1)] by (auto simp: opposite_def split: order_type.splits)

lemma place_wf:
  assumes wf: "wf_exchange ps s" and a: "a < length (store s)"
  shows "place True a s =
    (if completed (ord_of s a) then (None, s)
     else case opposite s a of None \<Rightarrow> (None, s) | Some b \<Rightarrow> (Some (match_trade s a b), matched a b s))"
proof (cases "completed (ord_of s a) \<or> opposite s a = None")
  case True
  then show ?thesis
    by (auto simp: place_def opposite_def placeBuyOrder_def placeSellOrder_def Let_def split: order_type.splits)
next
  case False
  then obtain b where b: "opposite s a = Some b" and c: "\<not> completed (ord_of s a)" by auto
  note ob = opposite_open [OF wf b]
  note D = wf_orderD [OF wf a] wf_orderD [OF wf ob(1)]
  have h: "holds (item (ord_of s a)) (traders s ! trader (ord_of s a))"
    "holds (item (ord_of s b)) (traders s ! trader (ord_of s b))"
    using wf_traderD(4) [OF wf] D by auto
  show ?thesis
  proof (cases "order_type (ord_of s a)")
    case BUY
    with b have "getBestSellOrder s (item (ord_of s a)) (unit_price (ord_of s a)) = Some b" by (simp add: opposite_def)
    from placeBuy_step [OF a ob(1,4) _ BUY c _ _ this _ _ h] D c ob b BUY show ?thesis
      by (simp add: place_def matched_def)
  next
    case SELL
    with b have "getBestBuyOrder s (item (ord_of s a)) (unit_price (ord_of s a)) = Some b" by (simp add: opposite_def)
    from placeSell_step [OF a ob(1,4) _ SELL c _ _ this _ _ h] D c ob b SELL show ?thesis
      by (simp add: place_def matched_def)
  qed
qed

lemma matched_sel:
  "store (matched a b s) = (store s)[a := fill (match_quantity s a b) (ord_of s a), b := fill (match_quantity s a b) (ord_of s b)]"
  "length (traders (matched a b s)) = length (traders s)"
  "i < length (traders s) \<Longrightarrow> repositioned (traders s ! i) (traders (matched a b s) ! i)"
  "orderbook (market (matched a b s)) = orderbook (market s)"
  "orderbook_cap (market (matched a b s)) = orderbook_cap (market s)"
  "completed_trades (market (matched a b s)) = completed_trades (market s) @ [match_trade s a b]"
  "trades_cap (market (matched a b s)) =
     (if length (completed_trades (market s)) \<ge> INITIAL_CAPACITY then length (completed_trades (market s)) + 2 else trades_cap (market s))"
  "transaction_fee (market (matched a b s)) = c_llong (transaction_fee (market s) + transaction_tax (match_value s a b))"
  by (simp_all add: matched_def execute_def Let_def settle_repositioned buy_sell_repositioned split: order_type.split)

lemma match_quantity_bounds:
  assumes wf: "wf_exchange ps s" and "a < length (store s)" "\<not> completed (ord_of s a)" and "opposite s a = Some b"
  shows "1 \<le> match_quantity s a b" "match_quantity s a b \<le> quantity (ord_of s a)"
    "match_quantity s a b \<le> quantity (ord_of s b)" "0 \<le> match_value s a b" "match_value s a b < 2 ^ 40"
proof -
  note ob = opposite_open [OF assms(1,4)]
  note D = wf_orderD [OF wf assms(2)] wf_orderD [OF wf ob(1)]
  show q: "1 \<le> match_quantity s a b" "match_quantity s a b \<le> quantity (ord_of s a)"
    "match_quantity s a b \<le> quantity (ord_of s b)"
    using D assms ob by (auto simp: match_quantity_def)
  then show "0 \<le> match_value s a b" using D by (simp add: match_value_def)
  have "match_value s a b \<le> MAX_QUANTITY * MAX_UNIT_PRICE"
    unfolding match_value_def using q D by (intro mult_mono) auto
  then show "match_value s a b < 2 ^ 40" by (simp add: pe_limits)
qed

lemma matched_ord:
  assumes "a < length (store s)" "b < length (store s)" "a \<noteq> b"
  shows "ord_of (matched a b s) r = (if r = a \<or> r = b then fill (match_quantity s a b) (ord_of s r) else ord_of s r)"
  using assms by (simp add: matched_sel nth_list_update)

lemma fill_sel [simp]:
  "order_type (fill q x) = order_type x" "item (fill q x) = item x" "unit_price (fill q x) = unit_price x"
  "trader (fill q x) = trader x" "order_id (fill q x) = order_id x" "order_index (fill q x) = order_index x"
  "quantity (fill q x) = quantity x - q" "completed (fill q x) = (completed x \<or> quantity x \<le> q)"
  by (simp_all add: fill_def)

lemma matched_wf:
  assumes wf: "wf_exchange ps s" and a: "a < length (store s)" "\<not> completed (ord_of s a)" and b: "opposite s a = Some b"
  shows "wf_exchange ps (matched a b s)"
proof -
  note ob = opposite_open [OF wf b]
  note q = match_quantity_bounds [OF wf a b]
  note mo = matched_ord [OF a(1) ob(1,4)]
  have len: "length (store (matched a b s)) = length (store s)" by (simp add: matched_sel)
  have same: "trader (ord_of (matched a b s) r) = trader (ord_of s r)"
    "order_id (ord_of (matched a b s) r) = order_id (ord_of s r)" for r by (simp_all add: mo)
  have "wf_order ps (matched a b s) r" if r: "r < length (store s)" for r
  proof -
    have "match_quantity s a b \<le> quantity (ord_of s r)" if "r = a \<or> r = b" using that q by auto
    then show ?thesis using wf_orderD [OF wf r] wf_order_id [OF wf r] q(1) by (auto simp: wf_order_def mo matched_sel(2))
  qed
  moreover have "wf_trader ps (matched a b s) t" if t: "t < length (traders s)" for t
    using wf t repositioned_sel(1-5) [OF matched_sel(3) [OF t, of a b]] len same
    by (simp add: wf_exchange_def wf_trader_def)
  moreover have "wf_market (matched a b s)"
    using wf by (auto simp: wf_exchange_def wf_market_def matched_sel len INITIAL_CAPACITY_def)
  moreover have "registered (matched a b s) r" if r: "r < length (store s)" for r
    using wf r wf_orderD(2) [OF wf r] repositioned_sel(3) [OF matched_sel(3)] same
    by (simp add: wf_exchange_def registered_def)
  ultimately show ?thesis using wf by (simp add: wf_exchange_def len matched_sel(2))
qed

section \<open>Conservation\<close>

definition total_cash :: "exchange \<Rightarrow> int" where
  "total_cash s = sum_list (map cash (traders s)) + transaction_fee (market s)"

definition total_stock :: "string \<Rightarrow> exchange \<Rightarrow> int" where
  "total_stock p s = sum_list (map (stock p) (traders s))"

lemma payer_wf:
  assumes "wf_exchange ps s" "a < length (store s)" "b < length (store s)"
  shows "trader (payer s a b) < length (traders s)" "holds (item (payer s a b)) (traders s ! trader (payer s a b))"
  using assms wf_orderD [OF assms(1)] wf_traderD(4) [OF assms(1)] by (auto simp: payer_def)

lemma matched_traders:
  "traders (matched a b s) = (case order_type (ord_of s a) of BUY \<Rightarrow> settle buy sell a b s | SELL \<Rightarrow> settle sell buy a b s)"
  by (simp add: matched_def execute_def Let_def split: order_type.split)

lemma matched_cash:
  assumes wf: "wf_exchange ps s" and ab: "a < length (store s)" "b < length (store s)"
  shows "2 ^ 64 dvd total_cash (matched a b s) - total_cash s"
proof -
  note pw = payer_wf [OF wf ab] and D = wf_orderD [OF wf ab(1)] wf_orderD [OF wf ab(2)]
  note tot = cash.settlement_total [OF D(2) D(10) pw(1) wf_traderD(4) [OF wf D(2,3)] wf_traderD(4) [OF wf D(10,11)] pw(2)]
  have "2 ^ 64 dvd cash.total () (traders (matched a b s)) - (cash.total () (traders s) - transaction_tax (match_value s a b))"
    using tot(1) [OF refl refl, where q = "match_quantity s a b" and pr = "unit_price (ord_of s b)" and k = "()" and f = "transaction_tax (match_value s a b)"]
      tot(2) [OF refl refl, where q = "match_quantity s a b" and pr = "unit_price (ord_of s b)" and k = "()" and f = "transaction_tax (match_value s a b)"]
    by (simp add: matched_traders settle_def Let_def algebra_simps split: order_type.split)
  from dvd_add [OF this wraps_dvd(2) [of "transaction_fee (market s) + transaction_tax (match_value s a b)"]]
  show ?thesis by (simp add: total_cash_def cash.total_def matched_sel algebra_simps)
qed

lemma matched_stock:
  assumes wf: "wf_exchange ps s" and ab: "a < length (store s)" "b < length (store s)"
    and "item (ord_of s a) = item (ord_of s b)"
  shows "2 ^ 32 dvd total_stock p (matched a b s) - total_stock p s"
proof -
  note pw = payer_wf [OF wf ab] and D = wf_orderD [OF wf ab(1)] wf_orderD [OF wf ab(2)]
  note tot = stock.settlement_total [OF D(2) D(10) pw(1) wf_traderD(4) [OF wf D(2,3)] wf_traderD(4) [OF wf D(10,11)] pw(2)]
  have "2 ^ 32 dvd stock.total p (traders (matched a b s)) - stock.total p (traders s)"
    using tot(1) [OF refl refl, where q = "match_quantity s a b" and pr = "unit_price (ord_of s b)" and k = p and f = "transaction_tax (match_value s a b)"]
      tot(2) [OF refl refl, where q = "match_quantity s a b" and pr = "unit_price (ord_of s b)" and k = p and f = "transaction_tax (match_value s a b)"] assms(4)
    by (simp add: matched_traders settle_def Let_def split: order_type.split)
  then show ?thesis by (simp add: total_stock_def stock.total_def)
qed

end
