(* ===== verification/Ex_Print.thy ===== *)
theory Ex_Print
  imports Ex_Match
begin

text \<open>
  The report the exchange prints after every change: \<open>printOrderByProduct\<close> (\<open>pe_market.c\<close>)
  and \<open>printOrderBook\<close> (\<open>pe_exchange.c\<close>). The output of a function is the list of the strings it
  hands to \<open>printf\<close>. The loop that groups the sorted orders into price levels is proved
  equal to a direct description of the levels.
\<close>

section \<open>Order book by product\<close>

definition LOG_PREFIX :: string where "LOG_PREFIX = ''[PEX]''"

text \<open>\<open>new_price\<close> in the two counting loops: no earlier match has the same price.\<close>

fun count_levels :: "int list \<Rightarrow> int list \<Rightarrow> nat" where
  "count_levels seen [] = 0"
| "count_levels seen (p # ps) = (if p \<in> set seen then 0 else 1) + count_levels (seen @ [p]) ps"

definition level_single :: "string \<Rightarrow> int \<Rightarrow> int \<Rightarrow> string" where
  "level_single side q p =
     LOG_PREFIX @ [TAB, TAB] @ side @ '' '' @ show_int q @ '' @ $'' @ show_int p @ '' (1 order)'' @ [NL]"

definition level_multi :: "string \<Rightarrow> int \<Rightarrow> int \<Rightarrow> int \<Rightarrow> string" where
  "level_multi side q p n =
     LOG_PREFIX @ [TAB, TAB] @ side @ '' '' @ show_int q @ '' @ $'' @ show_int p @ '' ('' @ show_int n @ '' orders)'' @ [NL]"

text \<open>
  The loop over the sorted orders with \<open>matching_orders_count\<close> and
  \<open>matching_orders_total_quantity\<close>, and the statement after it for the last order.
\<close>

fun print_levels :: "exchange \<Rightarrow> string \<Rightarrow> int \<Rightarrow> int \<Rightarrow> oref list \<Rightarrow> string list" where
  "print_levels s side cnt tot [] = []"
| "print_levels s side cnt tot [x] =
     (if cnt = 0 \<and> tot = 0 then [level_single side (quantity (ord_of s x)) (unit_price (ord_of s x))]
      else [level_multi side (c_int (tot + quantity (ord_of s x))) (unit_price (ord_of s x)) (cnt + 1)])"
| "print_levels s side cnt tot (x # y # zs) =
     (if unit_price (ord_of s x) = unit_price (ord_of s y)
      then print_levels s side (cnt + 1) (c_int (tot + quantity (ord_of s x))) (y # zs)
      else if cnt = 0 \<and> tot = 0
      then level_single side (quantity (ord_of s x)) (unit_price (ord_of s x)) # print_levels s side cnt tot (y # zs)
      else level_multi side (c_int (tot + quantity (ord_of s x))) (unit_price (ord_of s x)) (cnt + 1)
        # print_levels s side 0 0 (y # zs))"

definition printOrderByProduct :: "exchange \<Rightarrow> string \<Rightarrow> string list" where
  "printOrderByProduct s product =
     (let sells = open_orders s SELL product; buys = open_orders s BUY product;
          sell_level = count_levels [] (map (\<lambda>r. unit_price (ord_of s r)) sells);
          buy_level = count_levels [] (map (\<lambda>r. unit_price (ord_of s r)) buys)
      in (LOG_PREFIX @ [TAB] @ ''Product: '' @ product @ ''; Buy levels: '' @ show_int (int buy_level) @
            ''; Sell levels: '' @ show_int (int sell_level) @ [NL])
         # (if length sells > 0 then print_levels s ''SELL'' 0 0 (orderSortReverse s sells) else [])
         @ (if length buys > 0 then print_levels s ''BUY'' 0 0 (orderSortReverse s buys) else []))"

section \<open>Positions\<close>

definition position_text :: "trader_struct \<Rightarrow> nat \<Rightarrow> string" where
  "position_text t j =
     (inventory_products t ! j) @ '' '' @ show_int (inventory_quantity t ! j) @ '' ($'' @ show_int (bank t ! j) @ '')''"

definition print_position :: "exchange \<Rightarrow> nat \<Rightarrow> nat \<Rightarrow> string list" where
  "print_position s n i =
     [LOG_PREFIX @ [TAB] @ ''Trader '' @ show_int (int i) @ '': ''] @
     map (\<lambda>j. position_text (traders s ! i) j @ '', '') [0..<n - 1] @
     [position_text (traders s ! i) (n - 1) @ [NL]]"

definition printOrderBook :: "exchange \<Rightarrow> string list \<Rightarrow> string list" where
  "printOrderBook s products =
     [LOG_PREFIX @ [TAB] @ ''--ORDERBOOK--'' @ [NL]] @
     concat (map (printOrderByProduct s) products) @
     [LOG_PREFIX @ [TAB] @ ''--POSITIONS--'' @ [NL]] @
     concat (map (print_position s (length products)) [0..<length (traders s)])"

section \<open>The levels, described directly\<close>

definition level_line :: "exchange \<Rightarrow> string \<Rightarrow> oref list \<Rightarrow> int \<Rightarrow> string" where
  "level_line s side rs p =
     (let at = filter (\<lambda>r. unit_price (ord_of s r) = p) rs;
          q = sum_list (map (\<lambda>r. quantity (ord_of s r)) at)
      in if length at = 1 then level_single side q p else level_multi side (c_int q) p (int (length at)))"

definition price_levels :: "exchange \<Rightarrow> oref list \<Rightarrow> int list" where
  "price_levels s rs = rev (sorted_list_of_set (set (map (\<lambda>r. unit_price (ord_of s r)) rs)))"

lemma count_levels_card: "count_levels seen ps = card (set ps - set seen)"
proof (induction ps arbitrary: seen)
  case Nil
  then show ?case by simp
next
  case (Cons p ps)
  show ?case
  proof (cases "p \<in> set seen")
    case True
    then have "set (p # ps) - set seen = set ps - set (seen @ [p])" by auto
    with True Cons [of "seen @ [p]"] show ?thesis by (metis add_0 count_levels.simps(2))
  next
    case False
    then have "set (p # ps) - set seen = insert p (set ps - set (seen @ [p]))" by auto
    moreover have "p \<notin> set ps - set (seen @ [p])" by simp
    ultimately show ?thesis using False Cons [of "seen @ [p]"] 
      by (subst count_levels.simps) (simp del: set_append set_simps)
  qed
qed

lemma levels_cons:
  assumes "\<forall>r\<in>set rs. unit_price (ord_of s r) < p"
  shows "rev (sorted_list_of_set (insert p (set (map (\<lambda>r. unit_price (ord_of s r)) rs)))) = p # price_levels s rs"
proof -
  let ?A = "set (map (\<lambda>r. unit_price (ord_of s r)) rs)"
  have "p \<notin> ?A" using assms by auto
  then have "sorted_list_of_set (insert p ?A) = insort p (sorted_list_of_set ?A)" by simp
  also have "\<dots> = sorted_list_of_set ?A @ [p]"
    using assms by (intro sorted_insort_is_snoc) (auto simp: less_imp_le)
  finally show ?thesis by (simp add: price_levels_def)
qed

lemma c_int_add: "c_int (c_int a + b) = c_int (a + b)"
proof -
  have "take_bit 32 (signed_take_bit 31 a + b) = take_bit 32 (a + b)"
    by (metis le_refl numeral_eq_Suc pred_numeral_simps(2,3) semiring_norm(26,27,28) take_bit_add take_bit_signed_take_bit)
  then show ?thesis by (simp add: c_int_def signed_take_bit_eq_iff_take_bit_eq)
qed

lemma c_int_0: "c_int 0 = 0"
  by (simp add: c_int_def)

lemma level_line_drop:
  "\<forall>r\<in>set pre. unit_price (ord_of s r) \<noteq> p \<Longrightarrow> level_line s side (pre @ rs) p = level_line s side rs p"
  by (simp add: level_line_def filter_empty_conv)

lemma level_line_all:
  assumes "\<forall>r\<in>set pre. unit_price (ord_of s r) = p" "\<forall>r\<in>set rs. unit_price (ord_of s r) \<noteq> p" "unit_price (ord_of s x) = p"
  shows "level_line s side (pre @ x # rs) p =
    (if pre = [] then level_single side (quantity (ord_of s x)) p
     else level_multi side (c_int (sum_list (map (\<lambda>r. quantity (ord_of s r)) pre) + quantity (ord_of s x))) p (int (length pre) + 1))"
proof -
  have "filter (\<lambda>r. unit_price (ord_of s r) = p) pre = pre" "filter (\<lambda>r. unit_price (ord_of s r) = p) rs = []"
    using assms by (auto simp: filter_id_conv filter_empty_conv)
  with assms(3) show ?thesis by (simp add: level_line_def add.commute)
qed

lemma print_levels_gen:
  assumes "sorted_wrt (\<lambda>a b. unit_price (ord_of s a) \<ge> unit_price (ord_of s b)) (x # xs)"
    and "\<forall>r\<in>set pre. unit_price (ord_of s r) = unit_price (ord_of s x)"
  shows "print_levels s side (int (length pre)) (c_int (sum_list (map (\<lambda>r. quantity (ord_of s r)) pre))) (x # xs) =
    map (level_line s side (pre @ x # xs)) (price_levels s (x # xs))"
  using assms
proof (induction xs arbitrary: x pre)
  case Nil
  have "price_levels s [x] = [unit_price (ord_of s x)]" by (simp add: price_levels_def)
  with level_line_all [OF Nil.prems(2), of "[]" x side] show ?case
    by (cases "pre = []") (simp_all add: c_int_add c_int_0)
next
  case (Cons y zs)
  let ?p = "\<lambda>r. unit_price (ord_of s r)"
  show ?case
  proof (cases "?p x = ?p y")
    case True
    then have pl: "price_levels s (x # y # zs) = price_levels s (y # zs)" by (simp add: price_levels_def)
    have "print_levels s side (int (length (pre @ [x]))) (c_int (sum_list (map (\<lambda>r. quantity (ord_of s r)) (pre @ [x])))) (y # zs)
      = map (level_line s side ((pre @ [x]) @ y # zs)) (price_levels s (y # zs))"
      using Cons.prems True by (intro Cons.IH) auto
    with True pl show ?thesis by (simp add: c_int_add add.commute [of 1])
  next
    case False
    with Cons.prems have lt: "\<forall>r\<in>set (y # zs). ?p r < ?p x" by force
    have pl: "price_levels s (x # y # zs) = ?p x # price_levels s (y # zs)"
      using levels_cons [OF lt] by (simp add: price_levels_def)
    have sub: "set (price_levels s (y # zs)) = ?p ` set (y # zs)"
      by (simp add: price_levels_def del: sorted_list_of_set_insert_remove)
    have "map (level_line s side (pre @ x # y # zs)) (price_levels s (y # zs)) = map (level_line s side (y # zs)) (price_levels s (y # zs))"
    proof (rule map_cong [OF refl])
      fix p assume "p \<in> set (price_levels s (y # zs))"
      then have "p < ?p x" using sub lt by auto
      then show "level_line s side (pre @ x # y # zs) p = level_line s side (y # zs) p"
        using level_line_drop [of "pre @ [x]" s p side "y # zs"] Cons.prems(2) by auto
    qed
    moreover have "print_levels s side 0 0 (y # zs) = map (level_line s side (y # zs)) (price_levels s (y # zs))"
      using Cons.IH [of y "[]"] Cons.prems(1) by (simp add: c_int_0)
    moreover have "\<forall>r\<in>set (y # zs). ?p r \<noteq> ?p x" using lt by auto
    ultimately show ?thesis
      using False pl level_line_all [OF Cons.prems(2), of "y # zs" x side]
      by (cases "pre = []") (simp_all add: c_int_add c_int_0)
  qed
qed

lemma level_line_perm:
  assumes "mset ys = mset rs"
  shows "level_line s side ys p = level_line s side rs p"
proof -
  let ?f = "filter (\<lambda>r. unit_price (ord_of s r) = p)"
  have m: "mset (?f ys) = mset (?f rs)" using assms by simp
  have "sum_mset (image_mset (\<lambda>r. quantity (ord_of s r)) (mset (?f ys))) = sum_mset (image_mset (\<lambda>r. quantity (ord_of s r)) (mset (?f rs)))"
    by (simp only: m)
  then have "sum_list (map (\<lambda>r. quantity (ord_of s r)) (?f ys)) = sum_list (map (\<lambda>r. quantity (ord_of s r)) (?f rs))"
    by (simp only: mset_map [symmetric] sum_mset_sum_list)
  moreover have "length (?f ys) = length (?f rs)" using m by (metis size_mset)
  ultimately show ?thesis by (simp add: level_line_def Let_def)
qed

lemma print_levels_sorted:
  "rs \<noteq> [] \<Longrightarrow> print_levels s side 0 0 (orderSortReverse s rs) = map (level_line s side rs) (price_levels s rs)"
proof -
  assume "rs \<noteq> []"
  then obtain x xs where x: "orderSortReverse s rs = x # xs" by (metis list.exhaust orderSort_Nil(2))
  have "sorted_wrt (\<lambda>a b. unit_price (ord_of s a) \<ge> unit_price (ord_of s b)) (x # xs)"
    using desc.sorts [of s rs] x by (simp add: cheaper_def orderSortReverse_def not_less)
  from print_levels_gen [OF this, of "[]" side]
  have "print_levels s side 0 0 (x # xs) = map (level_line s side (x # xs)) (price_levels s (x # xs))"
    by (simp add: c_int_0)
  moreover have "level_line s side (x # xs) = level_line s side rs"
    using level_line_perm [of "x # xs" rs s side] x mset_orderSort(2) [of s rs] by auto
  moreover have "price_levels s (x # xs) = price_levels s rs"
    unfolding price_levels_def using x set_orderSort(2) [of s rs] by (simp only: set_map)
  ultimately show ?thesis using x by simp
qed

lemma printOrderByProduct_eq:
  "printOrderByProduct s product =
     (LOG_PREFIX @ [TAB] @ ''Product: '' @ product @
        ''; Buy levels: '' @ show_int (int (length (price_levels s (open_orders s BUY product)))) @
        ''; Sell levels: '' @ show_int (int (length (price_levels s (open_orders s SELL product)))) @ [NL])
     # map (level_line s ''SELL'' (open_orders s SELL product)) (price_levels s (open_orders s SELL product))
     @ map (level_line s ''BUY'' (open_orders s BUY product)) (price_levels s (open_orders s BUY product))"
proof -
  have "count_levels [] (map (\<lambda>r. unit_price (ord_of s r)) rs) = length (price_levels s rs)" for rs
    by (simp add: count_levels_card price_levels_def)
  moreover have "price_levels s [] = []" by (simp add: price_levels_def)
  ultimately show ?thesis by (simp add: printOrderByProduct_def Let_def print_levels_sorted)
qed

end
