(* ===== verification/Ex_Handle.thy ===== *)
theory Ex_Handle
  imports Ex_Print
begin

text \<open>
  \<open>pe_exchange.c\<close>: parsing a message and the four branches of the \<open>switch\<close> in \<open>main\<close>
  that handle it. A handler returns the state and its effects in order: text printed,
  messages written to a trader's pipe, and signals sent. What the operating system answers
  is an argument, \<open>env\<close>; accesses the source makes through a pointer that may be NULL or
  is not initialised yield a \<open>fault\<close>.
\<close>

section \<open>Environment\<close>

text \<open>Whether each \<open>realloc\<close> (by the count of trades for \<open>addTrade\<close>) and each \<open>write\<close> succeeds.\<close>

record env =
  book_mem :: bool
  orders_mem :: bool
  trade_mem :: "nat \<Rightarrow> bool"
  write_ok :: "int \<Rightarrow> string \<Rightarrow> bool"

section \<open>Messages from traders\<close>

datatype message_state = ORDER_RECEIVED | INVALID_MESSAGE | AMEND_REQUEST | CANCEL_REQUEST

definition find_trader :: "exchange \<Rightarrow> int \<Rightarrow> tref option" where
  "find_trader s pid = List.find (\<lambda>i. trader_pid (traders s ! i) = pid) [0..<length (traders s)]"

text \<open>
  The words are copied into \<open>market_argv\<close>, whose other entries keep their old contents; the
  loop gives up after the sixth word.
\<close>

definition read_message :: "string \<Rightarrow> string list \<Rightarrow> string list \<Rightarrow> message_state \<times> string list \<times> effect list" where
  "read_message message market_argv product_list =
     (if message = [] then (INVALID_MESSAGE, market_argv, [Print (''Null input'' @ [NL])])
      else if hd message = CHR '' '' \<or> last message = CHR '' ''
      then (INVALID_MESSAGE, market_argv, [Print (''Invalid - leading/end'' @ [NL])])
      else if double_space message
      then (INVALID_MESSAGE, market_argv, [Print (''Invalid - consecutive whitespaces'' @ [NL])])
      else
        let toks = take 6 (strtok_all message); argc = length toks;
            argv = toks @ drop argc market_argv in
        if argc > 5 then (INVALID_MESSAGE, argv, [])
        else if argv ! 0 = ''SELL'' \<or> argv ! 0 = ''BUY'' then
          (if argc \<noteq> 5 then (INVALID_MESSAGE, argv, [])
           else if List.find (\<lambda>p. argv ! 2 = p) product_list \<noteq> None then (ORDER_RECEIVED, argv, [])
           else (INVALID_MESSAGE, argv, []))
        else if argv ! 0 = ''AMEND'' then
          (if argc \<noteq> 4 then (INVALID_MESSAGE, argv, []) else (AMEND_REQUEST, argv, []))
        else if argv ! 0 = ''CANCEL'' then
          (if argc \<noteq> 2 then (INVALID_MESSAGE, argv, []) else (CANCEL_REQUEST, argv, []))
        else (INVALID_MESSAGE, argv, []))"

section \<open>Messages to traders\<close>

definition side_text :: "order_type \<Rightarrow> string" where
  "side_text ty = (case ty of BUY \<Rightarrow> ''BUY'' | SELL \<Rightarrow> ''SELL'')"

definition write_msg :: "env \<Rightarrow> int \<Rightarrow> string \<Rightarrow> effect list" where
  "write_msg e fd txt = (if write_ok e fd txt then [Write fd txt] else [Print (''write failed'' @ [NL])])"

definition notify :: "env \<Rightarrow> int \<Rightarrow> int \<Rightarrow> string \<Rightarrow> effect list" where
  "notify e fd pid txt = write_msg e fd txt @ [Kill pid]"

definition market_text :: "string \<Rightarrow> string \<Rightarrow> int \<Rightarrow> int \<Rightarrow> string" where
  "market_text side p q pr = ''MARKET '' @ side @ '' '' @ p @ '' '' @ show_int q @ '' '' @ show_int pr @ '';''"

text \<open>The loop over all traders but the sender and those that are gone.\<close>

definition broadcast :: "env \<Rightarrow> exchange \<Rightarrow> tref \<Rightarrow> string \<Rightarrow> effect list" where
  "broadcast e s t txt =
     concat (map (\<lambda>i. let x = traders s ! i in
                    if trader_id x \<noteq> trader_id (traders s ! t) \<and> \<not> disconnected x
                    then notify e (fd_w x) (trader_pid x) txt else []) [0..<length (traders s)])"

definition reject :: "env \<Rightarrow> exchange \<Rightarrow> tref \<Rightarrow> int \<Rightarrow> effect list" where
  "reject e s t pid = notify e (fd_w (traders s ! t)) pid ''INVALID;''"

section \<open>Reporting and repeating matches\<close>

definition match_text :: "exchange \<Rightarrow> trade_struct \<Rightarrow> string" where
  "match_text s tr =
     LOG_PREFIX @ '' Match: Order '' @ show_int (order_id (ord_of s (order_in_book tr))) @
     '' [T'' @ show_int (owner_id s (order_in_book tr)) @ ''], New Order '' @
     show_int (order_id (ord_of s (incoming_order tr))) @ '' [T'' @ show_int (owner_id s (incoming_order tr)) @
     ''], value: $'' @ show_int (transaction_quantity tr * transaction_price tr) @
     '', fee: $'' @ show_int (the (trade_tax tr)) @ ''.''"

definition fill_text :: "exchange \<Rightarrow> oref \<Rightarrow> int \<Rightarrow> string" where
  "fill_text s r q = ''FILL '' @ show_int (order_id (ord_of s r)) @ '' '' @ show_int q @ '';''"

text \<open>Both \<open>kill\<close> calls go to the trader of the incoming order.\<close>

definition report_trade :: "env \<Rightarrow> exchange \<Rightarrow> trade_struct \<Rightarrow> effect list" where
  "report_trade e s tr =
     (let inc = traders s ! trader (ord_of s (incoming_order tr));
          bk = traders s ! trader (ord_of s (order_in_book tr)) in
      [Print (match_text s tr @ [NL])] @
      write_msg e (fd_w inc) (fill_text s (incoming_order tr) (transaction_quantity tr)) @
      [Kill (trader_pid inc)] @
      (if \<not> disconnected bk then write_msg e (fd_w bk) (fill_text s (order_in_book tr) (transaction_quantity tr)) else []) @
      [Kill (trader_pid inc)])"

definition try_match :: "env \<Rightarrow> oref \<Rightarrow> exchange \<Rightarrow> trade_struct option \<times> exchange" where
  "try_match e a s = place (trade_mem e (length (completed_trades (market s)))) a s"

fun fill_loop :: "nat \<Rightarrow> env \<Rightarrow> oref \<Rightarrow> trade_struct option \<Rightarrow> exchange \<Rightarrow> fault + effect list \<times> exchange" where
  "fill_loop fuel e a None s = Inr ([], s)"
| "fill_loop 0 e a (Some tr) s = Inl OutOfFuel"
| "fill_loop (Suc fuel) e a (Some tr) s =
     (let (next_trade, s') = try_match e a s in
      bind_err (fill_loop fuel e a next_trade s') (\<lambda>(out, s''). Inr (report_trade e s tr @ out, s'')))"

section \<open>The branches of the switch\<close>

definition print_book :: "exchange \<Rightarrow> string list \<Rightarrow> effect list" where
  "print_book s ps = map Print (printOrderBook s ps)"

definition order_type_of :: "string \<Rightarrow> order_type option" where
  "order_type_of w = (if w = ''SELL'' then Some SELL else if w = ''BUY'' then Some BUY else None)"

definition handle_order :: "env \<Rightarrow> string list \<Rightarrow> string list \<Rightarrow> tref \<Rightarrow> int \<Rightarrow> exchange \<Rightarrow> fault + effect list \<times> exchange" where
  "handle_order e ps argv t pid s =
     (case newOrder argv t (order_type_of (argv ! 0)) s of
        (None, _) \<Rightarrow> Inr (reject e s t pid, s)
      | (Some r, s1) \<Rightarrow>
          let s2 = snd (marketAddOrder (book_mem e) r s1);
              s3 = upd_trader t (\<lambda>x. snd (traderAddOrder (orders_mem e) x r)) s2;
              o3 = ord_of s3 r;
              hello = notify e (fd_w (traders s3 ! t)) pid (''ACCEPTED '' @ show_int (order_id o3) @ '';'') @
                      broadcast e s3 t (market_text (argv ! 0) (item o3) (quantity o3) (unit_price o3));
              (tr, s4) = try_match e r s3
          in bind_err (fill_loop (Suc (nat (quantity o3))) e r tr s4)
               (\<lambda>(out, s5). Inr (hello @ out @ print_book s5 ps, s5)))"

text \<open>\<open>amend\<close>: the order book is searched from the front for an order of that trader and id.\<close>

fun amend_loop :: "env \<Rightarrow> string list \<Rightarrow> int \<Rightarrow> tref \<Rightarrow> oref list \<Rightarrow> exchange \<Rightarrow> int \<times> exchange" where
  "amend_loop e argv oid t [] s = (1, s)"
| "amend_loop e argv oid t (r # rs) s =
     (if order_id (ord_of s r) = oid \<and> owner_id s r = trader_id (traders s ! t) then
        if completed (ord_of s r) then (1, s)
        else case newOrder [side_text (order_type (ord_of s r)), argv ! 1, item (ord_of s r), argv ! 2, argv ! 3]
                    t (Some (order_type (ord_of s r))) s of
          (Some r', s1) \<Rightarrow> (0, closeOrder r (traderAmendOrder t r' (snd (marketAddOrder (book_mem e) r' s1))))
        | (None, _) \<Rightarrow> amend_loop e argv oid t rs s
      else amend_loop e argv oid t rs s)"

definition amend :: "env \<Rightarrow> string list \<Rightarrow> tref \<Rightarrow> exchange \<Rightarrow> int \<times> exchange" where
  "amend e argv t s =
     (if \<not> isNumeric (argv ! 1) \<or> \<not> isNumeric (argv ! 2) \<or> \<not> isNumeric (argv ! 3) then (1, s)
      else let newQuantity = atoi (argv ! 2); newPrice = atoi (argv ! 3) in
        if newQuantity \<le> 0 \<or> newQuantity > MAX_QUANTITY then (1, s)
        else if newPrice \<le> 0 \<or> newPrice > MAX_UNIT_PRICE then (1, s)
        else amend_loop e argv (atoi (argv ! 1)) t (orderbook (market s)) s)"

text \<open>
  After a first match the loop calls \<open>placeBuyOrder(market, order)\<close> with the local variable
  \<open>order\<close>, which this branch never assigns.
\<close>

definition handle_amend :: "env \<Rightarrow> string list \<Rightarrow> string list \<Rightarrow> tref \<Rightarrow> int \<Rightarrow> exchange \<Rightarrow> fault + effect list \<times> exchange" where
  "handle_amend e ps argv t pid s =
     (let (rc, s1) = amend e argv t s in
      if rc \<noteq> 0 then Inr (reject e s1 t pid, s1)
      else
        let hello = notify e (fd_w (traders s1 ! t)) pid (''AMENDED '' @ argv ! 1 @ '';'') in
        case getOrder t (atoi (argv ! 1)) s1 of
          None \<Rightarrow> Inl NullPointer
        | Some r \<Rightarrow>
            let x = ord_of s1 r;
                news = broadcast e s1 t (market_text (side_text (order_type x)) (item x) (quantity x) (unit_price x)) in
            case try_match e r s1 of
              (Some tr, s2) \<Rightarrow> Inl Uninitialised
            | (None, s2) \<Rightarrow> Inr (hello @ news @ print_book s2 ps, s2))"

definition handle_cancel :: "env \<Rightarrow> string list \<Rightarrow> string list \<Rightarrow> tref \<Rightarrow> int \<Rightarrow> exchange \<Rightarrow> fault + effect list \<times> exchange" where
  "handle_cancel e ps argv t pid s =
     (if \<not> isNumeric (argv ! 1) then Inr (reject e s t pid, s)
      else case getOrder t (atoi (argv ! 1)) s of
        None \<Rightarrow> Inr (reject e s t pid, s)
      | Some r \<Rightarrow>
          if completed (ord_of s r) then Inr (reject e s t pid, s)
          else
            let s1 = closeOrder r s; x = ord_of s1 r in
            Inr (notify e (fd_w (traders s1 ! t)) pid (''CANCELLED '' @ show_int (atoi (argv ! 1)) @ '';'') @
                 broadcast e s1 t (market_text (side_text (order_type x)) (item x) 0 0) @
                 print_book s1 ps, s1))"

definition handle_message :: "env \<Rightarrow> string list \<Rightarrow> message_state \<Rightarrow> string list \<Rightarrow> tref \<Rightarrow> int \<Rightarrow> exchange \<Rightarrow> fault + effect list \<times> exchange" where
  "handle_message e ps state argv t pid s =
     (case state of
        ORDER_RECEIVED \<Rightarrow> handle_order e ps argv t pid s
      | AMEND_REQUEST \<Rightarrow> handle_amend e ps argv t pid s
      | CANCEL_REQUEST \<Rightarrow> handle_cancel e ps argv t pid s
      | INVALID_MESSAGE \<Rightarrow> Inr (reject e s t pid, s))"

end
