(* ===== verification/Ex_Invariant.thy ===== *)
theory Ex_Invariant
  imports Ex_Handle
begin

text \<open>
  The effect of the handlers on the invariant of the exchange: entering an order, running
  matches until nothing is left to match, amending and cancelling. The book is never left
  crossed, cash is conserved, and stock is where open orders are identified by their ids.
\<close>

section \<open>Entering an order\<close>

definition entered :: "tref \<Rightarrow> order_struct \<Rightarrow> exchange \<Rightarrow> exchange" where
  "entered t x s =
     (let n = length (store s); m = market s; y = traders s ! t in
      s\<lparr>store := store s @ [x\<lparr>order_index := int n\<rparr>],
        traders := (traders s)[t := y\<lparr>orders := orders y @ [n],
          orders_cap := (if length (orders y) \<ge> INITIAL_CAPACITY then length (orders y) + 1 else orders_cap y)\<rparr>],
        market := m\<lparr>orderbook := orderbook m @ [n],
          orderbook_cap := (if n \<ge> INITIAL_CAPACITY then n + 1 else orderbook_cap m)\<rparr>\<rparr>)"

definition valid_order :: "string list \<Rightarrow> tref \<Rightarrow> order_struct \<Rightarrow> bool" where
  "valid_order ps t x \<longleftrightarrow> item x \<in> set ps \<and> trader x = t \<and> \<not> completed x \<and>
     1 \<le> quantity x \<and> quantity x \<le> MAX_QUANTITY \<and> 1 \<le> unit_price x \<and> unit_price x \<le> MAX_UNIT_PRICE \<and> c_int (order_id x) = order_id x"

lemma marketAddOrder_True:
  assumes "orderbook (market s) = [0..<length (store s)]"
  shows "marketAddOrder True (length (store s)) (s\<lparr>store := store s @ [x]\<rparr>) =
    (0, s\<lparr>store := store s @ [x\<lparr>order_index := int (length (store s))\<rparr>],
          market := (market s)\<lparr>orderbook := orderbook (market s) @ [length (store s)],
            orderbook_cap := (if length (store s) \<ge> INITIAL_CAPACITY then length (store s) + 1 else orderbook_cap (market s))\<rparr>\<rparr>)"
  using assms by (simp add: marketAddOrder_def Let_def upd_order_def upd_market_def)

lemma entered_eq:
  assumes "wf_exchange ps s"
  shows "upd_trader t (\<lambda>y. snd (traderAddOrder True y (length (store s))))
    (snd (marketAddOrder True (length (store s)) (s\<lparr>store := store s @ [x]\<rparr>))) = entered t x s"
  by (simp add: marketAddOrder_True [OF wf_book [OF assms]] upd_trader_def traderAddOrder_def entered_def Let_def)

lemma entered_sel:
  "store (entered t x s) = store s @ [x\<lparr>order_index := int (length (store s))\<rparr>]"
  "length (traders (entered t x s)) = length (traders s)"
  "u \<noteq> t \<Longrightarrow> traders (entered t x s) ! u = traders s ! u"
  "completed_trades (market (entered t x s)) = completed_trades (market s)"
  "trades_cap (market (entered t x s)) = trades_cap (market s)"
  "transaction_fee (market (entered t x s)) = transaction_fee (market s)"
  "orderbook (market (entered t x s)) = orderbook (market s) @ [length (store s)]"
  by (simp_all add: entered_def Let_def)

lemma entered_trader:
  assumes "t < length (traders s)"
  shows "trader_id (traders (entered t x s) ! u) = trader_id (traders s ! u)"
    "inventory_products (traders (entered t x s) ! u) = inventory_products (traders s ! u)"
    "wf_account (traders (entered t x s) ! u) = wf_account (traders s ! u)"
    "cash (traders (entered t x s) ! u) = cash (traders s ! u)"
    "stock p (traders (entered t x s) ! u) = stock p (traders s ! u)"
    "orders (traders (entered t x s) ! u) = orders (traders s ! u) @ (if u = t then [length (store s)] else [])"
    "length (orders (traders s ! u)) \<le> orders_cap (traders s ! u) \<Longrightarrow>
       INITIAL_CAPACITY \<le> orders_cap (traders s ! u) \<Longrightarrow>
       length (orders (traders (entered t x s) ! u)) \<le> orders_cap (traders (entered t x s) ! u) \<and>
       INITIAL_CAPACITY \<le> orders_cap (traders (entered t x s) ! u)"
  using assms
  by (auto simp: entered_def Let_def nth_list_update wf_account_def cash_def stock_def split: option.split)

lemma entered_wf:
  assumes wf: "wf_exchange ps s" and t: "t < length (traders s)" and x: "valid_order ps t x"
  shows "wf_exchange ps (entered t x s)"
proof -
  let ?n = "length (store s)"
  note tr = entered_trader [OF t, where x = x]
  have old: "ord_of (entered t x s) r = ord_of s r" if "r < ?n" for r
    using that by (simp add: entered_sel nth_append)
  have new: "ord_of (entered t x s) ?n = x\<lparr>order_index := int ?n\<rparr>" by (simp add: entered_sel)
  have "wf_order ps (entered t x s) r \<and> registered (entered t x s) r" if "r < Suc ?n" for r
  proof (cases "r = ?n")
    case True
    with x t show ?thesis by (simp add: wf_order_def new valid_order_def entered_sel(2) registered_def tr)
  next
    case False
    with that have r: "r < ?n" by simp
    have "\<exists>q\<in>set (orders (traders s ! trader (ord_of s r))). q < ?n \<and> order_id (ord_of s q) = order_id (ord_of s r)"
      using wf r wf_orderD(2) [OF wf r] by (auto simp: wf_exchange_def wf_trader_def registered_def)
    then obtain q where "q \<in> set (orders (traders s ! trader (ord_of s r)))" "q < ?n"
      "order_id (ord_of s q) = order_id (ord_of s r)" by blast
    with old r have "registered (entered t x s) r" by (auto simp: registered_def tr intro!: bexI [of _ q])
    with wf_orderD [OF wf r] wf_order_id [OF wf r] show ?thesis by (simp add: wf_order_def old [OF r] entered_sel(2))
  qed
  moreover have "wf_trader ps (entered t x s) u" if u: "u < length (traders s)" for u
  proof -
    have "length (orders (traders (entered t x s) ! u)) \<le> orders_cap (traders (entered t x s) ! u) \<and>
        INITIAL_CAPACITY \<le> orders_cap (traders (entered t x s) ! u)"
      using wf u by (intro tr(7)) (simp_all add: wf_exchange_def wf_trader_def)
    moreover have "r < Suc ?n \<and> trader (ord_of (entered t x s) r) = u"
      if "r \<in> set (orders (traders (entered t x s) ! u))" for r
      using that wf u x by (cases "r = ?n") (auto simp: wf_exchange_def wf_trader_def tr(6) new old valid_order_def intro: less_SucI split: if_splits)
    ultimately show ?thesis using wf u by (simp add: wf_exchange_def wf_trader_def tr(1-3) entered_sel(1))
  qed
  moreover have "wf_market (entered t x s)"
    using wf by (auto simp: wf_exchange_def wf_market_def entered_def Let_def INITIAL_CAPACITY_def)
  ultimately show ?thesis using wf by (simp add: wf_exchange_def entered_sel)
qed

section \<open>Runs of matches\<close>

text \<open>\<open>matches r s s'\<close>: matching the incoming order \<open>r\<close> until nothing is left to match leads from \<open>s\<close> to \<open>s'\<close>.\<close>

inductive matches :: "oref \<Rightarrow> exchange \<Rightarrow> exchange \<Rightarrow> bool" for r where
  finished: "completed (ord_of s r) \<or> opposite s r = None \<Longrightarrow> matches r s s"
| more: "\<not> completed (ord_of s r) \<Longrightarrow> opposite s r = Some b \<Longrightarrow> matches r (matched r b s) s' \<Longrightarrow> matches r s s'"

definition run_match :: "nat \<Rightarrow> env \<Rightarrow> oref \<Rightarrow> exchange \<Rightarrow> fault + effect list \<times> exchange" where
  "run_match fuel e r s = (let (tr, s') = try_match e r s in fill_loop fuel e r tr s')"

definition memory_ok :: "env \<Rightarrow> bool" where
  "memory_ok e \<longleftrightarrow> book_mem e \<and> orders_mem e \<and> trade_mem e = (\<lambda>_. True)"

lemma matched_quantity:
  assumes "wf_exchange ps s" "r < length (store s)" "\<not> completed (ord_of s r)" "opposite s r = Some b"
  shows "quantity (ord_of (matched r b s) r) < quantity (ord_of s r)" "0 \<le> quantity (ord_of (matched r b s) r)"
    "length (store (matched r b s)) = length (store s)"
  using match_quantity_bounds [OF assms] matched_ord [OF assms(2) opposite_open(1,4) [OF assms(1,4)]]
  by (simp_all add: matched_sel(1))

lemma run_match_terminates:
  assumes "wf_exchange ps s" "r < length (store s)" "memory_ok e" "nat (quantity (ord_of s r)) \<le> fuel"
  shows "\<exists>out s'. run_match fuel e r s = Inr (out, s') \<and> matches r s s'"
  using assms
proof (induction fuel arbitrary: s)
  case (0 s)
  then have "completed (ord_of s r)" using wf_orderD(8) [OF 0(1,2)] by force
  then have "matches r s s" by (simp add: matches.finished)
  with 0 show ?case
    by (simp add: run_match_def try_match_def memory_ok_def place_wf \<open>completed (ord_of s r)\<close>)
next
  case (Suc fuel s)
  note pl = place_wf [OF Suc.prems(1,2)]
  show ?case
  proof (cases "completed (ord_of s r) \<or> opposite s r = None")
    case True
    then have "matches r s s" by (rule matches.finished)
    with True Suc.prems(3) show ?thesis by (auto simp: run_match_def try_match_def memory_ok_def pl)
  next
    case False
    then obtain b where b: "\<not> completed (ord_of s r)" "opposite s r = Some b" by auto
    note q = matched_quantity [OF Suc.prems(1,2) b]
    have "nat (quantity (ord_of (matched r b s) r)) \<le> fuel" using q Suc.prems(4) by linarith
    with Suc.IH [of "matched r b s"] matched_wf [OF Suc.prems(1,2) b] Suc.prems q
    obtain out s' where o: "run_match fuel e r (matched r b s) = Inr (out, s')" "matches r (matched r b s) s'" by auto
    have "run_match (Suc fuel) e r s = Inr (report_trade e (matched r b s) (match_trade s r b) @ out, s')"
      using o(1) b Suc.prems(3) pl by (simp add: run_match_def try_match_def memory_ok_def split: prod.splits)
    with matches.more [OF b o(2)] show ?thesis by blast
  qed
qed

text \<open>What every run of matches keeps.\<close>

lemma matches_wf:
  assumes "matches r s s'" "wf_exchange ps s" "r < length (store s)"
  shows "wf_exchange ps s' \<and> length (store s') = length (store s) \<and> length (traders s') = length (traders s)"
  using assms
proof (induction rule: matches.induct)
  case (finished s)
  then show ?case by simp
next
  case (more s b s')
  with matched_wf [OF more.prems(1) more.prems(2) more.hyps(1,2)] show ?case
    by (simp add: matched_sel)
qed

lemma matches_cash:
  assumes "matches r s s'" "wf_exchange ps s" "r < length (store s)"
  shows "2 ^ 64 dvd total_cash s' - total_cash s"
  using assms
proof (induction rule: matches.induct)
  case (finished s)
  then show ?case by simp
next
  case (more s b s')
  have "2 ^ 64 dvd total_cash (matched r b s) - total_cash s"
    using more.prems opposite_open(1) [OF more.prems(1) more.hyps(2)] by (intro matched_cash)
  moreover have "2 ^ 64 dvd total_cash s' - total_cash (matched r b s)"
    using more.IH more.prems matched_wf [OF more.prems more.hyps(1,2)] by (simp add: matched_sel)
  ultimately have "2 ^ 64 dvd (total_cash (matched r b s) - total_cash s) + (total_cash s' - total_cash (matched r b s))" by (rule dvd_add)
  then show ?case by simp
qed

section \<open>The book is not crossed\<close>

definition crossing :: "exchange \<Rightarrow> oref \<Rightarrow> oref \<Rightarrow> bool" where
  "crossing s a b \<longleftrightarrow> order_type (ord_of s a) = BUY \<and> order_type (ord_of s b) = SELL \<and>
     item (ord_of s a) = item (ord_of s b) \<and> \<not> completed (ord_of s a) \<and> \<not> completed (ord_of s b) \<and>
     unit_price (ord_of s b) \<le> unit_price (ord_of s a)"

definition uncrossed :: "exchange \<Rightarrow> bool" where
  "uncrossed s \<longleftrightarrow> (\<forall>a<length (store s). \<forall>b<length (store s). \<not> crossing s a b)"

definition crossed_only_by :: "oref \<Rightarrow> exchange \<Rightarrow> bool" where
  "crossed_only_by r s \<longleftrightarrow>
     (\<forall>a<length (store s). \<forall>b<length (store s). crossing s a b \<longrightarrow> a = r \<or> b = r)"

lemma open_orders_set:
  assumes "wf_exchange ps s"
  shows "set (open_orders s ty p) =
    {r. r < length (store s) \<and> item (ord_of s r) = p \<and> order_type (ord_of s r) = ty \<and> \<not> completed (ord_of s r)}"
  by (auto simp: open_orders_def wf_book [OF assms])

lemma getBest_None:
  assumes wf: "wf_exchange ps s"
  shows "getBestSellOrder s p price = None \<Longrightarrow> q \<in> set (open_orders s SELL p) \<Longrightarrow> price < unit_price (ord_of s q)"
    and "getBestBuyOrder s p price = None \<Longrightarrow> q \<in> set (open_orders s BUY p) \<Longrightarrow> unit_price (ord_of s q) < price"
proof -
  assume n: "getBestSellOrder s p price = None" and q: "q \<in> set (open_orders s SELL p)"
  then have ne: "open_orders s SELL p \<noteq> []" by auto
  note b = head_best(1) [OF wf ne, unfolded asc.best_of_def dearer_def]
  with n ne rematch_member [of "hd (orderSort s (open_orders s SELL p))" s SELL p]
  have "price < unit_price (ord_of s (hd (orderSort s (open_orders s SELL p))))"
    by (auto simp: getBestSell_head [OF wf] Let_def not_le split: if_splits)
  also have "\<dots> \<le> unit_price (ord_of s q)" using b q by (meson not_le)
  finally show "price < unit_price (ord_of s q)" .
next
  assume n: "getBestBuyOrder s p price = None" and q: "q \<in> set (open_orders s BUY p)"
  then have ne: "open_orders s BUY p \<noteq> []" by auto
  note b = head_best(2) [OF wf ne, unfolded desc.best_of_def cheaper_def]
  have "unit_price (ord_of s q) \<le> unit_price (ord_of s (hd (orderSortReverse s (open_orders s BUY p))))"
    using b q by (meson not_le)
  also have "\<dots> < price"
    using n ne b rematch_member [of "hd (orderSortReverse s (open_orders s BUY p))" s BUY p]
    by (auto simp: getBestBuy_head [OF wf] Let_def not_le split: if_splits)
  finally show "unit_price (ord_of s q) < price" .
qed

lemma opposite_None:
  assumes wf: "wf_exchange ps s" and "opposite s r = None" and "c < length (store s)"
  shows "\<not> crossing s r c" "\<not> crossing s c r"
proof -
  note none = getBest_None [OF wf, of "item (ord_of s r)" "unit_price (ord_of s r)" c, unfolded open_orders_set [OF wf]]
  show "\<not> crossing s r c"
  proof
    assume x: "crossing s r c"
    then have "getBestSellOrder s (item (ord_of s r)) (unit_price (ord_of s r)) = None"
      using assms(2) by (simp add: opposite_def crossing_def)
    from none(1) [OF this] x assms(3) show False by (simp add: crossing_def)
  qed
  show "\<not> crossing s c r"
  proof
    assume x: "crossing s c r"
    then have "getBestBuyOrder s (item (ord_of s r)) (unit_price (ord_of s r)) = None"
      using assms(2) by (simp add: opposite_def crossing_def)
    from none(2) [OF this] x assms(3) show False by (simp add: crossing_def)
  qed
qed

lemma matched_crossing:
  assumes "wf_exchange ps s" "r < length (store s)" "opposite s r = Some b" "crossing (matched r b s) a c"
  shows "crossing s a c"
  using assms(4) matched_ord [OF assms(2) opposite_open(1,4) [OF assms(1,3)]]
  by (auto simp: crossing_def split: if_splits)

lemma matches_uncrossed:
  assumes "matches r s s'" "wf_exchange ps s" "r < length (store s)" "crossed_only_by r s"
  shows "uncrossed s'"
  using assms
proof (induction rule: matches.induct)
  case (finished s)
  have False if c: "a < length (store s)" "b < length (store s)" "crossing s a b" for a b
  proof -
    have "a = r \<or> b = r" using finished.prems(3) c by (auto simp: crossed_only_by_def)
    with finished.hyps c opposite_None [OF finished.prems(1)] show False by (auto simp: crossing_def)
  qed
  then show ?case by (auto simp: uncrossed_def)
next
  case (more s b s')
  have "crossed_only_by r (matched r b s)"
    using more.prems(3) matched_crossing [OF more.prems(1,2) more.hyps(2)]
    by (auto simp: crossed_only_by_def matched_sel)
  with more.IH more.prems matched_wf [OF more.prems(1,2) more.hyps(1,2)] show ?case by (simp add: matched_sel)
qed

section \<open>Unique ids\<close>

lemma uniq_openD:
  assumes "uniq_open s" "wf_exchange ps s" "a < length (store s)" "b < length (store s)"
    "\<not> completed (ord_of s a)" "\<not> completed (ord_of s b)" "trader (ord_of s a) = trader (ord_of s b)"
    "order_id (ord_of s a) = order_id (ord_of s b)" "order_type (ord_of s a) = order_type (ord_of s b)"
  shows "a = b"
  using assms unfolding uniq_open_def wf_book [OF assms(2)] by simp

lemma uniq_openI:
  assumes "wf_exchange ps s"
    and "\<And>a b. a < length (store s) \<Longrightarrow> b < length (store s) \<Longrightarrow> \<not> completed (ord_of s a) \<Longrightarrow> \<not> completed (ord_of s b) \<Longrightarrow>
      trader (ord_of s a) = trader (ord_of s b) \<Longrightarrow> order_id (ord_of s a) = order_id (ord_of s b) \<Longrightarrow>
      order_type (ord_of s a) = order_type (ord_of s b) \<Longrightarrow> a = b"
  shows "uniq_open s"
  unfolding uniq_open_def wf_book [OF assms(1)]
proof (intro allI impI, elim conjE)
  fix a b assume "a \<in> set [0..<length (store s)]" "b \<in> set [0..<length (store s)]" "owner_id s a = owner_id s b"
    and c: "\<not> completed (ord_of s a)" "\<not> completed (ord_of s b)" "order_id (ord_of s a) = order_id (ord_of s b)"
    "order_type (ord_of s a) = order_type (ord_of s b)"
  then have ab: "a < length (store s)" "b < length (store s)" and "trader (ord_of s a) = trader (ord_of s b)"
    using wf_traderD(1) [OF assms(1) wf_orderD(2) [OF assms(1)]] by simp_all
  with assms(2) [OF ab c(1,2)] c show "a = b" by simp
qed

lemma matched_uniq:
  assumes "wf_exchange ps s" "r < length (store s)" "\<not> completed (ord_of s r)" "opposite s r = Some b" "uniq_open s"
  shows "uniq_open (matched r b s)"
proof (rule uniq_openI [OF matched_wf [OF assms(1-4)]])
  note mo = matched_ord [OF assms(2) opposite_open(1,4) [OF assms(1,4)]]
  fix a c assume "a < length (store (matched r b s))" "c < length (store (matched r b s))"
    "\<not> completed (ord_of (matched r b s) a)" "\<not> completed (ord_of (matched r b s) c)"
    "trader (ord_of (matched r b s) a) = trader (ord_of (matched r b s) c)"
    "order_id (ord_of (matched r b s) a) = order_id (ord_of (matched r b s) c)"
    "order_type (ord_of (matched r b s) a) = order_type (ord_of (matched r b s) c)"
  moreover have "length (store (matched r b s)) = length (store s)" by (simp add: matched_sel(1))
  ultimately show "a = c"
    using uniq_openD [OF assms(5,1), of a c] by (simp add: mo split: if_splits)
qed

lemma opposite_best:
  assumes "wf_exchange ps s" "uniq_open s"
  shows "opposite s r = Some b \<longleftrightarrow>
    (case order_type (ord_of s r) of
       BUY \<Rightarrow> best_sell s (item (ord_of s r)) (unit_price (ord_of s r)) b
     | SELL \<Rightarrow> best_buy s (item (ord_of s r)) (unit_price (ord_of s r)) b)"
  using getBestSell_uniq [OF assms] getBestBuy_uniq [OF assms] by (simp add: opposite_def split: order_type.split)

lemma opposite_item:
  assumes "wf_exchange ps s" "uniq_open s" "opposite s r = Some b"
  shows "item (ord_of s b) = item (ord_of s r)"
  using assms(3) open_orders_set [OF assms(1)]
  by (auto simp: opposite_best [OF assms(1,2)] best_sell_def best_buy_def split: order_type.splits)

lemma matches_uniq:
  assumes "matches r s s'" "wf_exchange ps s" "r < length (store s)" "uniq_open s"
  shows "uniq_open s' \<and> 2 ^ 32 dvd total_stock p s' - total_stock p s"
  using assms
proof (induction rule: matches.induct)
  case (finished s)
  then show ?case by simp
next
  case (more s b s')
  have "2 ^ 32 dvd total_stock p (matched r b s) - total_stock p s"
    using more.prems opposite_open(1) [OF more.prems(1) more.hyps(2)] opposite_item [OF more.prems(1,3) more.hyps(2)]
    by (intro matched_stock) auto
  moreover have "uniq_open s' \<and> 2 ^ 32 dvd total_stock p s' - total_stock p (matched r b s)"
    using more.IH more.prems matched_wf [OF more.prems(1,2) more.hyps(1,2)]
      matched_uniq [OF more.prems(1,2) more.hyps(1,2) more.prems(3)] by (simp add: matched_sel)
  ultimately show ?case using dvd_add by fastforce
qed

section \<open>Orders and cancellations\<close>

definition exchange_inv :: "string list \<Rightarrow> exchange \<Rightarrow> bool" where
  "exchange_inv ps s \<longleftrightarrow> wf_exchange ps s \<and> uncrossed s"

lemma newOrder_valid:
  "newOrder_fields argv s t ty = Some x \<Longrightarrow> argv ! 2 \<in> set ps \<Longrightarrow> valid_order ps t x"
  using newOrder_fields_valid [of argv s t ty x] by (simp add: valid_order_def)

lemma handle_order_None:
  "newOrder_fields argv s t (order_type_of (argv ! 0)) = None \<Longrightarrow>
     handle_order e ps argv t pid s = Inr (reject e s t pid, s)"
  by (simp add: handle_order_def newOrder_def)

lemma handle_order_eq:
  assumes wf: "wf_exchange ps s" and mem: "memory_ok e"
    and x: "newOrder_fields argv s t (order_type_of (argv ! 0)) = Some x"
  shows "handle_order e ps argv t pid s =
    bind_err (run_match (Suc (nat (quantity x))) e (length (store s)) (entered t x s))
      (\<lambda>(out, s'). Inr (notify e (fd_w (traders (entered t x s) ! t)) pid (''ACCEPTED '' @ show_int (order_id x) @ '';'') @
         broadcast e (entered t x s) t (market_text (argv ! 0) (item x) (quantity x) (unit_price x)) @
         out @ print_book s' ps, s'))"
proof -
  have s3: "upd_trader t (\<lambda>y. snd (traderAddOrder (orders_mem e) y (length (store s))))
    (snd (marketAddOrder (book_mem e) (length (store s)) (s\<lparr>store := store s @ [x]\<rparr>))) = entered t x s"
    using mem entered_eq [OF wf] by (simp add: memory_ok_def)
  have o: "ord_of (entered t x s) (length (store s)) = x\<lparr>order_index := int (length (store s))\<rparr>"
    by (simp add: entered_sel)
  show ?thesis
    unfolding handle_order_def newOrder_def alloc_order_def x option.case Let_def prod.case s3 o run_match_def
    by (simp split: prod.split)
qed

lemma handle_order_Some:
  assumes wf: "wf_exchange ps s" and t: "t < length (traders s)" and mem: "memory_ok e"
    and x: "newOrder_fields argv s t (order_type_of (argv ! 0)) = Some x" and item: "argv ! 2 \<in> set ps"
  shows "\<exists>out s'. handle_order e ps argv t pid s = Inr (out, s') \<and> matches (length (store s)) (entered t x s) s'"
proof -
  have "wf_exchange ps (entered t x s)" using entered_wf [OF wf t newOrder_valid [OF x item]] .
  then obtain out s' where "run_match (Suc (nat (quantity x))) e (length (store s)) (entered t x s) = Inr (out, s')"
      "matches (length (store s)) (entered t x s) s'"
    using run_match_terminates [OF _ _ mem, of ps "entered t x s" "length (store s)" "Suc (nat (quantity x))"]
    by (auto simp: entered_sel)
  then show ?thesis by (auto simp: handle_order_eq [OF wf mem x])
qed

lemma entered_crossed:
  assumes "uncrossed s"
  shows "crossed_only_by (length (store s)) (entered t x s)"
  using assms by (auto simp: crossed_only_by_def uncrossed_def crossing_def entered_sel nth_append)

lemma entered_totals:
  assumes "t < length (traders s)"
  shows "total_cash (entered t x s) = total_cash s" "total_stock p (entered t x s) = total_stock p s"
proof -
  have "map cash (traders (entered t x s)) = map cash (traders s)" "map (stock p) (traders (entered t x s)) = map (stock p) (traders s)"
    by (auto intro!: nth_equalityI simp: entered_sel entered_trader [OF assms])
  then show "total_cash (entered t x s) = total_cash s" "total_stock p (entered t x s) = total_stock p s"
    by (simp_all add: total_cash_def total_stock_def entered_sel del: map_map)
qed

lemma entered_uniq:
  assumes wf: "wf_exchange ps s" and t: "t < length (traders s)" and x: "valid_order ps t x" and uq: "uniq_open s"
    and fresh: "\<forall>r<length (store s). trader (ord_of s r) = t \<longrightarrow> order_id (ord_of s r) \<noteq> order_id x"
  shows "uniq_open (entered t x s)"
proof (rule uniq_openI [OF entered_wf [OF wf t x]])
  fix a b
  assume "a < length (store (entered t x s))" "b < length (store (entered t x s))"
    "\<not> completed (ord_of (entered t x s) a)" "\<not> completed (ord_of (entered t x s) b)"
    "trader (ord_of (entered t x s) a) = trader (ord_of (entered t x s) b)"
    "order_id (ord_of (entered t x s) a) = order_id (ord_of (entered t x s) b)"
    "order_type (ord_of (entered t x s) a) = order_type (ord_of (entered t x s) b)"
  moreover have "trader x = t \<and> \<not> completed x \<and> item x \<in> set ps" using x by (simp add: valid_order_def)
  ultimately show "a = b"
    using uniq_openD [OF uq wf, of a b] fresh
    by (auto simp: entered_sel nth_append less_Suc_eq split: if_splits)
qed

text \<open>Closing an open order.\<close>

lemma close_sel:
  assumes "r < length (store s)"
  shows "order_type (ord_of (closeOrder r s) q) = order_type (ord_of s q)" "item (ord_of (closeOrder r s) q) = item (ord_of s q)"
    "quantity (ord_of (closeOrder r s) q) = quantity (ord_of s q)" "unit_price (ord_of (closeOrder r s) q) = unit_price (ord_of s q)"
    "trader (ord_of (closeOrder r s) q) = trader (ord_of s q)" "order_id (ord_of (closeOrder r s) q) = order_id (ord_of s q)"
    "order_index (ord_of (closeOrder r s) q) = order_index (ord_of s q)"
    "completed (ord_of (closeOrder r s) q) = (completed (ord_of s q) \<or> q = r)"
  using assms by (auto simp: ord_closeOrder)

lemma close_wf:
  assumes "wf_exchange ps s" "r < length (store s)"
  shows "wf_exchange ps (closeOrder r s)"
  using assms
  by (auto simp: wf_exchange_def wf_market_def wf_order_def wf_trader_def registered_def close_sel [OF assms(2)])

lemma close_crossing: "r < length (store s) \<Longrightarrow> crossing (closeOrder r s) a b \<Longrightarrow> crossing s a b \<and> a \<noteq> r \<and> b \<noteq> r"
  by (auto simp: crossing_def close_sel)

lemma close_uniq:
  assumes "wf_exchange ps s" "r < length (store s)" "uniq_open s"
  shows "uniq_open (closeOrder r s)"
  using assms uniq_openD [OF assms(3,1)] by (intro uniq_openI [OF close_wf]) (auto simp: close_sel)

lemma close_totals:
  "total_cash (closeOrder r s) = total_cash s" "total_stock p (closeOrder r s) = total_stock p s"
  by (simp_all add: total_cash_def total_stock_def)

lemma getOrder_member:
  assumes "wf_exchange ps s" "t < length (traders s)" "getOrder t oid s = Some r"
  shows "r < length (store s)" "trader (ord_of s r) = t" "order_id (ord_of s r) = oid"
  using find_Some_prop [OF assms(3) [unfolded getOrder_def]] assms(1,2)
  by (auto simp: wf_exchange_def wf_trader_def)

lemma handle_cancel_cases:
  assumes "wf_exchange ps s" "t < length (traders s)"
  shows "\<exists>out. handle_cancel e ps argv t pid s = Inr (out, s) \<or>
    (\<exists>r. isNumeric (argv ! 1) \<and> getOrder t (atoi (argv ! 1)) s = Some r \<and> r < length (store s) \<and> \<not> completed (ord_of s r) \<and>
       handle_cancel e ps argv t pid s = Inr (out, closeOrder r s))"
  using getOrder_member(1) [OF assms]
  by (cases "isNumeric (argv ! 1)"; cases "getOrder t (atoi (argv ! 1)) s")
    (auto simp: handle_cancel_def Let_def)

section \<open>Amendments\<close>

definition amended :: "tref \<Rightarrow> oref \<Rightarrow> order_struct \<Rightarrow> exchange \<Rightarrow> exchange" where
  "amended t r x s = closeOrder r (traderAmendOrder t (length (store s))
     (snd (marketAddOrder True (length (store s)) (s\<lparr>store := store s @ [x]\<rparr>))))"

lemma amend_loop_result:
  assumes "memory_ok e"
  shows "amend_loop e argv oid t rs s = (1, s) \<or>
    (\<exists>pre r post x. rs = pre @ r # post \<and> (\<forall>q\<in>set pre. \<not> (order_id (ord_of s q) = oid \<and> owner_id s q = trader_id (traders s ! t)) \<or>
         newOrder_fields [side_text (order_type (ord_of s q)), argv ! 1, item (ord_of s q), argv ! 2, argv ! 3] s t
           (Some (order_type (ord_of s q))) = None) \<and>
       order_id (ord_of s r) = oid \<and> owner_id s r = trader_id (traders s ! t) \<and> \<not> completed (ord_of s r) \<and>
       newOrder_fields [side_text (order_type (ord_of s r)), argv ! 1, item (ord_of s r), argv ! 2, argv ! 3] s t
         (Some (order_type (ord_of s r))) = Some x \<and>
       amend_loop e argv oid t rs s = (0, amended t r x s))"
proof (induction rs)
  case Nil
  then show ?case by simp
next
  case (Cons r rs)
  let ?m = "order_id (ord_of s r) = oid \<and> owner_id s r = trader_id (traders s ! t)"
  let ?f = "newOrder_fields [side_text (order_type (ord_of s r)), argv ! 1, item (ord_of s r), argv ! 2, argv ! 3] s t
         (Some (order_type (ord_of s r)))"
  consider (skip) "\<not> ?m \<or> \<not> completed (ord_of s r) \<and> ?f = None" | (closed) "?m" "completed (ord_of s r)"
    | (hit) x where "?m" "\<not> completed (ord_of s r)" "?f = Some x" by (cases ?f) auto
  then show ?case
  proof cases
    case skip
    then have eq: "amend_loop e argv oid t (r # rs) s = amend_loop e argv oid t rs s"
      by (auto simp: newOrder_def split: prod.split)
    from Cons show ?thesis
    proof (elim disjE exE conjE)
      fix pre q post x assume "rs = pre @ q # post"
        "\<forall>q\<in>set pre. \<not> (order_id (ord_of s q) = oid \<and> owner_id s q = trader_id (traders s ! t)) \<or>
         newOrder_fields [side_text (order_type (ord_of s q)), argv ! 1, item (ord_of s q), argv ! 2, argv ! 3] s t
           (Some (order_type (ord_of s q))) = None"
        "order_id (ord_of s q) = oid" "owner_id s q = trader_id (traders s ! t)" "\<not> completed (ord_of s q)"
        "newOrder_fields [side_text (order_type (ord_of s q)), argv ! 1, item (ord_of s q), argv ! 2, argv ! 3] s t
         (Some (order_type (ord_of s q))) = Some x"
        "amend_loop e argv oid t rs s = (0, amended t q x s)"
      with eq skip show ?thesis
        by (intro disjI2 exI [of _ "r # pre"] exI [of _ q] exI [of _ post] exI [of _ x]) auto
    qed (use eq in simp)
  next
    case closed
    then show ?thesis by simp
  next
    case hit
    then show ?thesis
      using assms by (intro disjI2 exI [of _ "[]"] exI [of _ r] exI [of _ rs] exI [of _ x])
        (auto simp: newOrder_def alloc_order_def amended_def memory_ok_def)
  qed
qed

text \<open>Whether an amendment is accepted does not depend on which order of that id it is.\<close>

lemma newOrder_fields_amend:
  "newOrder_fields [w, a1, i, a2, a3] s t (Some k) =
     (if isNumeric a1 \<and> isNumeric a2 \<and> isNumeric a3 \<and> atoi a1 \<le> int (length (orders (traders s ! t))) \<and>
         0 < atoi a2 \<and> atoi a2 \<le> MAX_QUANTITY \<and> 0 < atoi a3 \<and> atoi a3 \<le> MAX_UNIT_PRICE
      then Some \<lparr>order_type = k, item = i, quantity = atoi a2, unit_price = atoi a3, trader = t,
             order_id = atoi a1, order_index = - 1, completed = False\<rparr> else None)"
  by (simp add: newOrder_fields_def Let_def not_le not_less)

lemma amended_sel:
  assumes "orderbook (market s) = [0..<length (store s)]" and "r < length (store s)"
  shows "store (amended t r x s) = (store s)[r := (ord_of s r)\<lparr>completed := True\<rparr>] @ [x\<lparr>order_index := int (length (store s))\<rparr>]"
    "traders (amended t r x s) = (traders s)[t := (traders s ! t)\<lparr>orders :=
       map (\<lambda>q. if order_id ((store s @ [x\<lparr>order_index := int (length (store s))\<rparr>]) ! q) = order_id x then length (store s) else q) (orders (traders s ! t))\<rparr>]"
    "market (amended t r x s) = (market s)\<lparr>orderbook := orderbook (market s) @ [length (store s)],
       orderbook_cap := (if length (store s) \<ge> INITIAL_CAPACITY then length (store s) + 1 else orderbook_cap (market s))\<rparr>"
  using assms(2)
  by (simp_all add: amended_def marketAddOrder_True [OF assms(1)] closeOrder_def traderAmendOrder_def upd_order_def upd_trader_def
      nth_append list_update_append1)

lemma amended_ord:
  assumes "orderbook (market s) = [0..<length (store s)]" and "r < length (store s)"
  shows "q < length (store s) \<Longrightarrow> ord_of (amended t r x s) q = (if q = r then (ord_of s r)\<lparr>completed := True\<rparr> else ord_of s q)"
    and "ord_of (amended t r x s) (length (store s)) = x\<lparr>order_index := int (length (store s))\<rparr>"
    and "length (store (amended t r x s)) = Suc (length (store s))"
  using assms(2) by (auto simp: amended_sel [OF assms] nth_append)

lemma amended_trader:
  assumes b: "orderbook (market s) = [0..<length (store s)]" and r: "r < length (store s)" and t: "t < length (traders s)"
  shows "trader_id (traders (amended t r x s) ! u) = trader_id (traders s ! u)"
    "inventory_products (traders (amended t r x s) ! u) = inventory_products (traders s ! u)"
    "wf_account (traders (amended t r x s) ! u) = wf_account (traders s ! u)"
    "cash (traders (amended t r x s) ! u) = cash (traders s ! u)"
    "stock p (traders (amended t r x s) ! u) = stock p (traders s ! u)"
    "orders_cap (traders (amended t r x s) ! u) = orders_cap (traders s ! u)"
    "length (orders (traders (amended t r x s) ! u)) = length (orders (traders s ! u))"
    "u \<noteq> t \<Longrightarrow> traders (amended t r x s) ! u = traders s ! u"
    "orders (traders (amended t r x s) ! t) =
       map (\<lambda>q. if order_id ((store s @ [x\<lparr>order_index := int (length (store s))\<rparr>]) ! q) = order_id x then length (store s) else q) (orders (traders s ! t))"
    "length (traders (amended t r x s)) = length (traders s)"
  using t by (simp_all add: amended_sel [OF b r] nth_list_update wf_account_def cash_def stock_def split: option.split)

lemma amended_wf:
  assumes wf: "wf_exchange ps s" and r: "r < length (store s)" and t: "t < length (traders s)"
    and x: "valid_order ps t x" and rt: "trader (ord_of s r) = t" "order_id (ord_of s r) = order_id x"
  shows "wf_exchange ps (amended t r x s)"
proof -
  let ?n = "length (store s)"
  note b = wf_book [OF wf]
  note ao = amended_ord [OF b r, where t = t and x = x] and tr = amended_trader [OF b r t, where x = x]
  have own: "q < ?n \<and> trader (ord_of s q) = u" if "u < length (traders s)" "q \<in> set (orders (traders s ! u))" for u q
    using wf that by (auto simp: wf_exchange_def wf_trader_def)
  have ot: "orders (traders (amended t r x s) ! t) = map (\<lambda>q. if order_id (ord_of s q) = order_id x then ?n else q) (orders (traders s ! t))"
    using own [OF t] by (auto simp: tr(9) nth_append)
  have reg: "\<exists>q\<in>set (orders (traders s ! trader (ord_of s c))). order_id (ord_of s q) = order_id (ord_of s c)" if "c < ?n" for c
    using wf that by (auto simp: wf_exchange_def registered_def)
  have n_in: "?n \<in> set (orders (traders (amended t r x s) ! t))"
  proof -
    obtain q where "q \<in> set (orders (traders s ! t))" "order_id (ord_of s q) = order_id x" using reg [OF r] rt by auto
    then show ?thesis unfolding ot set_map by (intro image_eqI [of _ _ q]) simp_all
  qed
  have "registered (amended t r x s) c" if c: "c < ?n" for c
  proof -
    obtain q where q: "q \<in> set (orders (traders s ! trader (ord_of s c)))" "order_id (ord_of s q) = order_id (ord_of s c)"
      using reg [OF c] by blast
    have qn: "q < ?n" using own [OF wf_orderD(2) [OF wf c] q(1)] by simp
    show ?thesis
    proof (cases "trader (ord_of s c) = t")
      case True
      show ?thesis
      proof (cases "order_id (ord_of s c) = order_id x")
        case oid: True
        with True n_in c show ?thesis
          unfolding registered_def by (intro bexI [of _ ?n]) (auto simp: ao)
      next
        case False
        with q True have "q \<in> set (orders (traders (amended t r x s) ! t))"
          unfolding ot set_map by (intro image_eqI [of _ _ q]) simp_all
        with True q qn c show ?thesis
          unfolding registered_def by (intro bexI [of _ q]) (auto simp: ao)
      qed
    next
      case False
      with q qn c show ?thesis unfolding registered_def by (intro bexI [of _ q]) (auto simp: ao tr(8))
    qed
  qed
  moreover have "registered (amended t r x s) ?n"
    using n_in x unfolding registered_def by (intro bexI [of _ ?n]) (simp_all add: ao valid_order_def)
  moreover have "wf_order ps (amended t r x s) c" if "c < Suc ?n" for c
  proof (cases "c = ?n")
    case True
    with x t show ?thesis by (simp add: wf_order_def ao valid_order_def tr(10))
  next
    case False
    with that wf_orderD [OF wf, of c] wf_order_id [OF wf, of c] show ?thesis by (auto simp: wf_order_def ao tr(10))
  qed
  moreover have "wf_trader ps (amended t r x s) u" if u: "u < length (traders s)" for u
  proof -
    have "q < Suc ?n \<and> trader (ord_of (amended t r x s) q) = u" if "q \<in> set (orders (traders (amended t r x s) ! u))" for q
    proof (cases "u = t")
      case True
      have "trader (ord_of (amended t r x s) ?n) = t" using x by (simp add: ao valid_order_def)
      moreover have "trader (ord_of (amended t r x s) q) = t" if "q \<in> set (orders (traders s ! t))"
        using own [OF t that] by (auto simp: ao)
      ultimately show ?thesis using that own [OF t, of q] True by (auto simp: ot less_SucI)
    next
      case False
      with that own [OF u, of q] show ?thesis by (auto simp: tr(8) ao)
    qed
    with wf u show ?thesis by (simp add: wf_exchange_def wf_trader_def tr(1-3,6,7) ao(3))
  qed
  moreover have "wf_market (amended t r x s)"
    using wf by (auto simp: wf_exchange_def wf_market_def amended_sel [OF b r] INITIAL_CAPACITY_def)
  ultimately show ?thesis using wf by (simp add: wf_exchange_def ao(3) tr(10) less_Suc_eq)
qed

lemma amended_crossed:
  assumes wf: "wf_exchange ps s" and r: "r < length (store s)" and "uncrossed s"
  shows "crossed_only_by (length (store s)) (amended t r x s)"
  using assms(3) amended_ord [OF wf_book [OF wf] r, where t = t and x = x]
  by (auto simp: crossed_only_by_def uncrossed_def crossing_def less_Suc_eq split: if_splits)

lemma amended_totals:
  assumes wf: "wf_exchange ps s" and r: "r < length (store s)" and t: "t < length (traders s)"
  shows "total_cash (amended t r x s) = total_cash s" "total_stock p (amended t r x s) = total_stock p s"
proof -
  note tr = amended_trader [OF wf_book [OF wf] r t]
  have "map cash (traders (amended t r x s)) = map cash (traders s)" "map (stock p) (traders (amended t r x s)) = map (stock p) (traders s)"
    by (auto intro!: nth_equalityI simp: tr)
  then show "total_cash (amended t r x s) = total_cash s" "total_stock p (amended t r x s) = total_stock p s"
    by (simp_all add: total_cash_def total_stock_def amended_sel [OF wf_book [OF wf] r] del: map_map)
qed

lemma amended_uniq:
  assumes wf: "wf_exchange ps s" and r: "r < length (store s)" and t: "t < length (traders s)"
    and x: "valid_order ps t x" and rt: "trader (ord_of s r) = t" "order_id (ord_of s r) = order_id x"
    and "order_type (ord_of s r) = order_type x" "\<not> completed (ord_of s r)" and uq: "uniq_open s"
  shows "uniq_open (amended t r x s)"
proof (rule uniq_openI [OF amended_wf [OF wf r t x rt]])
  let ?n = "length (store s)" and ?s = "amended t r x s"
  note ao = amended_ord [OF wf_book [OF wf] r, where t = t and x = x]
  have new: "b = ?n" if "b < Suc ?n" "\<not> completed (ord_of ?s b)" "trader (ord_of ?s b) = t"
    "order_id (ord_of ?s b) = order_id x" "order_type (ord_of ?s b) = order_type x" for b
  proof (rule ccontr)
    assume "b \<noteq> ?n"
    with that have "b < ?n" "b \<noteq> r" by (auto simp: ao)
    with that uniq_openD [OF uq wf r, of b] assms(5-8) show False by (simp add: ao)
  qed
  fix a b
  assume ab: "a < length (store ?s)" "b < length (store ?s)" "\<not> completed (ord_of ?s a)" "\<not> completed (ord_of ?s b)"
    "trader (ord_of ?s a) = trader (ord_of ?s b)" "order_id (ord_of ?s a) = order_id (ord_of ?s b)"
    "order_type (ord_of ?s a) = order_type (ord_of ?s b)"
  have x': "trader (ord_of ?s ?n) = t" "order_id (ord_of ?s ?n) = order_id x" "order_type (ord_of ?s ?n) = order_type x"
    using x by (simp_all add: ao valid_order_def)
  consider "a = ?n" | "b = ?n" | "a < ?n" "b < ?n" using ab(1,2) ao(3) by linarith
  then show "a = b"
  proof cases
    case 1
    then show ?thesis using new [of b] ab x' ao(3) by metis
  next
    case 2
    then show ?thesis using new [of a] ab x' ao(3) by metis
  next
    case 3
    with ab uniq_openD [OF uq wf 3] show ?thesis by (simp add: ao split: if_splits)
  qed
qed

text \<open>The trader's entry for the id is the new order.\<close>

lemma getOrder_amended:
  assumes wf: "wf_exchange ps s" and r: "r < length (store s)" and t: "t < length (traders s)"
    and x: "valid_order ps t x" and rt: "trader (ord_of s r) = t" "order_id (ord_of s r) = order_id x"
  shows "getOrder t (order_id x) (amended t r x s) = Some (length (store s))"
proof -
  let ?n = "length (store s)"
  note ao = amended_ord [OF wf_book [OF wf] r, where t = t and x = x]
  have wf': "wf_exchange ps (amended t r x s)" by (rule amended_wf [OF assms])
  have t': "t < length (traders (amended t r x s))" using t by (simp add: amended_trader [OF wf_book [OF wf] r t])
  have "trader (ord_of (amended t r x s) r) = t" "order_id (ord_of (amended t r x s) r) = order_id x"
    using rt r by (simp_all add: ao)
  moreover have "registered (amended t r x s) r" using wf' r by (simp add: wf_exchange_def ao(3))
  ultimately have "\<exists>q\<in>set (orders (traders (amended t r x s) ! t)). order_id (ord_of (amended t r x s) q) = order_id x"
    by (simp add: registered_def)
  then obtain q' where "q' \<in> set (orders (traders (amended t r x s) ! t))" "order_id (ord_of (amended t r x s) q') = order_id x"
    by blast
  from find_exists [OF this(1), of "\<lambda>q. order_id (ord_of (amended t r x s) q) = order_id x", OF this(2)]
  obtain q where q: "getOrder t (order_id x) (amended t r x s) = Some q" by (auto simp: getOrder_def)
  from find_Some_prop [OF q [unfolded getOrder_def]]
  obtain c where c: "c \<in> set (orders (traders s ! t))" and oq: "order_id (ord_of (amended t r x s) q) = order_id x"
    and "q = (if order_id ((store s @ [x\<lparr>order_index := int ?n\<rparr>]) ! c) = order_id x then ?n else c)"
    by (auto simp: amended_trader(9) [OF wf_book [OF wf] r t])
  moreover have "c < ?n" using c wf t by (auto simp: wf_exchange_def wf_trader_def)
  ultimately have "q = ?n" using ao by (auto simp: nth_append split: if_splits)
  with q show ?thesis by simp
qed

lemma amend_cases:
  assumes wf: "wf_exchange ps s" and t: "t < length (traders s)" and mem: "memory_ok e"
  obtains "amend e argv t s = (1, s)"
  | r x where "amend e argv t s = (0, amended t r x s)" "r < length (store s)" "trader (ord_of s r) = t"
      "order_id (ord_of s r) = atoi (argv ! 1)" "\<not> completed (ord_of s r)" "valid_order ps t x"
      "order_type x = order_type (ord_of s r)" "item x = item (ord_of s r)" "order_id x = atoi (argv ! 1)"
      "quantity x = atoi (argv ! 2)" "unit_price x = atoi (argv ! 3)"
      "\<forall>q<r. \<not> (trader (ord_of s q) = t \<and> order_id (ord_of s q) = atoi (argv ! 1))"
proof (cases "amend e argv t s = (1, s)")
  case True
  then show thesis by (rule that(1))
next
  case False
  then have num: "isNumeric (argv ! 1)" "isNumeric (argv ! 2)" "isNumeric (argv ! 3)"
    and am: "amend e argv t s = amend_loop e argv (atoi (argv ! 1)) t (orderbook (market s)) s"
    by (auto simp: amend_def Let_def split: if_splits)
  have own: "owner_id s q = trader_id (traders s ! t) \<longleftrightarrow> trader (ord_of s q) = t" if "q < length (store s)" for q
    using wf_traderD(1) [OF wf] wf_orderD(2) [OF wf that] t by auto
  from amend_loop_result [OF mem, of argv "atoi (argv ! 1)" t "orderbook (market s)" s] False am
  obtain pre r post x where bk: "orderbook (market s) = pre @ r # post"
    and pre: "\<forall>q\<in>set pre. \<not> (order_id (ord_of s q) = atoi (argv ! 1) \<and> owner_id s q = trader_id (traders s ! t)) \<or>
         newOrder_fields [side_text (order_type (ord_of s q)), argv ! 1, item (ord_of s q), argv ! 2, argv ! 3] s t
           (Some (order_type (ord_of s q))) = None"
    and r: "order_id (ord_of s r) = atoi (argv ! 1)" "owner_id s r = trader_id (traders s ! t)" "\<not> completed (ord_of s r)"
      "newOrder_fields [side_text (order_type (ord_of s r)), argv ! 1, item (ord_of s r), argv ! 2, argv ! 3] s t
         (Some (order_type (ord_of s r))) = Some x"
      "amend e argv t s = (0, amended t r x s)" by auto
  have upt: "[0..<length (store s)] = pre @ r # post" using bk wf_book [OF wf] by simp
  then have pr: "pre = [0..<r]" and rn: "r < length (store s)" using upt_split by blast+
  have x: "x = \<lparr>order_type = order_type (ord_of s r), item = item (ord_of s r), quantity = atoi (argv ! 2), unit_price = atoi (argv ! 3),
      trader = t, order_id = atoi (argv ! 1), order_index = - 1, completed = False\<rparr>"
    and ok: "newOrder_fields [w, argv ! 1, i, argv ! 2, argv ! 3] s t (Some k) \<noteq> None" for w i k
    using r(4) by (simp_all add: newOrder_fields_amend split: if_splits)
  have v: "valid_order ps t x"
    using r(4) wf_orderD(3) [OF wf rn] by (intro newOrder_valid) auto
  have first: "\<forall>q<r. \<not> (trader (ord_of s q) = t \<and> order_id (ord_of s q) = atoi (argv ! 1))"
  proof (intro allI impI notI, elim conjE)
    fix q assume q: "q < r" "trader (ord_of s q) = t" "order_id (ord_of s q) = atoi (argv ! 1)"
    then have "owner_id s q = trader_id (traders s ! t)" using own [of q] rn by simp
    moreover have "q \<in> set pre" using q by (simp add: pr)
    ultimately show False using pre q(3) ok by blast
  qed
  show thesis
    by (rule that(2) [OF r(5) rn _ r(1,3) v _ _ _ _ _ first]) (use r(2) own [OF rn] x in simp_all)
qed

text \<open>The closed order stays in front of its replacement, so a second amendment of the same id fails.\<close>

lemma amend_loop_closed:
  assumes "\<forall>q\<in>set pre. \<not> (order_id (ord_of s q) = oid \<and> owner_id s q = trader_id (traders s ! t))"
    and "order_id (ord_of s r) = oid" "owner_id s r = trader_id (traders s ! t)" "completed (ord_of s r)"
  shows "amend_loop e argv oid t (pre @ r # post) s = (1, s)"
  using assms by (induction pre) auto

lemma amend_twice:
  assumes wf: "wf_exchange ps s" and t: "t < length (traders s)" and mem: "memory_ok e"
    and am: "amend e argv t s = (0, s')" and same: "atoi (argv' ! 1) = atoi (argv ! 1)"
  shows "amend e' argv' t s' = (1, s')"
proof -
  obtain r x where s': "s' = amended t r x s" and r: "r < length (store s)" "trader (ord_of s r) = t" "order_id (ord_of s r) = atoi (argv ! 1)"
    and v: "valid_order ps t x" and ox: "order_id x = atoi (argv ! 1)"
    and first: "\<forall>q<r. \<not> (trader (ord_of s q) = t \<and> order_id (ord_of s q) = atoi (argv ! 1))"
    using am by (cases rule: amend_cases [OF wf t mem, of argv]) auto
  note ao = amended_ord [OF wf_book [OF wf] r(1), where t = t and x = x]
  have wf': "wf_exchange ps s'" using amended_wf [OF wf r(1) t v r(2)] r(3) ox s' by simp
  have t': "t < length (traders s')" using t by (simp add: s' amended_trader(10) [OF wf_book [OF wf] r(1) t])
  have own: "owner_id s' q = trader_id (traders s' ! t) \<longleftrightarrow> trader (ord_of s' q) = t" if "q < length (store s')" for q
    using wf_traderD(1) [OF wf'] wf_orderD(2) [OF wf' that] t' by auto
  have bk: "orderbook (market s') = [0..<r] @ r # [Suc r..<length (store s')]"
    using wf_book [OF wf'] r(1) upt_add_eq_append [of 0 r "length (store s') - r"] by (simp add: s' ao(3) upt_conv_Cons)
  have "amend_loop e' argv' (atoi (argv' ! 1)) t (orderbook (market s')) s' = (1, s')"
    unfolding bk
  proof (rule amend_loop_closed)
    show "\<forall>q\<in>set [0..<r]. \<not> (order_id (ord_of s' q) = atoi (argv' ! 1) \<and> owner_id s' q = trader_id (traders s' ! t))"
    proof
      fix q assume "q \<in> set [0..<r]"
      then have q: "q < r" by simp
      with r(1) have "trader (ord_of s' q) = trader (ord_of s q)" "order_id (ord_of s' q) = order_id (ord_of s q)"
        "q < length (store s')" by (simp_all add: s' ao)
      with first q own [of q] same show "\<not> (order_id (ord_of s' q) = atoi (argv' ! 1) \<and> owner_id s' q = trader_id (traders s' ! t))"
        by auto
    qed
    show "order_id (ord_of s' r) = atoi (argv' ! 1)" "owner_id s' r = trader_id (traders s' ! t)" "completed (ord_of s' r)"
      using own [of r] r same by (auto simp: s' ao)
  qed
  then show ?thesis by (simp add: amend_def Let_def)
qed

end
