(* ===== verification/Ex_Main.thy ===== *)
theory Ex_Main
  imports Ex_Invariant
begin

text \<open>
  \<open>main\<close> of \<open>pe_exchange.c\<close>: reading the products, starting the traders, and the event loop
  with the queue of signals that \<open>sig_handler\<close> fills. The children's side of \<open>fork\<close> and the
  release of memory at the end have no counterpart; what the operating system answers is an
  argument.
\<close>

section \<open>The products file\<close>

definition BUFFER_WRITE :: nat where "BUFFER_WRITE = 128"
definition COMMAND_ARGC :: nat where "COMMAND_ARGC = 6"
definition MAX_SIGNALS :: nat where "MAX_SIGNALS = 100"

definition read_products :: "nat \<Rightarrow> string \<Rightarrow> fault + string list" where
  "read_products n inp = read_lines (BUFFER_READ - 1) n inp"

definition product_banner :: "int \<Rightarrow> string list \<Rightarrow> string" where
  "product_banner n ps =
     LOG_PREFIX @ '' Trading '' @ show_int n @ '' products:'' @ concat (map (\<lambda>p. CHR '' '' # p) ps)"

text \<open>The banner is built in a buffer of \<open>product_count * BUFFER_READ\<close> bytes.\<close>

definition banner_fits :: "int \<Rightarrow> string list \<Rightarrow> bool" where
  "banner_fits n ps \<longleftrightarrow> int (length (product_banner n ps)) + 1 \<le> n * int BUFFER_READ"

definition load_products :: "string \<Rightarrow> fault + string \<times> string list" where
  "load_products content =
     (let (l, rest) = (case fgets (BUFFER_READ - 1) content of None \<Rightarrow> ([], content) | Some x \<Rightarrow> x);
          n = atoi (cut_at NL (cstr l)) in
      bind_err (read_products (nat n) rest)
        (\<lambda>ps. if banner_fits n ps then Inr (product_banner n ps, ps) else Inl BufferOverrun))"

section \<open>Starting the traders\<close>

text \<open>
  The answers of the operating system while the exchange starts: the content of the products
  file, whether \<open>sigaction\<close> succeeds, the result of each \<open>fork\<close> and \<open>open\<close>, whether a write
  succeeds, and what the memory of \<open>buffer_read\<close> holds before it is first written.
\<close>

record os =
  products_file :: "string option"
  sigaction_ok :: bool
  fork_pid :: "nat \<Rightarrow> int"
  open_w :: "nat \<Rightarrow> int"
  open_r :: "nat \<Rightarrow> int"
  os_write_ok :: "int \<Rightarrow> string \<Rightarrow> bool"
  raw_buffer :: string

definition fifo_exchange :: "int \<Rightarrow> string" where "fifo_exchange i = ''/tmp/pe_exchange_'' @ show_int i"
definition fifo_trader :: "int \<Rightarrow> string" where "fifo_trader i = ''/tmp/pe_trader_'' @ show_int i"

definition new_trader :: "string list \<Rightarrow> nat \<Rightarrow> string \<Rightarrow> trader_struct" where
  "new_trader ps i nm = (inst_trader nm (int i) (length ps) ps)
     \<lparr>exc2trader := fifo_exchange (int i), trader2exc := fifo_trader (int i)\<rparr>"

definition start_text :: "trader_struct \<Rightarrow> effect list" where
  "start_text t =
     [Print (LOG_PREFIX @ '' Created FIFO '' @ exc2trader t @ [NL]),
      Print (LOG_PREFIX @ '' Created FIFO '' @ trader2exc t @ [NL]),
      Print (LOG_PREFIX @ '' Starting trader '' @ show_int (trader_id t) @ '' ('' @ name t @ '')'' @ [NL])]"

definition connect_text :: "trader_struct \<Rightarrow> effect list" where
  "connect_text t =
     [Print (LOG_PREFIX @ '' Connected to '' @ exc2trader t @ [NL]),
      Print (LOG_PREFIX @ '' Connected to '' @ trader2exc t @ [NL])]"

text \<open>The loop that forks the traders; a failing \<open>fork\<close> ends the program.\<close>

fun start_traders :: "os \<Rightarrow> nat \<Rightarrow> trader_struct list \<Rightarrow> effect list \<times> trader_struct list option" where
  "start_traders w i [] = ([], Some [])"
| "start_traders w i (t # ts) =
     (if fork_pid w i < 0 then (start_text t, None)
      else let t' = t\<lparr>trader_pid := fork_pid w i, fd_w := open_w w i, fd_r := open_r w i\<rparr>;
               (out, r) = start_traders w (Suc i) ts
           in (start_text t @ connect_text t @ out, map_option (\<lambda>us. t' # us) r))"

definition market_open :: "os \<Rightarrow> trader_struct list \<Rightarrow> effect list" where
  "market_open w ts =
     concat (map (\<lambda>t. (if os_write_ok w (fd_w t) ''MARKET OPEN;'' then [Write (fd_w t) ''MARKET OPEN;'']
                       else [Print (''write failed: '' @ show_int (fd_w t) @ [NL])]) @ [Kill (trader_pid t)]) ts)"

section \<open>State of the event loop\<close>

record loop_state =
  ex :: exchange
  products :: "string list"
  market_argv :: "string list"
  buffer_read :: string
  signal_array :: "int list"   \<comment> \<open>the \<open>signal_count\<close> entries in use\<close>
  signal_cap :: nat            \<comment> \<open>\<open>sizeofSignalArray\<close>\<close>
  sig_ptr :: nat
  traders_online :: int
  exchange_disconnect :: bool

datatype startup = Exit int | Crash fault | Running loop_state

definition start_loop :: "os \<Rightarrow> string list \<Rightarrow> trader_struct list \<Rightarrow> loop_state" where
  "start_loop w ps ts =
     \<lparr>ex = \<lparr>store = [], traders = ts, market = inst_market\<rparr>, products = ps,
      market_argv = replicate COMMAND_ARGC [], buffer_read = raw_buffer w,
      signal_array = [], signal_cap = MAX_SIGNALS, sig_ptr = 0,
      traders_online = int (length ts), exchange_disconnect = False\<rparr>"

text \<open>\<open>args\<close> are \<open>argv[1]\<close>, the products file, and the trader programs.\<close>

definition main_start :: "os \<Rightarrow> string list \<Rightarrow> effect list \<times> startup" where
  "main_start w args =
     (let out = [Print (LOG_PREFIX @ '' Starting'' @ [NL])] in
      if args = [] then (out @ [Print (''Not enough arguments'' @ [NL])], Exit 1)
      else case products_file w of
        None \<Rightarrow> (out, Exit (- 1))
      | Some content \<Rightarrow>
          (case load_products content of
             Inl f \<Rightarrow> (out, Crash f)
           | Inr (banner, ps) \<Rightarrow>
               let out = out @ [Print (banner @ [NL])] in
               if \<not> sigaction_ok w then (out, Exit 1)
               else
                 let ts = map (\<lambda>(i, nm). new_trader ps i nm) (enumerate 0 (tl args));
                     (out', r) = start_traders w 0 ts in
                 (case r of
                    None \<Rightarrow> (out @ out', Exit 1)
                  | Some us \<Rightarrow> (out @ out' @ market_open w us, Running (start_loop w ps us)))))"

section \<open>One round of the event loop\<close>

text \<open>A signal arrives: \<open>sig_handler\<close> stores the sender behind the others.\<close>

definition sig_handler :: "int \<Rightarrow> loop_state \<Rightarrow> fault + loop_state" where
  "sig_handler pid st =
     (if length (signal_array st) \<ge> signal_cap st then Inl BufferOverrun
      else Inr (st\<lparr>signal_array := signal_array st @ [pid]\<rparr>))"

text \<open>Signals that arrive one after the other.\<close>

fun deliver :: "int list \<Rightarrow> loop_state \<Rightarrow> fault + loop_state" where
  "deliver [] st = Inr st"
| "deliver (pid # pids) st = bind_err (sig_handler pid st) (deliver pids)"

text \<open>What one round gets from outside; the handler of signals also runs while a message is handled.\<close>

record input =
  in_env :: env
  in_bytes :: string          \<comment> \<open>what \<open>read\<close> delivers\<close>
  in_during :: "int list"     \<comment> \<open>senders of signals that interrupt the handling\<close>
  in_signal_mem :: bool       \<comment> \<open>\<open>realloc\<close> of the signal array\<close>
  in_wait :: "int \<times> bool"    \<comment> \<open>pid from \<open>waitpid\<close>, and \<open>WIFEXITED(status)\<close>\<close>

definition take_message :: "input \<Rightarrow> loop_state \<Rightarrow> fault + effect list \<times> loop_state" where
  "take_message inp st =
     bind_err (clear_cstr (buffer_read st)) (\<lambda>b0.
       let pid = signal_array st ! sig_ptr st in
       case find_trader (ex st) pid of
         None \<Rightarrow> Inl NullPointer
       | Some t \<Rightarrow>
           bind_err (cut_message (read_into (in_bytes inp) b0)) (\<lambda>b1.
             let msg = cstr b1;
                 hdr = Print (LOG_PREFIX @ '' [T'' @ show_int (trader_id (traders (ex st) ! t)) @
                              ''] Parsing command: <'' @ msg @ ''>'' @ [NL]);
                 (state, argv, out1) = read_message msg (market_argv st) (products st);
                 b2 = (if spacing_ok msg then null_spaces 7 b1 else b1) in
             bind_err (clear_cstr b2) (\<lambda>b3.
               bind_err (handle_message (in_env inp) (products st) state argv t pid (ex st)) (\<lambda>(out2, s').
                 bind_err (deliver (in_during inp)
                     (st\<lparr>ex := s', market_argv := argv, buffer_read := b3, sig_ptr := Suc (sig_ptr st)\<rparr>)) (\<lambda>st'.
                   let st'' = (if length (signal_array st') = signal_cap st' - 10 \<and> in_signal_mem inp
                               then st'\<lparr>signal_cap := signal_cap st' + MAX_SIGNALS\<rparr> else st')
                   in Inr (hdr # out1 @ out2, st''))))))"

text \<open>The traders with the pid of a child that has exited are taken off line.\<close>

fun reap_loop :: "int \<Rightarrow> nat list \<Rightarrow> loop_state \<Rightarrow> effect list \<times> loop_state" where
  "reap_loop pid [] st = ([], st)"
| "reap_loop pid (i # is) st =
     (let t = traders (ex st) ! i in
      if trader_pid t = pid then
        let st' = st\<lparr>ex := upd_trader i (\<lambda>t. t\<lparr>disconnected := True\<rparr>) (ex st), traders_online := traders_online st - 1\<rparr>;
            (out, st'') = reap_loop pid is st'
        in ([Print (LOG_PREFIX @ '' Trader '' @ show_int (int i) @ '' disconnected'' @ [NL]), Close (fd_r t), Close (fd_w t),
             Unlink (exc2trader t), Unlink (trader2exc t)] @ out, st'')
      else reap_loop pid is st)"

definition reap :: "int \<times> bool \<Rightarrow> loop_state \<Rightarrow> effect list \<times> loop_state" where
  "reap w st = (if snd w then reap_loop (fst w) [0..<length (traders (ex st))] st else ([], st))"

definition finish :: "loop_state \<Rightarrow> effect list \<times> loop_state" where
  "finish st =
     (if traders_online st = 0 then
        ([Print (LOG_PREFIX @ '' Trading completed'' @ [NL]),
          Print (LOG_PREFIX @ '' Exchange fees collected: $'' @ show_int (transaction_fee (market (ex st))) @ [NL])],
         st\<lparr>exchange_disconnect := True\<rparr>)
      else ([], st))"

definition iterate :: "input \<Rightarrow> loop_state \<Rightarrow> fault + effect list \<times> loop_state" where
  "iterate inp st =
     bind_err (if sig_ptr st < length (signal_array st) then take_message inp st else Inr ([], st)) (\<lambda>(out1, st1).
       let (out2, st2) = reap (in_wait inp) st1; (out3, st3) = finish st2
       in Inr (out1 @ out2 @ out3, st3))"

text \<open>The loop, with signals arriving between rounds.\<close>

datatype event = Signal int | Round input

definition ex_step :: "event \<Rightarrow> loop_state \<Rightarrow> fault + effect list \<times> loop_state" where
  "ex_step v st =
     (case v of
        Signal pid \<Rightarrow> bind_err (sig_handler pid st) (\<lambda>st'. Inr ([], st'))
      | Round inp \<Rightarrow> if exchange_disconnect st then Inr ([], st) else iterate inp st)"

end
