(* ===== verification/Ex_Run.thy ===== *)
theory Ex_Run
  imports Ex_Main
begin

text \<open>
  The invariant of the running exchange: every branch of the \<open>switch\<close> keeps it, so every
  round of the event loop does, and it holds after the start.
\<close>

section \<open>Handling one message\<close>

lemma handle_order_inv:
  assumes inv: "exchange_inv ps s" and t: "t < length (traders s)" and mem: "memory_ok e" and item: "argv ! 2 \<in> set ps"
  shows "\<exists>out s'. handle_order e ps argv t pid s = Inr (out, s') \<and> exchange_inv ps s' \<and>
    2 ^ 64 dvd total_cash s' - total_cash s \<and> length (traders s') = length (traders s)"
proof (cases "newOrder_fields argv s t (order_type_of (argv ! 0))")
  case None
  then show ?thesis using inv by (simp add: handle_order_None)
next
  case (Some x)
  have wf: "wf_exchange ps s" and un: "uncrossed s" using inv by (auto simp: exchange_inv_def)
  note wf' = entered_wf [OF wf t newOrder_valid [OF Some item]]
  obtain out s' where h: "handle_order e ps argv t pid s = Inr (out, s')" "matches (length (store s)) (entered t x s) s'"
    using handle_order_Some [OF wf t mem Some item] by blast
  have n: "length (store s) < length (store (entered t x s))" by (simp add: entered_sel)
  from matches_wf [OF h(2) wf' n] matches_uncrossed [OF h(2) wf' n entered_crossed [OF un]] matches_cash [OF h(2) wf' n]
  show ?thesis using h(1) by (auto simp: exchange_inv_def entered_totals [OF t] entered_sel)
qed

lemma handle_cancel_inv:
  assumes inv: "exchange_inv ps s" and t: "t < length (traders s)"
  shows "\<exists>out s'. handle_cancel e ps argv t pid s = Inr (out, s') \<and> exchange_inv ps s' \<and>
    total_cash s' = total_cash s \<and> length (traders s') = length (traders s)"
proof -
  have wf: "wf_exchange ps s" and un: "uncrossed s" using inv by (auto simp: exchange_inv_def)
  from handle_cancel_cases [OF wf t, of e argv pid] show ?thesis
  proof (elim exE disjE conjE)
    fix out r assume "r < length (store s)" "handle_cancel e ps argv t pid s = Inr (out, closeOrder r s)"
    moreover then have "uncrossed (closeOrder r s)"
      using un close_crossing [of r s] by (auto simp: uncrossed_def)
    ultimately show ?thesis using close_wf [OF wf] by (auto simp: exchange_inv_def close_totals)
  qed (use inv in auto)
qed

text \<open>An amendment fails in the way the source fails, or keeps the invariant.\<close>

lemma handle_amend_cases:
  assumes wf: "wf_exchange ps s" and t: "t < length (traders s)" and mem: "memory_ok e"
  obtains "amend e argv t s = (1, s)" "handle_amend e ps argv t pid s = Inr (reject e s t pid, s)"
  | r x where "amend e argv t s = (0, amended t r x s)" "r < length (store s)" "wf_exchange ps (amended t r x s)"
      "opposite (amended t r x s) (length (store s)) \<noteq> None" "handle_amend e ps argv t pid s = Inl Uninitialised"
  | r x out where "amend e argv t s = (0, amended t r x s)" "r < length (store s)" "wf_exchange ps (amended t r x s)"
      "opposite (amended t r x s) (length (store s)) = None" "handle_amend e ps argv t pid s = Inr (out, amended t r x s)"
proof (cases rule: amend_cases [OF wf t mem, of argv])
  case 1
  with that(1) show thesis by (simp add: handle_amend_def)
next
  case (2 r x)
  let ?n = "length (store s)" and ?s = "amended t r x s"
  note b = wf_book [OF wf]
  have wf': "wf_exchange ps ?s" using 2 by (intro amended_wf [OF wf _ t]) auto
  have get: "getOrder t (atoi (argv ! 1)) ?s = Some ?n" using getOrder_amended [OF wf 2(2) t 2(6,3)] 2 by simp
  have n: "?n < length (store ?s)" by (simp add: amended_ord(3) [OF b 2(2)])
  have c: "\<not> completed (ord_of ?s ?n)" using 2(6) by (simp add: amended_ord(2) [OF b 2(2)] valid_order_def)
  have pl: "try_match e ?n ?s = (case opposite ?s ?n of None \<Rightarrow> (None, ?s) | Some q \<Rightarrow> (Some (match_trade ?s ?n q), matched ?n q ?s))"
    using mem place_wf [OF wf' n] c by (simp add: try_match_def memory_ok_def)
  show thesis
  proof (cases "opposite ?s ?n")
    case None
    with 2(1) get pl that(3) [OF 2(1,2) wf' None] show thesis by (simp add: handle_amend_def Let_def)
  next
    case (Some q)
    with 2(1) get pl that(2) [OF 2(1,2) wf'] show thesis by (simp add: handle_amend_def Let_def)
  qed
qed

lemma handle_amend_inv:
  assumes inv: "exchange_inv ps s" and t: "t < length (traders s)" and mem: "memory_ok e"
  shows "handle_amend e ps argv t pid s = Inl Uninitialised \<or>
    (\<exists>out s'. handle_amend e ps argv t pid s = Inr (out, s') \<and> exchange_inv ps s' \<and>
      total_cash s' = total_cash s \<and> length (traders s') = length (traders s))"
proof -
  have wf: "wf_exchange ps s" and un: "uncrossed s" using inv by (auto simp: exchange_inv_def)
  show ?thesis
  proof (cases rule: handle_amend_cases [OF wf t mem, of argv pid])
    case 1
    with inv show ?thesis by simp
  next
    case 2
    then show ?thesis by simp
  next
    case (3 r x out)
    let ?s = "amended t r x s"
    have n: "length (store s) < length (store ?s)" by (simp add: amended_ord(3) [OF wf_book [OF wf] 3(2)])
    have "uncrossed ?s"
      using 3(4) matches_uncrossed [OF matches.finished 3(3) n amended_crossed [OF wf 3(2) un]] by simp
    with 3 show ?thesis
      by (simp add: exchange_inv_def amended_totals [OF wf 3(2) t] amended_trader(10) [OF wf_book [OF wf] 3(2) t])
  qed
qed

lemma handle_amend_fault:
  assumes inv: "exchange_inv ps s" and t: "t < length (traders s)" and mem: "memory_ok e"
  shows "handle_amend e ps argv t pid s = Inl Uninitialised \<longleftrightarrow>
    (\<exists>s1. amend e argv t s = (0, s1) \<and> opposite s1 (length (store s)) \<noteq> None)"
proof -
  have wf: "wf_exchange ps s" using inv by (simp add: exchange_inv_def)
  show ?thesis by (cases rule: handle_amend_cases [OF wf t mem, of argv pid]) auto
qed

lemma handle_message_inv:
  assumes "exchange_inv ps s" "t < length (traders s)" "memory_ok e" "state = ORDER_RECEIVED \<Longrightarrow> argv ! 2 \<in> set ps"
  shows "handle_message e ps state argv t pid s = Inl f \<Longrightarrow> f = Uninitialised \<and> state = AMEND_REQUEST"
    and "handle_message e ps state argv t pid s = Inr (out, s') \<Longrightarrow>
      exchange_inv ps s' \<and> 2 ^ 64 dvd total_cash s' - total_cash s \<and> length (traders s') = length (traders s)"
  using handle_order_inv [OF assms(1-3), of argv pid] handle_cancel_inv [OF assms(1,2), of e argv pid]
    handle_amend_inv [OF assms(1-3), of argv pid] assms(1,4)
  by (cases state; auto simp: handle_message_def)+

section \<open>Parsing\<close>

lemma read_message_argv:
  assumes "length argv = COMMAND_ARGC" "read_message m argv ps = (state, argv', out)"
  shows "length argv' = COMMAND_ARGC"
  using assms by (auto simp: read_message_def Let_def COMMAND_ARGC_def split: if_splits)

lemma read_message_product:
  assumes "read_message m argv ps = (ORDER_RECEIVED, argv', out)"
  shows "argv' ! 2 \<in> set ps" "argv' ! 0 = ''BUY'' \<or> argv' ! 0 = ''SELL''"
  using assms find_Some_prop [of "\<lambda>p. argv' ! 2 = p" ps]
  by (auto simp: read_message_def Let_def split: if_splits)

section \<open>The event loop\<close>

definition loop_inv :: "string list \<Rightarrow> loop_state \<Rightarrow> bool" where
  "loop_inv ps st \<longleftrightarrow> products st = ps \<and> exchange_inv ps (ex st) \<and> 2 ^ 64 dvd total_cash (ex st) \<and>
     sig_ptr st \<le> length (signal_array st) \<and> length (signal_array st) \<le> signal_cap st \<and>
     length (market_argv st) = COMMAND_ARGC \<and> length (buffer_read st) = BUFFER_READ"

lemma find_trader_Some: "find_trader s pid = Some t \<Longrightarrow> t < length (traders s) \<and> trader_pid (traders s ! t) = pid"
  by (auto simp: find_trader_def dest: find_Some_prop)

lemma deliver_result:
  "deliver pids st = Inr st' \<Longrightarrow> st' = st\<lparr>signal_array := signal_array st @ pids\<rparr> \<and>
     (length (signal_array st) \<le> signal_cap st \<longrightarrow> length (signal_array st) + length pids \<le> signal_cap st)"
  by (induction pids arbitrary: st) (fastforce simp: sig_handler_def split: if_splits)+

lemma deliver_ok:
  "length (signal_array st) + length pids \<le> signal_cap st \<Longrightarrow> deliver pids st = Inr (st\<lparr>signal_array := signal_array st @ pids\<rparr>)"
  by (induction pids arbitrary: st) (auto simp: sig_handler_def)

text \<open>The parts of a round that takes a message without a fault.\<close>

lemma take_messageE:
  assumes tm: "take_message inp st = Inr (out, st')"
  obtains b0 t b1 state argv out1 b3 out2 s' where
    "clear_cstr (buffer_read st) = Inr b0"
    "find_trader (ex st) (signal_array st ! sig_ptr st) = Some t"
    "cut_message (read_into (in_bytes inp) b0) = Inr b1"
    "read_message (cstr b1) (market_argv st) (products st) = (state, argv, out1)"
    "clear_cstr (if spacing_ok (cstr b1) then null_spaces 7 b1 else b1) = Inr b3"
    "handle_message (in_env inp) (products st) state argv t (signal_array st ! sig_ptr st) (ex st) = Inr (out2, s')"
    "st' = (let st1 = st\<lparr>ex := s', market_argv := argv, buffer_read := b3, sig_ptr := Suc (sig_ptr st), signal_array := signal_array st @ in_during inp\<rparr> in
      if length (signal_array st1) = signal_cap st1 - 10 \<and> in_signal_mem inp
      then st1\<lparr>signal_cap := signal_cap st1 + MAX_SIGNALS\<rparr> else st1)"
    "length (signal_array st) \<le> signal_cap st \<longrightarrow> length (signal_array st) + length (in_during inp) \<le> signal_cap st"
proof -
  obtain b0 t b1 where 1: "clear_cstr (buffer_read st) = Inr b0" "find_trader (ex st) (signal_array st ! sig_ptr st) = Some t"
    "cut_message (read_into (in_bytes inp) b0) = Inr b1"
    using tm by (auto simp: take_message_def Let_def split: option.splits)
  obtain state argv out1 where rm: "read_message (cstr b1) (market_argv st) (products st) = (state, argv, out1)"
    by (metis prod_cases3)
  obtain b3 out2 s' where 2: "clear_cstr (if spacing_ok (cstr b1) then null_spaces 7 b1 else b1) = Inr b3"
    "handle_message (in_env inp) (products st) state argv t (signal_array st ! sig_ptr st) (ex st) = Inr (out2, s')"
    using tm 1 rm by (auto simp: take_message_def Let_def)
  let ?st = "st\<lparr>ex := s', market_argv := argv, buffer_read := b3, sig_ptr := Suc (sig_ptr st)\<rparr>"
  obtain st1 where 3: "deliver (in_during inp) ?st = Inr st1"
    "st' = (if length (signal_array st1) = signal_cap st1 - 10 \<and> in_signal_mem inp
      then st1\<lparr>signal_cap := signal_cap st1 + MAX_SIGNALS\<rparr> else st1)"
    using tm 1 rm 2 by (auto simp: take_message_def Let_def)
  from deliver_result [OF 3(1)] 3(2) show thesis by (intro that [OF 1 rm 2]) (simp_all add: Let_def)
qed

lemma take_message_inv:
  assumes inv: "loop_inv ps st" and mem: "memory_ok (in_env inp)" and more: "sig_ptr st < length (signal_array st)"
    and tm: "take_message inp st = Inr (out, st')"
  shows "loop_inv ps st'"
proof -
  from tm obtain b0 t b1 state argv out1 b3 out2 s' where b0: "clear_cstr (buffer_read st) = Inr b0"
    and t: "find_trader (ex st) (signal_array st ! sig_ptr st) = Some t"
    and b1: "cut_message (read_into (in_bytes inp) b0) = Inr b1"
    and rm: "read_message (cstr b1) (market_argv st) (products st) = (state, argv, out1)"
    and b3: "clear_cstr (if spacing_ok (cstr b1) then null_spaces 7 b1 else b1) = Inr b3"
    and hm: "handle_message (in_env inp) (products st) state argv t (signal_array st ! sig_ptr st) (ex st) = Inr (out2, s')"
    and st': "st' = (let st1 = st\<lparr>ex := s', market_argv := argv, buffer_read := b3, sig_ptr := Suc (sig_ptr st), signal_array := signal_array st @ in_during inp\<rparr> in
      if length (signal_array st1) = signal_cap st1 - 10 \<and> in_signal_mem inp
      then st1\<lparr>signal_cap := signal_cap st1 + MAX_SIGNALS\<rparr> else st1)"
    and cap: "length (signal_array st) \<le> signal_cap st \<longrightarrow> length (signal_array st) + length (in_during inp) \<le> signal_cap st"
    by (rule take_messageE)
  have "length b3 = BUFFER_READ"
    using clear_cstr_length [OF b0] cut_message_length [OF b1] clear_cstr_length [OF b3] inv
    by (simp add: loop_inv_def split: if_splits)
  moreover have "length argv = COMMAND_ARGC" using read_message_argv [OF _ rm] inv by (simp add: loop_inv_def)
  moreover have "exchange_inv ps s' \<and> 2 ^ 64 dvd total_cash s' - total_cash (ex st)"
  proof -
    have ps: "products st = ps" and ei: "exchange_inv ps (ex st)" using inv by (auto simp: loop_inv_def)
    have item: "argv ! 2 \<in> set ps" if "state = ORDER_RECEIVED" using read_message_product(1) rm ps that by metis
    show ?thesis
      using handle_message_inv(2) [OF ei conjunct1 [OF find_trader_Some [OF t]] mem item hm [unfolded ps]] by simp
  qed
  moreover from this have "2 ^ 64 dvd total_cash s'" using inv unfolding loop_inv_def by (metis diff_add_cancel dvd_add)
  ultimately show ?thesis using inv more cap by (auto simp: loop_inv_def st' Let_def)
qed

lemma reap_loop_inv:
  assumes "loop_inv ps st" "\<forall>i\<in>set is. i < length (traders (ex st))" "reap_loop pid is st = (out, st')"
  shows "loop_inv ps st'"
  using assms
proof (induction "is" arbitrary: st out)
  case Nil
  then show ?case by simp
next
  case (Cons i "is")
  let ?s = "upd_trader i (\<lambda>t. t\<lparr>disconnected := True\<rparr>) (ex st)"
  let ?st = "st\<lparr>ex := ?s, traders_online := traders_online st - 1\<rparr>"
  have i: "i < length (traders (ex st))" using Cons.prems(2) by simp
  have "loop_inv ps ?st"
  proof -
    have tr: "trader_id (traders ?s ! u) = trader_id (traders (ex st) ! u)" "inventory_products (traders ?s ! u) = inventory_products (traders (ex st) ! u)"
      "wf_account (traders ?s ! u) = wf_account (traders (ex st) ! u)" "orders (traders ?s ! u) = orders (traders (ex st) ! u)"
      "orders_cap (traders ?s ! u) = orders_cap (traders (ex st) ! u)" "cash (traders ?s ! u) = cash (traders (ex st) ! u)" for u
      using i by (auto simp: wf_account_def cash_def)
    have "map cash (traders ?s) = map cash (traders (ex st))" by (auto intro!: nth_equalityI simp: tr simp del: upd_trader_sel(4))
    then have "total_cash ?s = total_cash (ex st)" by (simp add: total_cash_def del: map_map)
    moreover have "exchange_inv ps ?s"
    proof -
      have "wf_market ?s = wf_market (ex st)" "wf_order ps ?s r = wf_order ps (ex st) r" "registered ?s r = registered (ex st) r"
        "wf_trader ps ?s u = wf_trader ps (ex st) u" "uncrossed ?s = uncrossed (ex st)" for r u
        by (simp_all add: wf_market_def wf_order_def registered_def wf_trader_def uncrossed_def crossing_def tr del: upd_trader_sel(4))
      with Cons.prems(1) show ?thesis by (simp add: loop_inv_def exchange_inv_def wf_exchange_def)
    qed
    ultimately show ?thesis using Cons.prems(1) by (simp add: loop_inv_def)
  qed
  with Cons show ?case by (auto simp: Let_def split: if_splits prod.splits)
qed

lemma iterate_inv:
  assumes inv: "loop_inv ps st" and mem: "memory_ok (in_env inp)" and it: "iterate inp st = Inr (out, st')"
  shows "loop_inv ps st'"
proof -
  obtain out1 st1 where 1: "(if sig_ptr st < length (signal_array st) then take_message inp st else Inr ([], st)) = Inr (out1, st1)"
    and st': "st' = snd (finish (snd (reap (in_wait inp) st1)))"
    using it by (auto simp: iterate_def Let_def case_prod_beta)
  have "loop_inv ps st1" using 1 inv take_message_inv [OF inv mem] by (auto split: if_splits)
  then have "loop_inv ps (snd (reap (in_wait inp) st1))"
    using reap_loop_inv [of ps st1 "[0..<length (traders (ex st1))]" "fst (in_wait inp)"]
    by (cases "reap_loop (fst (in_wait inp)) [0..<length (traders (ex st1))] st1") (simp add: reap_def)
  then show ?thesis by (simp add: st' finish_def loop_inv_def)
qed

text \<open>The loop as a machine: a step of an event for which memory suffices, \<open>None\<close> when it faults.\<close>

definition loop_step :: "event \<Rightarrow> loop_state \<Rightarrow> loop_state option" where
  "loop_step v st =
     (case v of
        Signal pid \<Rightarrow> (case ex_step v st of Inl _ \<Rightarrow> None | Inr (_, st') \<Rightarrow> Some st')
      | Round inp \<Rightarrow> if memory_ok (in_env inp) then (case ex_step v st of Inl _ \<Rightarrow> None | Inr (_, st') \<Rightarrow> Some st') else None)"

interpretation exl: stepping loop_step "loop_inv ps" for ps
proof
  fix v st st' assume inv: "loop_inv ps st" and step: "loop_step v st = Some st'"
  show "loop_inv ps st'"
  proof (cases v)
    case (Signal pid)
    with inv step show ?thesis
      by (auto simp: loop_step_def ex_step_def sig_handler_def loop_inv_def split: if_splits)
  next
    case (Round inp)
    with inv step iterate_inv [OF inv, of inp] show ?thesis
      by (auto simp: loop_step_def ex_step_def split: if_splits sum.splits)
  qed
qed

section \<open>The start\<close>

lemma start_traders_result:
  assumes "start_traders w i ts = (out, Some us)"
  shows "length us = length ts \<and> (\<forall>k<length ts. us ! k = (ts ! k)\<lparr>trader_pid := fork_pid w (i + k),
    fd_w := open_w w (i + k), fd_r := open_r w (i + k)\<rparr>)"
  using assms
proof (induction ts arbitrary: i out us)
  case Nil
  then show ?case by simp
next
  case (Cons t ts)
  obtain out' us' where "start_traders w (Suc i) ts = (out', Some us')"
    "us = t\<lparr>trader_pid := fork_pid w i, fd_w := open_w w i, fd_r := open_r w i\<rparr> # us'"
    using Cons.prems by (auto simp: Let_def split: if_splits prod.splits)
  with Cons.IH show ?case by (auto simp: less_Suc_eq_0_disj nth_Cons split: nat.split)
qed

lemma start_inv:
  assumes "main_start w args = (out, Running st)" and "distinct (products st)" and "length (raw_buffer w) = BUFFER_READ"
  shows "loop_inv (products st) st"
proof -
  obtain ps us where st: "st = start_loop w ps us"
    and us: "start_traders w 0 (map (\<lambda>(i, nm). new_trader ps i nm) (enumerate 0 (tl args))) = (fst (start_traders w 0 (map (\<lambda>(i, nm). new_trader ps i nm) (enumerate 0 (tl args)))), Some us)"
    using assms(1) by (auto simp: main_start_def Let_def split: if_splits option.splits sum.splits prod.splits)
  from start_traders_result [OF us]
  have tr: "length us = length (tl args)" "k < length (tl args) \<Longrightarrow> us ! k = (new_trader ps k (tl args ! k))\<lparr>trader_pid := fork_pid w k,
      fd_w := open_w w k, fd_r := open_r w k\<rparr>" for k
    by (simp_all add: nth_enumerate_eq)
  have "\<forall>k<length us. wf_trader ps (ex st) k"
    using tr assms(2) by (simp add: st start_loop_def wf_trader_def new_trader_def inst_trader_def wf_account_def)
  moreover have "map cash us = replicate (length us) 0"
    using tr by (auto intro!: nth_equalityI simp: new_trader_def inst_trader_def cash_def sum_list_replicate)
  ultimately show ?thesis
    using assms(2,3) by (simp add: st start_loop_def loop_inv_def exchange_inv_def wf_exchange_def wf_market_def inst_market_def
      uncrossed_def total_cash_def sum_list_replicate)
qed

end
