(* ===== verification/Ex_Props.thy ===== *)
theory Ex_Props
  imports Ex_Run
begin

text \<open>The properties of the exchange, with witnesses at a small exchange of two traders.\<close>

section \<open>A small exchange\<close>

definition demo_products :: "string list" where
  "demo_products = [''GPU'', ''Router'']"

definition demo_env :: env where
  "demo_env = \<lparr>book_mem = True, orders_mem = True, trade_mem = (\<lambda>_. True), write_ok = (\<lambda>_ _. True)\<rparr>"

definition demo_order :: "order_type \<Rightarrow> int \<Rightarrow> int \<Rightarrow> tref \<Rightarrow> order_struct" where
  "demo_order ty q p t =
     \<lparr>order_type = ty, item = ''GPU'', quantity = q, unit_price = p, trader = t, order_id = 0, order_index = - 1, completed = False\<rparr>"

definition demo0 :: exchange where
  "demo0 = \<lparr>store = [], traders = [new_trader demo_products 0 ''a'', new_trader demo_products 1 ''b''], market = inst_market\<rparr>"

definition demo1 :: exchange where "demo1 = entered 0 (demo_order SELL 10 100 0) demo0"
definition demo2 :: exchange where "demo2 = entered 1 (demo_order BUY 4 120 1) demo1"

lemma demo_memory: "memory_ok demo_env"
  by (simp add: memory_ok_def demo_env_def)

lemma demo0_wf: "wf_exchange demo_products demo0" "uniq_open demo0" "uncrossed demo0"
proof -
  have "wf_trader demo_products demo0 t" if "t < 2" for t
    using that
    by (cases "t = 0") (auto simp: demo0_def wf_trader_def new_trader_def inst_trader_def wf_account_def demo_products_def nth_Cons')
  then show "wf_exchange demo_products demo0"
    by (auto simp: wf_exchange_def wf_market_def demo0_def demo_products_def inst_market_def)
  show "uniq_open demo0" "uncrossed demo0" by (simp_all add: uniq_open_def uncrossed_def demo0_def inst_market_def)
qed

lemma demo_sizes:
  "length (traders demo0) = 2" "length (traders demo1) = 2" "length (traders demo2) = 2"
  "length (store demo0) = 0" "length (store demo1) = 1" "length (store demo2) = 2"
  by (simp_all add: demo0_def demo1_def demo2_def entered_sel)

lemma demo_valid: "0 < q \<Longrightarrow> q < 1000 \<Longrightarrow> 0 < p \<Longrightarrow> p < 1000 \<Longrightarrow> valid_order demo_products t (demo_order ty q p t)"
  by (simp add: valid_order_def demo_order_def demo_products_def pe_limits c_int_range)

lemma demo1_wf: "wf_exchange demo_products demo1" "uniq_open demo1"
proof -
  have v: "valid_order demo_products 0 (demo_order SELL 10 100 0)" by (rule demo_valid) simp_all
  show "wf_exchange demo_products demo1"
    unfolding demo1_def by (rule entered_wf [OF demo0_wf(1) _ v]) (simp add: demo_sizes)
  show "uniq_open demo1"
    unfolding demo1_def by (rule entered_uniq [OF demo0_wf(1) _ v demo0_wf(2)]) (simp_all add: demo_sizes)
qed

lemma demo2_wf: "wf_exchange demo_products demo2" "uniq_open demo2"
proof -
  have v: "valid_order demo_products 1 (demo_order BUY 4 120 1)" by (rule demo_valid) simp_all
  show "wf_exchange demo_products demo2"
    unfolding demo2_def by (rule entered_wf [OF demo1_wf(1) _ v]) (simp add: demo_sizes)
  have "trader (ord_of demo1 0) = 0" by (simp add: demo1_def entered_sel demo_sizes demo_order_def nth_append)
  then show "uniq_open demo2"
    unfolding demo2_def by (intro entered_uniq [OF demo1_wf(1) _ v demo1_wf(2)]) (simp_all add: demo_sizes)
qed

lemma demo2_orders:
  "ord_of demo2 0 = (demo_order SELL 10 100 0)\<lparr>order_index := 0\<rparr>"
  "ord_of demo2 1 = (demo_order BUY 4 120 1)\<lparr>order_index := 1\<rparr>"
  by (simp_all add: demo2_def demo1_def entered_sel demo_sizes nth_append)

lemma demo2_best: "opposite demo2 1 = Some 0"
  by code_simp

section \<open>The order book\<close>

text \<open>C5: Price-time priority: when the open orders of a trader and side have distinct ids (the exchange does not see to this, it accepts an id in use), the search for
  an opposite order returns exactly the best-priced open order of that product within the limit, and
  among equal prices the one that entered the book first; it returns NULL exactly when there is none.\<close>

theorem price_time_priority:
  assumes "wf_exchange ps s" and "uniq_open s"
  shows "(getBestSellOrder s p price = Some r \<longleftrightarrow> best_sell s p price r) \<and>
    (getBestBuyOrder s p price = Some r \<longleftrightarrow> best_buy s p price r)"
  using getBestSell_uniq [OF assms] getBestBuy_uniq [OF assms] by blast

theorem price_time_priority_witness: "getBestSellOrder demo2 ''GPU'' 120 = Some 0 \<and> best_sell demo2 ''GPU'' 120 0"
proof -
  have "getBestSellOrder demo2 ''GPU'' 120 = Some 0" by code_simp
  with price_time_priority [OF demo2_wf, of "''GPU''" 120 0] show ?thesis by blast
qed

text \<open>Both sorts return a permutation of the orders, by ascending and by descending price.\<close>

theorem order_sorts:
  "sorted_wrt (\<lambda>a b. unit_price (ord_of s a) \<le> unit_price (ord_of s b)) (orderSort s xs) \<and> mset (orderSort s xs) = mset xs \<and>
   sorted_wrt (\<lambda>a b. unit_price (ord_of s a) \<ge> unit_price (ord_of s b)) (orderSortReverse s xs) \<and> mset (orderSortReverse s xs) = mset xs"
  using asc.sorts [of s xs] desc.sorts [of s xs]
  by (simp add: orderSort_def orderSortReverse_def dearer_def cheaper_def not_less mset_sort_outer)

text \<open>C31: The report of a product lists, for each side, one line per distinct price from the highest down,
  with the total quantity and the number of the open orders at that price, and its heading counts the
  lines.\<close>

theorem report_lists_levels:
  "printOrderByProduct s product =
     (LOG_PREFIX @ [TAB] @ ''Product: '' @ product @
        ''; Buy levels: '' @ show_int (int (length (price_levels s (open_orders s BUY product)))) @
        ''; Sell levels: '' @ show_int (int (length (price_levels s (open_orders s SELL product)))) @ [NL])
     # map (level_line s ''SELL'' (open_orders s SELL product)) (price_levels s (open_orders s SELL product))
     @ map (level_line s ''BUY'' (open_orders s BUY product)) (price_levels s (open_orders s BUY product))"
  by (rule printOrderByProduct_eq)

section \<open>Matching\<close>

text \<open>C7: Placing an order refines one match: a completed order or one without an acceptable opposite order
  changes nothing and yields NULL; otherwise the trade is for the smaller of the two quantities at the
  book order's price, and the whole state afterwards is that of the match.\<close>

theorem place_refines_match:
  assumes "wf_exchange ps s" and "a < length (store s)"
  shows "place True a s =
    (if completed (ord_of s a) then (None, s)
     else case opposite s a of None \<Rightarrow> (None, s) | Some b \<Rightarrow> (Some (match_trade s a b), matched a b s))"
  by (rule place_wf [OF assms])

theorem place_refines_match_witness: "place True 1 demo2 = (Some (match_trade demo2 1 0), matched 1 0 demo2)"
  using place_refines_match [OF demo2_wf(1), of 1] demo2_best demo_sizes demo2_orders by (simp add: demo_order_def)

text \<open>C9: The fee of a trade is one percent of its value, rounded half up, whatever the rounding of the
  binary arithmetic it is computed with; the account of fees grows by it.\<close>

theorem fee_is_one_percent:
  assumes "wf_exchange ps s" and "a < length (store s)" and "place True a s = (Some tr, s')"
  shows "trade_tax tr = Some ((transaction_quantity tr * transaction_price tr + 50) div 100) \<and>
    transaction_fee (market s') =
      c_llong (transaction_fee (market s) + (transaction_quantity tr * transaction_price tr + 50) div 100)"
proof -
  obtain b where b: "\<not> completed (ord_of s a)" "opposite s a = Some b" "tr = match_trade s a b" "s' = matched a b s"
    using assms(3) unfolding place_wf [OF assms(1,2)] by (auto split: if_splits option.splits)
  from match_quantity_bounds(4,5) [OF assms(1,2) b(1,2)]
  show ?thesis by (simp add: b(3,4) match_trade_def match_value_def matched_sel transaction_tax_eq)
qed

theorem fee_is_one_percent_witness: "trade_tax (match_trade demo2 1 0) = Some 4"
proof -
  have p: "place True 1 demo2 = (Some (match_trade demo2 1 0), matched 1 0 demo2)"
    using place_wf [OF demo2_wf(1), of 1] demo2_best demo_sizes demo2_orders by (simp add: demo_order_def)
  show ?thesis using fee_is_one_percent [OF demo2_wf(1) _ p] demo_sizes
    by (simp add: match_trade_def match_quantity_def demo2_orders demo2_orders [unfolded One_nat_def] demo_order_def)
qed

text \<open>C6: Handling an order always ends, without a fault, in a well-formed exchange whose book is not
  crossed: no open BUY and SELL order of a product could still trade. Cash and fees together are
  unchanged (modulo the 64 bits of an account).\<close>

theorem order_handled:
  assumes "exchange_inv ps s" and "t < length (traders s)" and "memory_ok e" and "argv ! 2 \<in> set ps"
  shows "\<exists>out s'. handle_order e ps argv t pid s = Inr (out, s') \<and> wf_exchange ps s' \<and> uncrossed s' \<and>
    2 ^ 64 dvd total_cash s' - total_cash s"
  using handle_order_inv [OF assms, of pid] by (auto simp: exchange_inv_def)

theorem order_handled_witness:
  "\<exists>out s'. handle_order demo_env demo_products [''SELL'', ''0'', ''GPU'', ''10'', ''100''] 0 7 demo0 = Inr (out, s') \<and>
    wf_exchange demo_products s' \<and> uncrossed s' \<and> 2 ^ 64 dvd total_cash s' - total_cash demo0"
  using demo0_wf demo_sizes demo_memory
  by (intro order_handled) (simp_all add: exchange_inv_def demo_products_def)

text \<open>C12: An accepted order with an id that is new to its trader keeps the ids of open orders distinct, and
  the stock of every product summed over all traders is unchanged (modulo the 32 bits of a position).\<close>

theorem stock_conserved:
  assumes "exchange_inv ps s" and "uniq_open s" and "t < length (traders s)" and "memory_ok e" and "argv ! 2 \<in> set ps"
    and "\<forall>r<length (store s). trader (ord_of s r) = t \<longrightarrow> order_id (ord_of s r) \<noteq> atoi (argv ! 1)"
    and "handle_order e ps argv t pid s = Inr (out, s')"
  shows "uniq_open s' \<and> 2 ^ 32 dvd total_stock p s' - total_stock p s"
proof (cases "newOrder_fields argv s t (order_type_of (argv ! 0))")
  case None
  with assms(2,7) show ?thesis by (simp add: handle_order_None)
next
  case (Some x)
  have wf: "wf_exchange ps s" using assms(1) by (simp add: exchange_inv_def)
  note v = newOrder_valid [OF Some assms(5)]
  have m: "matches (length (store s)) (entered t x s) s'"
    using handle_order_Some [OF wf assms(3,4) Some assms(5), of pid] assms(7) by auto
  have u: "uniq_open (entered t x s)"
    using assms(6) newOrder_fields_valid(7) [OF Some] by (intro entered_uniq [OF wf assms(3) v assms(2)]) simp
  have "length (store s) < length (store (entered t x s))" by (simp add: entered_sel)
  from matches_uniq [OF m entered_wf [OF wf assms(3) v] this u, of p]
  show ?thesis by (simp add: entered_totals [OF assms(3)])
qed

theorem stock_conserved_witness:
  "\<exists>out s'. handle_order demo_env demo_products [''SELL'', ''0'', ''GPU'', ''10'', ''100''] 0 7 demo0 = Inr (out, s') \<and>
    uniq_open s' \<and> 2 ^ 32 dvd total_stock ''GPU'' s' - total_stock ''GPU'' demo0"
proof -
  have inv: "exchange_inv demo_products demo0" using demo0_wf by (simp add: exchange_inv_def)
  have gpu: "[''SELL'', ''0'', ''GPU'', ''10'', ''100''] ! 2 \<in> set demo_products" by (simp add: demo_products_def)
  have t: "0 < length (traders demo0)" by (simp add: demo_sizes)
  obtain out s' where h: "handle_order demo_env demo_products [''SELL'', ''0'', ''GPU'', ''10'', ''100''] 0 7 demo0 = Inr (out, s')"
    using handle_order_inv [OF inv t demo_memory gpu] by blast
  from stock_conserved [OF inv demo0_wf(2) t demo_memory gpu _ h, of "''GPU''"] h demo_sizes show ?thesis by auto
qed

section \<open>Requests\<close>

text \<open>C30: A cancellation closes one order, the sender's that its list has under that id, if it is open, and changes nothing else: that order
  is marked completed and keeps its other fields, every other order, every trader and the market are as before, so that exactly this order leaves the open ones.
  The sender is told CANCELLED, the other traders on line are told the side and product with quantity and price 0, and the book is printed.
  If there is no such order the message is answered with INVALID and the exchange stays as it is.\<close>

theorem cancel_closes_order:
  assumes "wf_exchange ps s" and "t < length (traders s)"
  shows "if isNumeric (argv ! 1) \<and> (\<exists>r. getOrder t (atoi (argv ! 1)) s = Some r \<and> \<not> completed (ord_of s r))
    then \<exists>r x s'. getOrder t (atoi (argv ! 1)) s = Some r \<and> store s ! r = x \<and> r < length (store s) \<and>
      trader x = t \<and> order_id x = atoi (argv ! 1) \<and> r \<in> set (open_orders s (order_type x) (item x)) \<and>
      s' = s\<lparr>store := (store s)[r := x\<lparr>completed := True\<rparr>]\<rparr> \<and>
      (\<forall>k p. open_orders s' k p = filter (\<lambda>q. q \<noteq> r) (open_orders s k p)) \<and>
      handle_cancel e ps argv t pid s =
        Inr (notify e (fd_w (traders s ! t)) pid (''CANCELLED '' @ show_int (order_id x) @ '';'') @
             broadcast e s t (market_text (side_text (order_type x)) (item x) 0 0) @ print_book s' ps, s')
    else handle_cancel e ps argv t pid s = Inr (reject e s t pid, s)"
proof (cases "isNumeric (argv ! 1) \<and> (\<exists>r. getOrder t (atoi (argv ! 1)) s = Some r \<and> \<not> completed (ord_of s r))")
  case True
  then obtain r where r: "getOrder t (atoi (argv ! 1)) s = Some r" "\<not> completed (ord_of s r)" by blast
  let ?x = "store s ! r" and ?s' = "s\<lparr>store := (store s)[r := (store s ! r)\<lparr>completed := True\<rparr>]\<rparr>"
  note m = getOrder_member [OF assms r(1)]
  have s': "closeOrder r s = ?s'" by (simp add: closeOrder_def upd_order_def)
  have "r \<in> set (orderbook (market s))" using assms(1) m(1) by (simp add: wf_exchange_def wf_market_def)
  then have "r \<in> set (open_orders s (order_type ?x) (item ?x))" using r(2) by (simp add: open_orders_def)
  moreover have "open_orders ?s' k p = filter (\<lambda>q. q \<noteq> r) (open_orders s k p)" for k p
    using m(1) unfolding s' [symmetric] by (auto simp: open_orders_def ord_closeOrder intro!: filter_cong)
  moreover have b: "broadcast e ?s' t m = broadcast e s t m" for m by (simp add: broadcast_def cong: if_cong)
  have "handle_cancel e ps argv t pid s =
        Inr (notify e (fd_w (traders s ! t)) pid (''CANCELLED '' @ show_int (order_id ?x) @ '';'') @
             broadcast e s t (market_text (side_text (order_type ?x)) (item ?x) 0 0) @ print_book ?s' ps, ?s')"
    using True r m(1,3) by (simp add: handle_cancel_def Let_def s' b)
  ultimately show ?thesis using True r m by auto
next
  case False
  then show ?thesis by (auto simp: handle_cancel_def split: option.split)
qed

theorem cancel_closes_order_witness:
  "\<exists>out r. handle_cancel demo_env demo_products [''CANCEL'', ''0''] 0 7 demo1 =
     Inr (out, demo1\<lparr>store := (store demo1)[r := (store demo1 ! r)\<lparr>completed := True\<rparr>]\<rparr>) \<and> r < length (store demo1) \<and> trader (store demo1 ! r) = 0"
proof -
  have "getOrder 0 (atoi ''0'') demo1 = Some 0" "isNumeric ''0''" "\<not> completed (ord_of demo1 0)" by code_simp+
  then have c: "isNumeric ([''CANCEL'', ''0''] ! 1) \<and>
      (\<exists>r. getOrder 0 (atoi ([''CANCEL'', ''0''] ! 1)) demo1 = Some r \<and> \<not> completed (ord_of demo1 r))"
    by (simp del: isNumeric.simps)
  have "0 < length (traders demo1)" by (simp add: demo_sizes)
  from cancel_closes_order [OF demo1_wf(1) this, of "[''CANCEL'', ''0'']" demo_env 7, unfolded if_P [OF c]] show ?thesis by blast
qed

text \<open>C29: An order can be amended once: the closed order stays in the book in front of its replacement, so a
  second amendment of the same id by the same trader is refused, whatever its new terms.\<close>

theorem amend_only_once:
  assumes "wf_exchange ps s" and "t < length (traders s)" and "memory_ok e"
    and "amend e argv t s = (0, s')" and "atoi (argv' ! 1) = atoi (argv ! 1)"
  shows "amend e' argv' t s' = (1, s')"
  by (rule amend_twice [OF assms])

theorem amend_only_once_witness:
  "amend demo_env [''AMEND'', ''0'', ''7'', ''50''] 0 (snd (amend demo_env [''AMEND'', ''0'', ''5'', ''200''] 0 demo1)) =
     (1, snd (amend demo_env [''AMEND'', ''0'', ''5'', ''200''] 0 demo1))"
proof -
  have "fst (amend demo_env [''AMEND'', ''0'', ''5'', ''200''] 0 demo1) = 0" by code_simp
  then have a: "amend demo_env [''AMEND'', ''0'', ''5'', ''200''] 0 demo1 =
      (0, snd (amend demo_env [''AMEND'', ''0'', ''5'', ''200''] 0 demo1))" by (metis prod.collapse)
  show ?thesis using amend_only_once [OF demo1_wf(1) _ demo_memory a, of "[''AMEND'', ''0'', ''7'', ''50'']"] demo_sizes by simp
qed

text \<open>C28: An amendment that is accepted and can trade at once runs into the uninitialised variable \<open>order\<close> after
  its first trade; any other amendment is handled without a fault and leaves the book uncrossed.\<close>

theorem amend_that_trades_faults:
  assumes "exchange_inv ps s" and "t < length (traders s)" and "memory_ok e"
  shows "(handle_amend e ps argv t pid s = Inl Uninitialised \<longleftrightarrow>
      (\<exists>s1. amend e argv t s = (0, s1) \<and> opposite s1 (length (store s)) \<noteq> None)) \<and>
    (handle_amend e ps argv t pid s \<noteq> Inl Uninitialised \<longrightarrow>
      (\<exists>out s'. handle_amend e ps argv t pid s = Inr (out, s') \<and> wf_exchange ps s' \<and> uncrossed s'))"
proof -
  have "handle_amend e ps argv t pid s = Inl Uninitialised \<longleftrightarrow>
      (\<exists>s1. amend e argv t s = (0, s1) \<and> opposite s1 (length (store s)) \<noteq> None)"
    by (rule handle_amend_fault [OF assms])
  moreover have "handle_amend e ps argv t pid s \<noteq> Inl Uninitialised \<longrightarrow>
      (\<exists>out s'. handle_amend e ps argv t pid s = Inr (out, s') \<and> wf_exchange ps s' \<and> uncrossed s')"
    using handle_amend_inv [OF assms, of argv pid] by (auto simp: exchange_inv_def)
  ultimately show ?thesis by blast
qed

text \<open>A buyer below the price of the only seller, who then raises the price above it.\<close>

definition demo3 :: exchange where "demo3 = entered 1 (demo_order BUY 4 50 1) demo1"

lemma demo3_inv: "exchange_inv demo_products demo3"
proof -
  have v: "valid_order demo_products 0 (demo_order SELL 10 100 0)" "valid_order demo_products 1 (demo_order BUY 4 50 1)"
    by (rule demo_valid, simp_all)+
  have wf: "wf_exchange demo_products demo3"
    unfolding demo3_def by (rule entered_wf [OF demo1_wf(1) _ v(2)]) (simp add: demo_sizes)
  have "opposite demo1 0 = None" "opposite demo3 1 = None" by code_simp+
  moreover have "crossed_only_by 0 demo1"
    using entered_crossed [OF demo0_wf(3), of 0] by (simp add: demo1_def demo_sizes)
  moreover have "crossed_only_by 1 demo3" if "uncrossed demo1"
    using entered_crossed [OF that, of 1] by (simp add: demo3_def demo_sizes)
  moreover have "0 < length (store demo1)" "1 < length (store demo3)" by (simp_all add: demo3_def entered_sel demo_sizes)
  ultimately have "uncrossed demo3"
    using matches_uncrossed [OF matches.finished demo1_wf(1)] matches_uncrossed [OF matches.finished wf] by blast
  with wf show ?thesis by (simp add: exchange_inv_def)
qed

theorem amend_that_trades_faults_witness:
  "handle_amend demo_env demo_products [''AMEND'', ''0'', ''4'', ''120''] 1 7 demo3 = Inl Uninitialised"
proof -
  let ?a = "amend demo_env [''AMEND'', ''0'', ''4'', ''120''] 1 demo3"
  have "fst ?a = 0" "opposite (snd ?a) (length (store demo3)) = Some 0" by code_simp+
  then have "\<exists>s1. ?a = (0, s1) \<and> opposite s1 (length (store demo3)) \<noteq> None" by (metis option.discI prod.collapse)
  moreover have "1 < length (traders demo3)" by (simp add: demo3_def entered_sel demo_sizes)
  ultimately show ?thesis
    using amend_that_trades_faults [OF demo3_inv _ demo_memory, of 1 "[''AMEND'', ''0'', ''4'', ''120'']" 7] by blast
qed

end
