(* ===== verification/Ex_Loop.thy ===== *)
theory Ex_Loop
  imports Ex_Props
begin

text \<open>
  Properties of the exchange as a running program: what holds after any sequence of signals
  and rounds, when a round can fail, and the sizes of the buffers of the start.
\<close>

section \<open>A round\<close>

text \<open>
  A message that ends within the buffer, from a process that is one of the traders, handled while no more signals
  arrive than the queue has room for.
\<close>

definition proper_message :: "loop_state \<Rightarrow> input \<Rightarrow> bool" where
  "proper_message st inp \<longleftrightarrow> CHR '';'' \<in> set (take BUFFER_READ (in_bytes inp)) \<and>
     find_trader (ex st) (signal_array st ! sig_ptr st) \<noteq> None \<and>
     length (signal_array st) + length (in_during inp) \<le> signal_cap st"

text \<open>The message asks for an amendment that is accepted and whose new order meets an open one.\<close>

definition trading_amendment :: "loop_state \<Rightarrow> input \<Rightarrow> bool" where
  "trading_amendment st inp \<longleftrightarrow>
     (case find_trader (ex st) (signal_array st ! sig_ptr st) of
        None \<Rightarrow> False
      | Some t \<Rightarrow>
          let (state, argv, out) = read_message (first_message (in_bytes inp)) (market_argv st) (products st);
              (rc, s1) = amend (in_env inp) argv t (ex st)
          in state = AMEND_REQUEST \<and> rc = 0 \<and> opposite s1 (length (store (ex st))) \<noteq> None)"

lemma take_message_ok:
  assumes inv: "loop_inv ps st" and nul: "NUL \<in> set (buffer_read st)" and mem: "memory_ok (in_env inp)"
    and msg: "proper_message st inp"
  shows "if trading_amendment st inp then take_message inp st = Inl Uninitialised
    else \<exists>out st'. take_message inp st = Inr (out, st') \<and> NUL \<in> set (buffer_read st') \<and> sig_ptr st' = Suc (sig_ptr st)"
proof -
  obtain b0 where b0: "clear_cstr (buffer_read st) = Inr b0" "length b0 = BUFFER_READ"
    using clear_cstr_ok [OF nul] inv by (auto simp: loop_inv_def)
  obtain t where t: "find_trader (ex st) (signal_array st ! sig_ptr st) = Some t" using msg by (auto simp: proper_message_def)
  have semi: "CHR '';'' \<in> set (take (length b0) (in_bytes inp))" using msg b0(2) by (simp add: proper_message_def)
  then obtain b1 where b1: "cut_message (read_into (in_bytes inp) b0) = Inr b1" "NUL \<in> set b1"
    using cut_message_ok read_into_char by blast
  have m: "cstr b1 = first_message (in_bytes inp)" by (rule cut_message_cstr [OF semi b1(1)])
  obtain state argv out1 where rm: "read_message (first_message (in_bytes inp)) (market_argv st) (products st) = (state, argv, out1)"
    by (metis prod_cases3)
  obtain b3 where b3: "clear_cstr (if spacing_ok (cstr b1) then null_spaces 7 b1 else b1) = Inr b3" "NUL \<in> set b3"
    using clear_cstr_ok b1(2) null_spaces_terminated by (metis (full_types))
  have ps: "products st = ps" and ei: "exchange_inv ps (ex st)" using inv by (auto simp: loop_inv_def)
  have item: "argv ! 2 \<in> set ps" if "state = ORDER_RECEIVED" using read_message_product(1) rm ps that by metis
  have t_ok: "t < length (traders (ex st))" using find_trader_Some [OF t] by blast
  let ?pid = "signal_array st ! sig_ptr st"
  have hm: "f = Uninitialised \<and> state = AMEND_REQUEST"
    if "handle_message (in_env inp) ps state argv t ?pid (ex st) = Inl f" for f
    by (rule handle_message_inv(1) [OF ei t_ok mem item that])
  have "trading_amendment st inp \<longleftrightarrow> state = AMEND_REQUEST \<and> handle_amend (in_env inp) ps argv t ?pid (ex st) = Inl Uninitialised"
    unfolding handle_amend_fault [OF ei t_ok mem]
    by (cases "amend (in_env inp) argv t (ex st)") (auto simp: trading_amendment_def t rm)
  with hm have tr: "trading_amendment st inp \<longleftrightarrow> handle_message (in_env inp) ps state argv t ?pid (ex st) = Inl Uninitialised"
    by (cases state) (auto simp: handle_message_def)
  have room: "length (signal_array st) + length (in_during inp) \<le> signal_cap st" using msg by (simp add: proper_message_def)
  show ?thesis
    using b0(1) t b1(1) rm b3 ps hm room tr
    by (cases "handle_message (in_env inp) ps state argv t ?pid (ex st)")
      (auto simp: take_message_def Let_def deliver_ok m)
qed

lemma reap_loop_buffer: "buffer_read (snd (reap_loop pid is st)) = buffer_read st \<and> sig_ptr (snd (reap_loop pid is st)) = sig_ptr st \<and>
   signal_array (snd (reap_loop pid is st)) = signal_array st \<and> signal_cap (snd (reap_loop pid is st)) = signal_cap st"
  by (induction "is" arbitrary: st) (auto simp: Let_def case_prod_beta)

lemma after_message:
  "buffer_read (snd (finish (snd (reap w st)))) = buffer_read st"
  "sig_ptr (snd (finish (snd (reap w st)))) = sig_ptr st"
  "signal_array (snd (finish (snd (reap w st)))) = signal_array st"
  "signal_cap (snd (finish (snd (reap w st)))) = signal_cap st"
  using reap_loop_buffer [of "fst w" "[0..<length (traders (ex st))]" st]
  by (simp_all add: finish_def reap_def)

section \<open>The queue of signals\<close>

lemma take_message_queue:
  assumes "take_message inp st = Inr (out, st')" "signal_cap st - 10 < length (signal_array st)"
  shows "length (signal_array st) \<le> length (signal_array st') \<and> signal_cap st' = signal_cap st \<and>
    (length (signal_array st) \<le> signal_cap st \<longrightarrow> length (signal_array st') \<le> signal_cap st)"
  using assms(1) by (rule take_messageE) (use assms(2) in \<open>auto simp: Let_def\<close>)

definition is_signal :: "event \<Rightarrow> bool" where
  "is_signal v = (case v of Signal _ \<Rightarrow> True | Round _ \<Rightarrow> False)"

lemma loop_step_queue:
  assumes "loop_step v st = Some st'" and "signal_cap st - 10 < length (signal_array st)"
  shows "signal_cap st' = signal_cap st \<and>
    length (signal_array st') \<ge> length (signal_array st) + (if is_signal v then 1 else 0) \<and>
    (length (signal_array st) \<le> signal_cap st \<longrightarrow> length (signal_array st') \<le> signal_cap st)"
proof (cases v)
  case (Signal pid)
  with assms show ?thesis by (auto simp: loop_step_def ex_step_def sig_handler_def is_signal_def split: if_splits)
next
  case (Round inp)
  show ?thesis
  proof (cases "exchange_disconnect st")
    case True
    with Round assms show ?thesis by (auto simp: loop_step_def ex_step_def is_signal_def split: if_splits)
  next
    case False
    then obtain out1 st1 where 1: "(if sig_ptr st < length (signal_array st) then take_message inp st else Inr ([], st)) = Inr (out1, st1)"
      and st': "st' = snd (finish (snd (reap (in_wait inp) st1)))"
      using assms(1) Round by (auto simp: loop_step_def ex_step_def iterate_def Let_def case_prod_beta split: if_splits sum.splits)
    have "length (signal_array st) \<le> length (signal_array st1)" "signal_cap st1 = signal_cap st"
      "length (signal_array st) \<le> signal_cap st \<longrightarrow> length (signal_array st1) \<le> signal_cap st"
      using 1 take_message_queue [of inp st out1 st1] assms(2) by (auto split: if_splits)
    then show ?thesis by (simp add: st' after_message Round is_signal_def)
  qed
qed

lemma queue_run:
  assumes "exl.run vs st = Some st'" and "signal_cap st - 10 < length (signal_array st)"
    and "length (signal_array st) \<le> signal_cap st"
  shows "length (filter is_signal vs) \<le> signal_cap st - length (signal_array st)"
  using assms
proof (induction vs arbitrary: st)
  case Nil
  then show ?case by simp
next
  case (Cons v vs)
  obtain st1 where 1: "loop_step v st = Some st1" "exl.run vs st1 = Some st'"
    using Cons.prems(1) by (auto simp: Option.bind_eq_Some_conv)
  from loop_step_queue [OF 1(1) Cons.prems(2)] Cons.IH [OF 1(2)] Cons.prems(2,3) show ?case
    by (auto split: if_splits)
qed

section \<open>The banner\<close>

lemma dec_digits_length: "1 \<le> length (dec_digits n)" "length (dec_digits n) \<le> max 1 n" "n < 10 \<Longrightarrow> length (dec_digits n) = 1"
proof -
  show "length (dec_digits n) \<le> max 1 n"
  proof (induction n rule: dec_digits.induct)
    case (1 n)
    show ?case
    proof (cases "n < 10")
      case False
      then have "length (dec_digits n) = length (dec_digits (n div 10)) + 1" by (subst dec_digits.simps) simp
      also have "\<dots> \<le> n" using 1 [OF False] False by simp
      finally show ?thesis by simp
    qed (subst dec_digits.simps, simp)
  qed
  show "1 \<le> length (dec_digits n)" using dec_digits_digits(2) [of n] by (cases "dec_digits n") auto
  show "n < 10 \<Longrightarrow> length (dec_digits n) = 1" by (subst dec_digits.simps) simp
qed

lemma product_banner_length:
  "length (product_banner (int n) ps) = 24 + length (dec_digits n) + length ps + sum_list (map length ps)"
proof -
  have "length (concat (map (\<lambda>p. CHR '' '' # p) ps)) = length ps + sum_list (map length ps)"
    by (induction ps) simp_all
  then show ?thesis by (simp add: product_banner_def LOG_PREFIX_def show_int_def)
qed

section \<open>A small run\<close>

definition demo_os :: os where
  "demo_os = \<lparr>products_file = Some (''2'' @ [NL] @ ''GPU'' @ [NL] @ ''Router'' @ [NL]), sigaction_ok = True,
     fork_pid = (\<lambda>i. 100 + int i), open_w = int, open_r = int, os_write_ok = (\<lambda>_ _. True), raw_buffer = replicate BUFFER_READ NUL\<rparr>"

definition demo_args :: "string list" where "demo_args = [''products.txt'', ''a'', ''b'']"

definition demo_loop :: loop_state where
  "demo_loop = (case snd (main_start demo_os demo_args) of Running st \<Rightarrow> st | _ \<Rightarrow> undefined)"

definition demo_input :: "string \<Rightarrow> input" where
  "demo_input m = \<lparr>in_env = demo_env, in_bytes = m, in_during = [], in_signal_mem = True, in_wait = (0, True)\<rparr>"

definition demo_events :: "event list" where
  "demo_events = [Signal 100, Round (demo_input ''SELL 0 GPU 10 100;''), Signal 101]"

definition demo_step :: "event \<Rightarrow> loop_state \<Rightarrow> loop_state option" where
  "demo_step v st = (case ex_step v st of Inl _ \<Rightarrow> None | Inr (_, st') \<Rightarrow> Some st')"

lemma demo_round: "loop_step (Signal pid) st = demo_step (Signal pid) st"
  "loop_step (Round (demo_input m)) st = demo_step (Round (demo_input m)) st"
  by (simp_all add: loop_step_def demo_step_def demo_input_def demo_memory)

primrec demo_run :: "event list \<Rightarrow> loop_state \<Rightarrow> loop_state option" where
  "demo_run [] st = Some st"
| "demo_run (v # vs) st = (case demo_step v st of None \<Rightarrow> None | Some st' \<Rightarrow> demo_run vs st')"

lemma demo_events_run: "exl.run demo_events st = demo_run demo_events st"
  by (simp add: demo_events_def demo_round Option.bind_def split: option.split)

lemma demo_started: "main_start demo_os demo_args = (fst (main_start demo_os demo_args), Running demo_loop)"
proof -
  have "(case snd (main_start demo_os demo_args) of Running _ \<Rightarrow> True | _ \<Rightarrow> False)" by code_simp
  then show ?thesis by (auto simp: demo_loop_def prod_eq_iff split: startup.splits)
qed

lemma demo_loop_sel: "products demo_loop = demo_products" "raw_buffer demo_os = replicate BUFFER_READ NUL"
  "buffer_read demo_loop = replicate BUFFER_READ NUL" "signal_array demo_loop = []" "sig_ptr demo_loop = 0" "signal_cap demo_loop = MAX_SIGNALS"
  by code_simp+

lemma demo_loop_inv: "loop_inv demo_products demo_loop"
  using start_inv [OF demo_started] by (simp add: demo_loop_sel demo_products_def)

lemma demo_events_ok: "\<exists>st'. exl.run demo_events demo_loop = Some st'"
proof -
  have "\<not> Option.is_none (exl.run demo_events demo_loop)" unfolding demo_events_run by code_simp
  then show ?thesis by (auto simp: Option.is_none_def)
qed

section \<open>Properties of the running exchange\<close>

text \<open>C2: From a start with distinct products, whatever signals and messages arrive and whatever the
  traders do, every state the exchange reaches is well-formed, its book is not crossed, and the cash
  of all traders and the collected fees add up to zero (modulo the 64 bits of an account).\<close>

theorem exchange_run_safe:
  assumes "main_start w args = (out, Running st)" and "distinct (products st)" and "length (raw_buffer w) = BUFFER_READ"
    and "exl.run vs st = Some st'"
  shows "wf_exchange (products st) (ex st') \<and> uncrossed (ex st') \<and> 2 ^ 64 dvd total_cash (ex st')"
  using exl.run_inv [OF start_inv [OF assms(1-3)] assms(4)] by (simp add: loop_inv_def exchange_inv_def)

theorem exchange_run_safe_witness:
  "\<exists>st'. exl.run demo_events demo_loop = Some st' \<and> wf_exchange demo_products (ex st') \<and> uncrossed (ex st') \<and>
    2 ^ 64 dvd total_cash (ex st')"
proof -
  obtain st' where r: "exl.run demo_events demo_loop = Some st'" using demo_events_ok by blast
  from exchange_run_safe [OF demo_started _ _ r] r show ?thesis by (simp add: demo_loop_sel demo_products_def)
qed

text \<open>C13: In a round in which the sender is one of the traders, the message ends within the buffer and the queue has room
  for the signals that interrupt it, the exchange faults exactly when the message is an amendment that is accepted and whose new order meets an open one;
  every other round succeeds, takes exactly one signal from the queue, if there is one, and keeps
  the buffer terminated and the invariant of the loop.\<close>

theorem round_succeeds:
  assumes "loop_inv ps st" and "NUL \<in> set (buffer_read st)" and "memory_ok (in_env inp)"
    and "sig_ptr st < length (signal_array st) \<longrightarrow> proper_message st inp"
  shows "if sig_ptr st < length (signal_array st) \<and> trading_amendment st inp then iterate inp st = Inl Uninitialised
    else \<exists>out st'. iterate inp st = Inr (out, st') \<and> loop_inv ps st' \<and> NUL \<in> set (buffer_read st') \<and>
       sig_ptr st' = min (length (signal_array st)) (Suc (sig_ptr st))"
proof (cases "sig_ptr st < length (signal_array st) \<and> trading_amendment st inp")
  case True
  with take_message_ok [OF assms(1-3)] assms(4) show ?thesis by (simp add: iterate_def)
next
  case False
  have le: "sig_ptr st \<le> length (signal_array st)" using assms(1) by (simp add: loop_inv_def)
  obtain out1 st1 where 1: "(if sig_ptr st < length (signal_array st) then take_message inp st else Inr ([], st)) = Inr (out1, st1)"
    "NUL \<in> set (buffer_read st1)" "sig_ptr st1 = min (length (signal_array st)) (Suc (sig_ptr st))"
    using take_message_ok [OF assms(1-3)] assms(2,4) le False
    by (cases "sig_ptr st < length (signal_array st)") (auto simp: min_def)
  let ?st' = "snd (finish (snd (reap (in_wait inp) st1)))"
  obtain out where it: "iterate inp st = Inr (out, ?st')" using 1(1) by (simp add: iterate_def Let_def case_prod_beta)
  with iterate_inv [OF assms(1,3) it] 1(2,3) False show ?thesis by (simp add: after_message)
qed

theorem round_succeeds_witness:
  "\<exists>out st'. iterate (demo_input ''SELL 0 GPU 10 100;'') (demo_loop\<lparr>signal_array := [100]\<rparr>) = Inr (out, st') \<and> sig_ptr st' = 1"
proof -
  let ?st = "demo_loop\<lparr>signal_array := [100]\<rparr>" and ?inp = "demo_input ''SELL 0 GPU 10 100;''"
  have "loop_step (Signal 100) demo_loop = Some ?st"
    by (simp add: loop_step_def ex_step_def sig_handler_def demo_loop_sel) code_simp
  then have inv: "loop_inv demo_products ?st" by (rule exl.step_inv [OF demo_loop_inv])
  have p: "proper_message ?st ?inp" by code_simp
  have m: "memory_ok (in_env ?inp)" by (simp add: demo_input_def demo_memory)
  have "\<not> trading_amendment ?st ?inp" by code_simp
  with round_succeeds [OF inv _ m] p show ?thesis by (fastforce simp: demo_loop_sel BUFFER_READ_def)
qed

text \<open>C34: The queue of signals grows only when it is seen with exactly ten free entries: once fewer are free,
  the exchange survives at most as many further signals as there are free entries, whatever it does in
  between.\<close>

theorem queue_stops_growing:
  assumes "signal_cap st - 10 < length (signal_array st)" and "length (signal_array st) \<le> signal_cap st"
    and "length (filter is_signal vs) > signal_cap st - length (signal_array st)"
  shows "exl.run vs st = None"
  using queue_run [OF _ assms(1,2)] assms(3) by (cases "exl.run vs st") fastforce+

theorem queue_stops_growing_witness:
  "exl.run (replicate 10 (Signal 100)) (demo_loop\<lparr>signal_array := replicate 91 100\<rparr>) = None"
  by (rule queue_stops_growing) (simp_all add: is_signal_def demo_loop_sel MAX_SIGNALS_def)

text \<open>With product names of at most sixteen characters, the banner overruns its buffer exactly when there is no
  product at all, or a single one with a name longer than thirteen characters.\<close>

theorem banner_bound:
  assumes "\<forall>p\<in>set ps. length p \<le> 16"
  shows "banner_fits (int (length ps)) ps \<longleftrightarrow> ps \<noteq> [] \<and> (length ps = 1 \<longrightarrow> length (hd ps) \<le> 13)"
proof -
  let ?n = "length ps"
  have sum: "sum_list (map length ps) \<le> 16 * ?n" using assms by (induction ps) auto
  note len = product_banner_length [of ?n ps] dec_digits_length [of ?n]
  consider "ps = []" | p where "ps = [p]" | "2 \<le> ?n" by (cases ps rule: remdups_adj.cases) auto
  then show ?thesis
  proof cases
    case 3
    then have "length (product_banner (int ?n) ps) + 1 \<le> ?n * BUFFER_READ"
      using len sum by (simp add: BUFFER_READ_def)
    then have "banner_fits (int ?n) ps" unfolding banner_fits_def by (metis of_nat_1 of_nat_add of_nat_le_iff of_nat_mult)
    with 3 show ?thesis by auto
  qed (use len in \<open>simp_all add: banner_fits_def BUFFER_READ_def\<close>)
qed

theorem banner_bound_witness: "\<not> banner_fits 1 [''Graphics_Card_X'']"
  using banner_bound [of "[''Graphics_Card_X'']"] by simp

end
