(* ===== verification/Ex_Release.thy ===== *)
theory Ex_Release
  imports Ex_Loop
begin

text \<open>
  The end of \<open>main\<close>: the blocks of the heap that are still allocated when the event loop ends, and the calls of
  \<open>free\<close> in \<open>delTrader\<close>, \<open>delMarket\<close> and \<open>main\<close>, in order. Freeing a block that is not allocated is a fault.
\<close>

section \<open>Blocks\<close>

datatype block =
    Signal_array | Products | Product nat
  | Market_argv | Argv_word nat
  | Traders | Trader nat | Trader_orders nat | Trader_quantities nat | Trader_bank nat
  | Market | Orderbook | Order nat | Completed_trades | Trade nat

definition free_block :: "block \<Rightarrow> block set \<Rightarrow> fault + block set" where
  "free_block b live = (if b \<in> live then Inr (live - {b}) else Inl InvalidFree)"

fun free_all :: "block list \<Rightarrow> block set \<Rightarrow> fault + block set" where
  "free_all [] live = Inr live"
| "free_all (b # bs) live = bind_err (free_block b live) (free_all bs)"

section \<open>The calls of free\<close>

definition delTrader :: "nat \<Rightarrow> block list" where
  "delTrader i = [Trader_orders i, Trader_quantities i, Trader_bank i, Trader i]"

text \<open>\<open>disconnectTrader\<close> frees the struct only; nothing calls it.\<close>

definition disconnectTrader :: "nat option \<Rightarrow> block list" where
  "disconnectTrader tptr = (case tptr of None \<Rightarrow> [] | Some i \<Rightarrow> [Trader i])"

definition delMarket :: "exchange \<Rightarrow> block list" where
  "delMarket s =
     map Order (orderbook (market s)) @ [Orderbook] @ map Trade [0..<length (completed_trades (market s))] @ [Completed_trades]"

definition main_frees :: "loop_state \<Rightarrow> block list" where
  "main_frees st =
     map Product [0..<length (products st)] @ [Products] @
     map Argv_word [0..<COMMAND_ARGC] @ [Market_argv] @
     concat (map delTrader [0..<length (traders (ex st))]) @ [Traders] @
     delMarket (ex st) @ [Market] @
     [Signal_array]"

text \<open>What has been allocated: a cell per order that was ever created, a cell per recorded trade, and so on.\<close>

definition live_blocks :: "loop_state \<Rightarrow> block set" where
  "live_blocks st =
     {Signal_array, Products, Market_argv, Traders, Market, Orderbook, Completed_trades} \<union>
     Product ` {..<length (products st)} \<union> Argv_word ` {..<length (market_argv st)} \<union>
     Trader ` {..<length (traders (ex st))} \<union> Trader_orders ` {..<length (traders (ex st))} \<union>
     Trader_quantities ` {..<length (traders (ex st))} \<union> Trader_bank ` {..<length (traders (ex st))} \<union>
     Order ` {..<length (store (ex st))} \<union> Trade ` {..<length (completed_trades (market (ex st)))}"

section \<open>Every block is freed once\<close>

lemma free_all_ok: "distinct bs \<Longrightarrow> set bs \<subseteq> live \<Longrightarrow> free_all bs live = Inr (live - set bs)"
proof (induction bs arbitrary: live)
  case Nil
  then show ?case by simp
next
  case (Cons b bs)
  have "live - {b} - set bs = live - set (b # bs)" by auto
  moreover have "set bs \<subseteq> live - {b}" using Cons.prems by auto
  ultimately show ?case using Cons by (simp add: free_block_def)
qed

lemma set_delTraders: "set (concat (map delTrader [0..<n])) =
   Trader ` {..<n} \<union> Trader_orders ` {..<n} \<union> Trader_quantities ` {..<n} \<union> Trader_bank ` {..<n}"
  by (auto simp: delTrader_def)

lemma distinct_delTraders: "distinct (concat (map delTrader [0..<n]))"
  by (induction n) (auto simp: delTrader_def)

lemma main_frees_all:
  assumes "loop_inv ps st"
  shows "distinct (main_frees st) \<and> set (main_frees st) = live_blocks st"
proof -
  have book: "orderbook (market (ex st)) = [0..<length (store (ex st))]"
    using assms by (simp add: loop_inv_def exchange_inv_def wf_exchange_def wf_market_def)
  have argv: "length (market_argv st) = COMMAND_ARGC" using assms by (simp add: loop_inv_def)
  have "set (main_frees st) = live_blocks st"
    unfolding main_frees_def delMarket_def live_blocks_def book argv set_append set_map set_delTraders set_upt by auto
  moreover have "distinct (main_frees st)"
    unfolding main_frees_def delMarket_def book distinct_append distinct_map set_append set_map set_delTraders set_upt
    using distinct_delTraders by (auto simp: inj_on_def)
  ultimately show ?thesis by blast
qed

text \<open>After \<open>disconnectTrader\<close> the end of \<open>main\<close> would free the struct again.\<close>

lemma free_all_missing: "b \<in> set bs \<Longrightarrow> b \<notin> live \<Longrightarrow> free_all bs live = Inl InvalidFree"
  by (induction bs arbitrary: live) (auto simp: free_block_def)

lemma disconnect_then_exit:
  assumes "loop_inv ps st" "i < length (traders (ex st))"
  shows "free_all (disconnectTrader (Some i) @ main_frees st) (live_blocks st) = Inl InvalidFree"
proof -
  have i: "Trader i \<in> live_blocks st" using assms(2) by (auto simp: live_blocks_def)
  then have "Trader i \<in> set (main_frees st)" using main_frees_all [OF assms(1)] by simp
  then have "free_all (main_frees st) (live_blocks st - {Trader i}) = Inl InvalidFree" using free_all_missing by blast
  with i show ?thesis by (simp add: disconnectTrader_def free_block_def)
qed

text \<open>C16: When the exchange ends, in whatever state its loop has reached, it frees every block that is still allocated
  exactly once, each order that was ever created and each trade included: nothing is freed twice and nothing
  is left.\<close>

theorem exit_frees_everything:
  assumes "main_start w args = (out, Running st)" and "distinct (products st)" and "length (raw_buffer w) = BUFFER_READ"
    and "exl.run vs st = Some st'"
  shows "free_all (main_frees st') (live_blocks st') = Inr {}"
  using main_frees_all [OF exl.run_inv [OF start_inv [OF assms(1-3)] assms(4)]] free_all_ok [of "main_frees st'" "live_blocks st'"]
  by simp

theorem exit_frees_everything_witness:
  "\<exists>st'. exl.run demo_events demo_loop = Some st' \<and> free_all (main_frees st') (live_blocks st') = Inr {}"
proof -
  obtain st' where r: "exl.run demo_events demo_loop = Some st'" using demo_events_ok by blast
  from exit_frees_everything [OF demo_started _ _ r] r show ?thesis by (simp add: demo_loop_sel demo_products_def)
qed

end
