(* ===== verification/Ex_Text.thy ===== *)
theory Ex_Text
  imports Ex_Loop
begin

text \<open>
  The sizes of the texts that the exchange formats with \<open>sprintf\<close> into buffers of fixed size.
\<close>

definition BUFFER_PRINT :: nat where "BUFFER_PRINT = 128"

section \<open>Lengths of numbers\<close>

lemma dec_digits_upto: "n < 10 ^ k \<Longrightarrow> 0 < k \<Longrightarrow> length (dec_digits n) \<le> k"
proof (induction k arbitrary: n)
  case 0
  then show ?case by simp
next
  case (Suc k)
  show ?case
  proof (cases "n < 10")
    case True
    then show ?thesis by (simp add: dec_digits_length)
  next
    case False
    then have "0 < k" using Suc.prems(1) by (cases k) auto
    moreover have "n div 10 < 10 ^ k" using Suc.prems(1) by (simp add: less_mult_imp_div_less mult.commute)
    ultimately have "length (dec_digits (n div 10)) \<le> k" using Suc.IH by blast
    with False show ?thesis by (subst dec_digits.simps) simp
  qed
qed

lemma show_int_upto: "0 \<le> n \<Longrightarrow> n < 10 ^ k \<Longrightarrow> 0 < k \<Longrightarrow> length (show_int n) \<le> k"
  using dec_digits_upto [of "nat n" k] by (simp add: show_int_def nat_less_iff)

lemma show_int_c_int:
  assumes "c_int n = n"
  shows "length (show_int n) \<le> 11"
proof -
  have "nat (- n) < 10 ^ 10" "nat n < 10 ^ 10" using assms by (auto simp: c_int_range)
  with dec_digits_upto [of "nat (- n)" 10] dec_digits_upto [of "nat n" 10] show ?thesis by (simp add: show_int_def)
qed

section \<open>The texts\<close>

lemma match_text_bound:
  assumes wf: "wf_exchange ps s" and r: "incoming_order tr < length (store s)" "order_in_book tr < length (store s)"
    and n: "length (traders s) \<le> 10 ^ 6"
    and v: "0 \<le> transaction_quantity tr * transaction_price tr" "transaction_quantity tr * transaction_price tr < 10 ^ 13"
    and fee: "trade_tax tr = Some f" "0 \<le> f" "f < 10 ^ 12"
  shows "length (match_text s tr) < BUFFER_PRINT"
proof -
  have id: "length (show_int (order_id (ord_of s q))) \<le> 11" if "q < length (store s)" for q
    using wf_order_id [OF wf that] by (rule show_int_c_int)
  have own: "length (show_int (owner_id s q)) \<le> 6" if "q < length (store s)" for q
  proof -
    have "owner_id s q = int (trader (ord_of s q))" "trader (ord_of s q) < length (traders s)"
      using wf_traderD(1) [OF wf] wf_orderD(2) [OF wf that] by auto
    then show ?thesis using n by (intro show_int_upto) auto
  qed
  have "length (show_int (transaction_quantity tr * transaction_price tr)) \<le> 13" "length (show_int f) \<le> 12"
    using v fee by (auto intro: show_int_upto)
  with id [OF r(1)] id [OF r(2)] own [OF r(1)] own [OF r(2)]
  show ?thesis by (simp add: match_text_def LOG_PREFIX_def BUFFER_PRINT_def fee(1))
qed

lemma market_text_bound:
  assumes "length side \<le> 4" "length p < BUFFER_READ" "0 \<le> q" "q \<le> MAX_QUANTITY" "0 \<le> pr" "pr \<le> MAX_UNIT_PRICE"
  shows "length (market_text side p q pr) < BUFFER_WRITE"
proof -
  have "length (show_int q) \<le> 6" "length (show_int pr) \<le> 6" using assms by (auto intro!: show_int_upto simp: pe_limits)
  with assms(1,2) show ?thesis by (simp add: market_text_def BUFFER_READ_def BUFFER_WRITE_def)
qed

lemma fill_text_bound:
  assumes "wf_exchange ps s" "r < length (store s)" "0 \<le> q" "q \<le> MAX_QUANTITY"
  shows "length (fill_text s r q) < BUFFER_PRINT"
proof -
  have "length (show_int q) \<le> 6" using assms(3,4) by (intro show_int_upto) (auto simp: pe_limits)
  with show_int_c_int [OF wf_order_id [OF assms(1,2)]] show ?thesis by (simp add: fill_text_def BUFFER_PRINT_def)
qed

section \<open>The texts of a handler\<close>

text \<open>A text written to a trader, and a line printed without its newline, fit the buffers they are formatted in.\<close>

definition fits :: "effect \<Rightarrow> bool" where
  "fits x = (case x of Write fd m \<Rightarrow> length m < min BUFFER_WRITE BUFFER_PRINT | Print m \<Rightarrow> length m \<le> BUFFER_PRINT | _ \<Rightarrow> True)"

lemma notify_fits: "length m < BUFFER_WRITE \<Longrightarrow> \<forall>x\<in>set (write_msg e fd m). fits x"
  "length m < BUFFER_WRITE \<Longrightarrow> \<forall>x\<in>set (notify e fd pid m). fits x"
  by (simp_all add: notify_def write_msg_def fits_def BUFFER_WRITE_def BUFFER_PRINT_def)

lemma broadcast_fits: "length m < BUFFER_WRITE \<Longrightarrow> \<forall>x\<in>set (broadcast e s t m). fits x"
  using notify_fits(2) by (auto simp: broadcast_def Let_def)

lemma reject_fits: "\<forall>x\<in>set (reject e s t pid). fits x"
  unfolding reject_def by (rule notify_fits) (simp add: BUFFER_WRITE_def)

lemma report_fits:
  assumes wf: "wf_exchange ps s" and a: "a < length (store s)" and n: "length (traders s) \<le> 10 ^ 6"
    and b: "\<not> completed (ord_of s a)" "opposite s a = Some b"
  shows "\<forall>x\<in>set (report_trade e (matched a b s) (match_trade s a b)). fits x"
proof -
  let ?s' = "matched a b s" and ?tr = "match_trade s a b"
  have wf': "wf_exchange ps ?s'" by (rule matched_wf [OF wf a b])
  note q = match_quantity_bounds [OF wf a b]
  note ob = opposite_open [OF wf b(2)]
  have len: "length (store ?s') = length (store s)" "length (traders ?s') = length (traders s)" by (simp_all add: matched_sel)
  have tr: "incoming_order ?tr = a" "order_in_book ?tr = b" "transaction_quantity ?tr * transaction_price ?tr = match_value s a b"
    "transaction_quantity ?tr = match_quantity s a b" "trade_tax ?tr = Some ((match_value s a b + 50) div 100)"
    using q by (simp_all add: match_trade_def match_value_def transaction_tax_eq)
  have "match_quantity s a b \<le> MAX_QUANTITY" using q(2) wf_orderD(5) [OF wf a] by linarith
  then have fill: "length (fill_text ?s' a (match_quantity s a b)) < BUFFER_WRITE"
    "length (fill_text ?s' b (match_quantity s a b)) < BUFFER_WRITE"
    using q(1) a ob(1) fill_text_bound [OF wf'] by (auto simp: len BUFFER_WRITE_def BUFFER_PRINT_def)
  have "length (match_text ?s' ?tr) < BUFFER_PRINT"
    by (rule match_text_bound [OF wf' _ _ _ _ _ tr(5)]) (use a n ob(1) q in \<open>simp_all add: tr(1-3) len\<close>)
  then have "fits (Print (match_text ?s' ?tr @ [NL]))" by (simp add: fits_def)
  with notify_fits(1) [OF fill(1)] notify_fits(1) [OF fill(2)] show ?thesis
    by (auto simp: report_trade_def Let_def tr fits_def)
qed

lemma run_match_fits:
  assumes "wf_exchange ps s" "r < length (store s)" "length (traders s) \<le> 10 ^ 6" "memory_ok e" "run_match fuel e r s = Inr (out, s')"
  shows "\<forall>x\<in>set out. fits x"
  using assms
proof (induction fuel arbitrary: s out)
  case 0
  then show ?case
    by (auto simp: run_match_def try_match_def memory_ok_def place_wf [OF 0(1,2)] split: if_splits option.splits)
next
  case (Suc fuel)
  note pl = place_wf [OF Suc.prems(1,2)]
  show ?case
  proof (cases "completed (ord_of s r) \<or> opposite s r = None")
    case True
    with Suc.prems(4,5) show ?thesis by (auto simp: run_match_def try_match_def memory_ok_def pl split: if_splits)
  next
    case False
    then obtain b where b: "\<not> completed (ord_of s r)" "opposite s r = Some b" by auto
    then obtain out1 where o: "run_match fuel e r (matched r b s) = Inr (out1, s')"
      "out = report_trade e (matched r b s) (match_trade s r b) @ out1"
      using Suc.prems(4,5) by (auto simp: run_match_def try_match_def memory_ok_def pl split: prod.splits)
    with Suc.IH [OF matched_wf [OF Suc.prems(1,2) b] _ _ Suc.prems(4) o(1)] report_fits [OF Suc.prems(1-3) b] Suc.prems(2,3)
    show ?thesis by (auto simp: matched_sel)
  qed
qed

definition announcement :: "order_struct \<Rightarrow> string" where
  "announcement x = market_text (side_text (order_type x)) (item x) (quantity x) (unit_price x)"

lemma announcement_fits:
  assumes "wf_exchange ps s" "r < length (store s)" "\<forall>p\<in>set ps. length p < BUFFER_READ"
  shows "length (announcement (ord_of s r)) < BUFFER_WRITE"
    "length (market_text (side_text (order_type (ord_of s r))) (item (ord_of s r)) 0 0) < BUFFER_WRITE"
  unfolding announcement_def using wf_orderD [OF assms(1,2)] assms(3)
  by (auto intro!: market_text_bound simp: side_text_def pe_limits split: order_type.split)

lemma id_text_fits:
  assumes "wf_exchange ps s" "r < length (store s)" "length w \<le> 10"
  shows "length (w @ show_int (order_id (ord_of s r)) @ '';'') < BUFFER_WRITE"
  using show_int_c_int [OF wf_order_id [OF assms(1,2)]] assms(3) by (simp add: BUFFER_WRITE_def)

lemma strtok_from_length: "w \<in> set (strtok_from tok m) \<Longrightarrow> length w \<le> length tok + length m"
  by (induction tok m rule: strtok_from.induct) (auto split: if_splits)

lemma read_message_amend:
  assumes "read_message m av ps = (AMEND_REQUEST, argv, out)"
  shows "length (argv ! 1) \<le> length m"
proof -
  have "length (take 6 (strtok_all m)) = 4" "argv ! 1 = take 6 (strtok_all m) ! 1"
    using assms by (auto simp: read_message_def Let_def nth_append split: if_splits)
  then have "argv ! 1 \<in> set (strtok_all m)" by (metis in_set_takeD nth_mem one_less_numeral_iff semiring_norm(76))
  then show ?thesis using strtok_from_length [of "argv ! 1" "[]" m] by (simp add: strtok_all_def)
qed

text \<open>What a handler sends and prints before it prints the book.\<close>

definition news_fit :: "exchange \<Rightarrow> string list \<Rightarrow> effect list \<Rightarrow> bool" where
  "news_fit s ps out \<longleftrightarrow> (\<exists>news. (out = news \<or> out = news @ print_book s ps) \<and> (\<forall>x\<in>set news. fits x))"

lemma handle_order_fits:
  assumes wf: "wf_exchange ps s" and t: "t < length (traders s)" and mem: "memory_ok e" and n: "length (traders s) \<le> 10 ^ 6"
    and ps: "\<forall>p\<in>set ps. length p < BUFFER_READ" and argv: "argv ! 2 \<in> set ps" "argv ! 0 = ''BUY'' \<or> argv ! 0 = ''SELL''"
    and h: "handle_order e ps argv t pid s = Inr (out, s')"
  shows "news_fit s' ps out"
proof (cases "newOrder_fields argv s t (order_type_of (argv ! 0))")
  case None
  with h reject_fits show ?thesis by (auto simp: handle_order_None news_fit_def)
next
  case (Some x)
  let ?s = "entered t x s" and ?n = "length (store s)"
  have v: "valid_order ps t x" by (rule newOrder_valid [OF Some argv(1)])
  note wf' = entered_wf [OF wf t v]
  have o: "ord_of ?s ?n = x\<lparr>order_index := int ?n\<rparr>" "?n < length (store ?s)" "length (traders ?s) = length (traders s)"
    by (simp_all add: entered_sel)
  have k: "side_text (order_type x) = argv ! 0"
    using Some argv(2) by (auto simp: newOrder_fields_def order_type_of_def Let_def side_text_def split: if_splits)
  obtain out1 where r: "run_match (Suc (nat (quantity x))) e ?n ?s = Inr (out1, s')"
    and out: "out = notify e (fd_w (traders ?s ! t)) pid (''ACCEPTED '' @ show_int (order_id x) @ '';'') @
         broadcast e ?s t (market_text (argv ! 0) (item x) (quantity x) (unit_price x)) @ out1 @ print_book s' ps"
    using h handle_order_eq [OF wf mem Some, of pid] by auto
  have "\<forall>y\<in>set out1. fits y" by (rule run_match_fits [OF wf' o(2) _ mem r]) (use n in \<open>simp add: o\<close>)
  moreover have "length (''ACCEPTED '' @ show_int (order_id x) @ '';'') < BUFFER_WRITE"
    using id_text_fits [OF wf' o(2), of "''ACCEPTED ''"] unfolding o(1) by simp
  note notify_fits(2) [OF this]
  moreover have "length (market_text (argv ! 0) (item x) (quantity x) (unit_price x)) < BUFFER_WRITE"
    using announcement_fits(1) [OF wf' o(2) ps] unfolding o(1) by (simp add: announcement_def k)
  note broadcast_fits [OF this]
  ultimately show ?thesis unfolding news_fit_def
    by (intro exI [of _ "notify e (fd_w (traders ?s ! t)) pid (''ACCEPTED '' @ show_int (order_id x) @ '';'') @
         broadcast e ?s t (market_text (argv ! 0) (item x) (quantity x) (unit_price x)) @ out1"]) (auto simp: out)
qed

lemma handle_cancel_fits:
  assumes wf: "wf_exchange ps s" and t: "t < length (traders s)" and ps: "\<forall>p\<in>set ps. length p < BUFFER_READ"
    and h: "handle_cancel e ps argv t pid s = Inr (out, s')"
  shows "news_fit s' ps out"
proof (cases "isNumeric (argv ! 1) \<and> (\<exists>r. getOrder t (atoi (argv ! 1)) s = Some r \<and> \<not> completed (ord_of s r))")
  case False
  then have "handle_cancel e ps argv t pid s = Inr (reject e s t pid, s)" by (auto simp: handle_cancel_def split: option.split)
  with h reject_fits show ?thesis by (auto simp: news_fit_def)
next
  case True
  then obtain r where r: "getOrder t (atoi (argv ! 1)) s = Some r" "\<not> completed (ord_of s r)" by blast
  note m = getOrder_member [OF wf t r(1)]
  let ?s = "closeOrder r s"
  have wf': "wf_exchange ps ?s" by (rule close_wf [OF wf m(1)])
  have n: "r < length (store ?s)" using m(1) by (simp add: close_sel)
  have i: "order_id (ord_of ?s r) = atoi (argv ! 1)" using m(1,3) by (simp add: ord_closeOrder)
  let ?news = "notify e (fd_w (traders ?s ! t)) pid (''CANCELLED '' @ show_int (order_id (ord_of ?s r)) @ '';'') @
     broadcast e ?s t (market_text (side_text (order_type (ord_of ?s r))) (item (ord_of ?s r)) 0 0)"
  have "handle_cancel e ps argv t pid s = Inr (?news @ print_book ?s ps, ?s)"
    using True r unfolding i by (simp add: handle_cancel_def Let_def)
  moreover have "\<forall>x\<in>set ?news. fits x"
    using notify_fits(2) [OF id_text_fits [OF wf' n, of "''CANCELLED ''"]] broadcast_fits [OF announcement_fits(2) [OF wf' n ps]] by auto
  ultimately show ?thesis using h unfolding news_fit_def by auto
qed

lemma handle_amend_fits:
  assumes wf: "wf_exchange ps s" and t: "t < length (traders s)" and mem: "memory_ok e" and n: "length (traders s) \<le> 10 ^ 6"
    and ps: "\<forall>p\<in>set ps. length p < BUFFER_READ" and argv: "length (argv ! 1) < BUFFER_READ"
  shows "case handle_amend e ps argv t pid s of
      Inr (out, s') \<Rightarrow> news_fit s' ps out
    | Inl _ \<Rightarrow> \<exists>s1 tr s2. amend e argv t s = (0, s1) \<and> getOrder t (atoi (argv ! 1)) s1 = Some (length (store s)) \<and>
        place True (length (store s)) s1 = (Some tr, s2) \<and>
        length (''AMENDED '' @ argv ! 1 @ '';'') < BUFFER_WRITE \<and> length (announcement (ord_of s1 (length (store s)))) < BUFFER_WRITE \<and>
        (\<forall>x\<in>set (report_trade e s2 tr). fits x)"
proof (cases rule: amend_cases [OF wf t mem, of argv])
  case 1
  then have "handle_amend e ps argv t pid s = Inr (reject e s t pid, s)" by (simp add: handle_amend_def)
  with reject_fits show ?thesis by (auto simp: news_fit_def)
next
  case (2 r x)
  let ?n = "length (store s)" and ?s = "amended t r x s"
  note b = wf_book [OF wf]
  have wf': "wf_exchange ps ?s" using 2 by (intro amended_wf [OF wf _ t]) auto
  have get: "getOrder t (atoi (argv ! 1)) ?s = Some ?n" using getOrder_amended [OF wf 2(2) t 2(6,3)] 2 by simp
  have m: "?n < length (store ?s)" by (simp add: amended_ord(3) [OF b 2(2)])
  have c: "\<not> completed (ord_of ?s ?n)" using 2(6) by (simp add: amended_ord(2) [OF b 2(2)] valid_order_def)
  have tn: "length (traders ?s) \<le> 10 ^ 6" using n by (simp add: amended_trader(10) [OF b 2(2) t])
  have w: "length (''AMENDED '' @ argv ! 1 @ '';'') < BUFFER_WRITE" using argv by (simp add: BUFFER_READ_def BUFFER_WRITE_def)
  note an = announcement_fits(1) [OF wf' m ps]
  note pl = place_wf [OF wf' m]
  let ?news = "notify e (fd_w (traders ?s ! t)) pid (''AMENDED '' @ argv ! 1 @ '';'') @ broadcast e ?s t (announcement (ord_of ?s ?n))"
  show ?thesis
  proof (cases "opposite ?s ?n")
    case None
    with 2(1) get pl c mem have "handle_amend e ps argv t pid s = Inr (?news @ print_book ?s ps, ?s)"
      by (simp add: handle_amend_def Let_def try_match_def memory_ok_def announcement_def)
    moreover have "\<forall>x\<in>set ?news. fits x" using notify_fits(2) [OF w] broadcast_fits [OF an] by auto
    ultimately show ?thesis unfolding news_fit_def by auto
  next
    case (Some q)
    with 2(1) get pl c mem have "handle_amend e ps argv t pid s = Inl Uninitialised"
      by (simp add: handle_amend_def Let_def try_match_def memory_ok_def)
    moreover have "place True ?n ?s = (Some (match_trade ?s ?n q), matched ?n q ?s)" using pl c Some by simp
    ultimately show ?thesis using 2(1) get w an report_fits [OF wf' m tn c Some] by auto
  qed
qed

text \<open>C17: Every text that the exchange formats while it handles a message fits the buffer of 128 bytes it is formatted into: the answers ACCEPTED,
  AMENDED, CANCELLED and INVALID, the announcement of the new order before it is matched, of an amended order and of a cancelled one, and
  the line and the two FILL messages of every trade. This holds in any well-formed exchange with up to a million traders, with product names as
  they are read from the products file, and for any message read from the 40 bytes of its buffer. Only the book is printed without a buffer. Where an amendment runs into the uninitialised
  variable, the texts formatted until then fit.\<close>

theorem texts_fit_buffers:
  assumes "wf_exchange ps s" and "t < length (traders s)" and "memory_ok e" and "length (traders s) \<le> 10 ^ 6"
    and "\<forall>p\<in>set ps. length p < BUFFER_READ" and "read_message m old_argv ps = (state, argv, out0)" and "length m < BUFFER_READ"
  shows "case handle_message e ps state argv t pid s of
      Inr (out, s') \<Rightarrow> \<exists>news. (out = news \<or> out = news @ print_book s' ps) \<and> (\<forall>x\<in>set news. fits x)
    | Inl _ \<Rightarrow> \<exists>s1 tr s2. state = AMEND_REQUEST \<and> amend e argv t s = (0, s1) \<and> getOrder t (atoi (argv ! 1)) s1 = Some (length (store s)) \<and>
        place True (length (store s)) s1 = (Some tr, s2) \<and>
        length (''AMENDED '' @ argv ! 1 @ '';'') < BUFFER_WRITE \<and> length (announcement (ord_of s1 (length (store s)))) < BUFFER_WRITE \<and>
        (\<forall>x\<in>set (report_trade e s2 tr). fits x)"
proof (cases state)
  case ORDER_RECEIVED
  note a = read_message_product [OF assms(6) [unfolded ORDER_RECEIVED]]
  have "\<exists>out s'. handle_order e ps argv t pid s = Inr (out, s')"
    using handle_order_None [of argv s t e ps pid] handle_order_Some [OF assms(1-3) _ a(1), where pid = pid]
    by (cases "newOrder_fields argv s t (order_type_of (argv ! 0))") blast+
  with handle_order_fits [OF assms(1-5) a, of pid] show ?thesis
    by (auto simp: handle_message_def ORDER_RECEIVED news_fit_def)
next
  case AMEND_REQUEST
  have "length (argv ! 1) < BUFFER_READ" using read_message_amend assms(6,7) AMEND_REQUEST by (metis le_less_trans)
  from handle_amend_fits [OF assms(1-5) this, of pid] show ?thesis
    by (cases "handle_amend e ps argv t pid s") (auto simp: handle_message_def AMEND_REQUEST news_fit_def)
next
  case CANCEL_REQUEST
  with handle_cancel_fits [OF assms(1,2,5), of e argv pid] handle_cancel_cases [OF assms(1,2), of e argv pid] show ?thesis
    by (auto simp: handle_message_def news_fit_def)
next
  case INVALID_MESSAGE
  then show ?thesis using reject_fits by (auto simp: handle_message_def)
qed

theorem texts_fit_buffers_witness:
  "\<exists>out s' news. handle_message demo_env demo_products ORDER_RECEIVED [''BUY'', ''0'', ''GPU'', ''4'', ''120'', []] 1 7 demo1 = Inr (out, s') \<and>
     (out = news \<or> out = news @ print_book s' demo_products) \<and> (\<forall>x\<in>set news. fits x)"
proof -
  let ?argv = "[''BUY'', ''0'', ''GPU'', ''4'', ''120'', []]"
  have r: "read_message ''BUY 0 GPU 4 120'' (replicate 6 []) demo_products = (ORDER_RECEIVED, ?argv, [])" by code_simp
  have "\<forall>p\<in>set demo_products. length p < BUFFER_READ" "length ''BUY 0 GPU 4 120'' < BUFFER_READ"
    "1 < length (traders demo1)" "length (traders demo1) \<le> 10 ^ 6"
    by (simp_all add: demo_products_def BUFFER_READ_def demo_sizes)
  note f = texts_fit_buffers [OF demo1_wf(1) this(3) demo_memory this(4,1) r this(2), of 7]
  show ?thesis
  proof (cases "handle_message demo_env demo_products ORDER_RECEIVED ?argv 1 7 demo1")
    case (Inl x)
    with f show ?thesis by simp
  next
    case (Inr y)
    obtain out s' where "y = (out, s')" by (cases y)
    with Inr f show ?thesis by auto
  qed
qed

end
