(* ===== verification/Ex_Wires.thy ===== *)
theory Ex_Wires
  imports Ex_Main
begin

text \<open>
  What the handling of messages never changes: how each trader is connected (its process, its pipes, whether it is
  still there), whatever it does to orders and accounts.
\<close>

definition wire :: "trader_struct \<Rightarrow> int \<times> int \<times> int \<times> bool" where
  "wire t = (trader_pid t, fd_w t, fd_r t, disconnected t)"

definition wires :: "exchange \<Rightarrow> (int \<times> int \<times> int \<times> bool) list" where
  "wires s = map wire (traders s)"

lemma wires_upd_trader: "(\<And>x. wire (f x) = wire x) \<Longrightarrow> wires (upd_trader t f s) = wires s"
  by (auto simp: wires_def upd_trader_def map_update intro: nth_equalityI)
    (metis list_update_beyond list_update_id length_map linorder_not_less nth_map)

lemma wire_account: "wire (snd (buy t p q pr)) = wire t" "wire (snd (sell t p q pr)) = wire t" "wire (tax t a p) = wire t"
proof -
  have "wire (tax_loop n i t a p) = wire t" for n i
    by (induction n i t a p rule: tax_loop.induct) (auto simp: wire_def)
  then show "wire (tax t a p) = wire t" by (simp add: tax_def)
qed (auto simp: buy_def sell_def wire_def split: option.split)

lemma wires_simps [simp]:
  "wires (upd_order r f s) = wires s" "wires (upd_market g s) = wires s" "wires (closeOrder r s) = wires s"
  "wires (adjustAmount r n s) = wires s" "wires (snd (addTrade ok tr s)) = wires s" "wires (set_trade_tax a s) = wires s"
  "wires (add_fee a s) = wires s" "wires (close_if_filled r s) = wires s" "wires (snd (marketAddOrder ok r s)) = wires s"
  by (simp_all add: wires_def closeOrder_def adjustAmount_def addTrade_def set_trade_tax_def add_fee_def close_if_filled_def
      marketAddOrder_def Let_def)

lemma wires_set_trader: "wire x = wire (traders s ! t) \<Longrightarrow> wires (upd_trader t (\<lambda>_. x) s) = wires s"
  by (metis (no_types, lifting) list_update_beyond list_update_id linorder_not_less map_update upd_trader_def nth_map wires_def
      exchange.simps(2) exchange.surjective exchange.update_convs(2) length_map)

lemma wires_settle [simp]:
  "wires (snd (buy_at t p q pr s)) = wires s" "wires (snd (sell_at t p q pr s)) = wires s" "wires (tax_at t f p s) = wires s"
  "wires (charge_tax a b f s) = wires s"
proof -
  show "wires (snd (buy_at t p q pr s)) = wires s"
    using wires_set_trader wire_account(1) by (simp add: buy_at_def case_prod_beta)
  show "wires (snd (sell_at t p q pr s)) = wires s"
    using wires_set_trader wire_account(2) by (simp add: sell_at_def case_prod_beta)
  show t: "wires (tax_at t f p s) = wires s" for t p s
    unfolding tax_at_def by (rule wires_upd_trader) (rule wire_account(3))
  show "wires (charge_tax a b f s) = wires s" by (simp add: charge_tax_def t)
qed

lemma wires_place [simp]: "wires (snd (placeBuyOrder ok r s)) = wires s" "wires (snd (placeSellOrder ok r s)) = wires s"
  by (auto simp: placeBuyOrder_def placeSellOrder_def Let_def case_prod_beta split: option.split)

lemma wires_try_match [simp]: "wires (snd (try_match e a s)) = wires s"
  by (simp add: try_match_def place_def split: order_type.split)

lemma wires_fill_loop: "fill_loop n e a tr s = Inr (out, s') \<Longrightarrow> wires s' = wires s"
proof (induction n e a tr s arbitrary: out rule: fill_loop.induct)
  case (3 fuel e a tr s)
  obtain nt s1 where t: "try_match e a s = (nt, s1)" by fastforce
  with "3.prems" obtain out2 where "fill_loop fuel e a nt s1 = Inr (out2, s')" by auto
  with 3(1) [of "(nt, s1)"] t wires_try_match [of e a s] show ?case by simp
qed auto

lemma wires_newOrder [simp]: "wires (snd (newOrder argv t ty s)) = wires s"
  by (simp add: newOrder_def alloc_order_def wires_def split: option.split)

lemma wires_amend: "wires (snd (amend e argv t s)) = wires s"
proof -
  have "wires (traderAmendOrder t r s) = wires s" for t r s
    unfolding traderAmendOrder_def by (rule wires_upd_trader) (simp add: wire_def)
  then have "wires (snd (amend_loop e argv oid t rs s)) = wires s" for oid rs
    by (induction rs) (auto split: option.split prod.split dest!: arg_cong [where f = "\<lambda>x. wires (snd x)"])
  then show ?thesis by (simp add: amend_def Let_def)
qed

lemma wires_order:
  assumes "handle_order e ps argv t pid s = Inr (out, s')"
  shows "wires s' = wires s"
proof (cases "newOrder argv t (order_type_of (argv ! 0)) s")
  case (Pair ro s1)
  have w1: "wires s1 = wires s" using wires_newOrder [of argv t "order_type_of (argv ! 0)" s] Pair by simp
  show ?thesis
  proof (cases ro)
    case None
    with assms Pair show ?thesis by (simp add: handle_order_def)
  next
    case (Some r)
    let ?s2 = "snd (marketAddOrder (book_mem e) r s1)"
    let ?s3 = "upd_trader t (\<lambda>x. snd (traderAddOrder (orders_mem e) x r)) ?s2"
    obtain tr s4 where m: "try_match e r ?s3 = (tr, s4)" by fastforce
    have "wires ?s3 = wires ?s2" by (rule wires_upd_trader) (simp add: traderAddOrder_def wire_def)
    then have "wires s4 = wires s" using wires_try_match [of e r ?s3] w1 m by simp
    then show ?thesis
      using assms Pair Some m by (auto simp: handle_order_def Let_def dest: wires_fill_loop)
  qed
qed

lemma wires_message:
  assumes "handle_message e ps state argv t pid s = Inr (out, s')"
  shows "wires s' = wires s"
proof (cases state)
  case AMEND_REQUEST
  obtain rc s1 where a: "amend e argv t s = (rc, s1)" by fastforce
  have w: "wires s1 = wires s" using wires_amend [of e argv t s] a by simp
  show ?thesis
  proof (cases "rc = 0")
    case False
    with assms AMEND_REQUEST a w show ?thesis by (simp add: handle_message_def handle_amend_def)
  next
    case True
    with assms AMEND_REQUEST a obtain r where r: "getOrder t (atoi (argv ! 1)) s1 = Some r"
      by (cases "getOrder t (atoi (argv ! 1)) s1") (auto simp: handle_message_def handle_amend_def)
    obtain tr s2 where m: "try_match e r s1 = (tr, s2)" by fastforce
    with assms AMEND_REQUEST a True r have "s' = s2"
      by (cases tr) (simp_all add: handle_message_def handle_amend_def Let_def)
    with w m wires_try_match [of e r s1] show ?thesis by simp
  qed
qed (use assms wires_order in \<open>auto simp: handle_message_def handle_cancel_def Let_def split: if_splits option.splits\<close>)

lemma find_trader_wires: "find_trader s pid = List.find (\<lambda>i. fst (wires s ! i) = pid) [0..<length (wires s)]"
  unfolding find_trader_def by (rule find_cong) (auto simp: wires_def wire_def)

end
