(* ===== verification/Tr_Auto.thy ===== *)
theory Tr_Auto
  imports Ex_State
begin

text \<open>
  The auto-trader \<open>private_exchange/pe_trader.c\<close>: it reads the exchange's messages, answers
  every SELL announced with a BUY of the same size, and leaves when a large order is announced.
  Signals are counted, one message is read per signal.
\<close>

section \<open>Messages from the exchange\<close>

datatype exc_message = MARKET_ORDER | BAD_MESSAGE | VALID_MESSAGE | MARKET_OPEN

record market_order =
  m_type :: order_type
  m_item :: string
  m_quantity :: int
  m_price :: int

text \<open>\<open>process_order\<close> on the words of a MARKET message; the pointer is NULL for \<open>None\<close>.\<close>

definition process_order :: "string list \<Rightarrow> market_order option" where
  "process_order argv =
     (if (argv ! 1 \<noteq> ''BUY'' \<and> argv ! 1 \<noteq> ''SELL'') \<or> \<not> isNumeric (argv ! 3) \<or> \<not> isNumeric (argv ! 4) then None
      else let q = atoi (argv ! 3); p = atoi (argv ! 4) in
        if q \<le> 0 \<or> q > MAX_QUANTITY then None
        else if p \<le> 0 \<or> p > MAX_UNIT_PRICE then None
        else Some \<lparr>m_type = (if argv ! 1 = ''SELL'' then SELL else BUY), m_item = argv ! 2, m_quantity = q, m_price = p\<rparr>)"

text \<open>
  \<open>read_from_exc\<close> after the message has been cut at its semicolon: the kind of the message
  and the words, stored over the front of \<open>market_argv\<close>.
\<close>

definition read_from_exc :: "string \<Rightarrow> string list \<Rightarrow> exc_message \<times> string list" where
  "read_from_exc message market_argv =
     (if message = ''MARKET OPEN'' then (MARKET_OPEN, market_argv)
      else if message = [] then (BAD_MESSAGE, market_argv)
      else if hd message = CHR '' '' \<or> last message = CHR '' '' then (BAD_MESSAGE, market_argv)
      else if double_space message then (BAD_MESSAGE, market_argv)
      else
        let toks = take 6 (strtok_all message); argc = length toks;
            argv = toks @ drop argc market_argv in
        if argc > 5 then (BAD_MESSAGE, argv)
        else if argv ! 0 = ''MARKET'' then (if argc \<noteq> 5 then (BAD_MESSAGE, argv) else (MARKET_ORDER, argv))
        else if argv ! 0 = ''ACCEPTED'' then (if argc \<noteq> 2 then (BAD_MESSAGE, argv) else (VALID_MESSAGE, argv))
        else if argv ! 0 = ''FILL'' then (if argc \<noteq> 3 then (BAD_MESSAGE, argv) else (VALID_MESSAGE, argv))
        else (BAD_MESSAGE, argv))"

section \<open>State and start\<close>

record auto_state =
  a_fd_R :: int
  a_fd_W :: int
  a_exchange_pid :: int
  a_argv :: "string list"
  a_buffer :: string
  a_signal_count :: nat
  a_signal_ptr :: nat
  a_orderID :: int
  a_disconnect :: bool

text \<open>
  \<open>main\<close> up to the event loop: \<open>args\<close> are \<open>argv[1..]\<close>; the results of \<open>sigaction\<close>, \<open>open\<close>
  (by path) and \<open>getppid\<close> and the raw contents of \<open>buffer_read\<close> come from outside.
\<close>

record auto_os =
  a_sigaction_ok :: bool
  a_open :: "string \<Rightarrow> int"
  a_getppid :: int
  a_raw :: string

definition valid_trader_id :: "string \<Rightarrow> bool" where
  "valid_trader_id w \<longleftrightarrow> isNumeric w \<and> \<not> (atoi w < 0 \<or> atoi w \<ge> MAX_TRADERS)"

definition auto_start :: "auto_os \<Rightarrow> string list \<Rightarrow> effect list \<times> (int + auto_state)" where
  "auto_start w args =
     (if args = [] then ([Print (''Not enough arguments'' @ [NL])], Inl 1)
      else if \<not> isNumeric (hd args) then ([Print (''Invalid Trader ID'' @ [NL])], Inl 1)
      else let tid = atoi (hd args) in
        if tid < 0 \<or> tid \<ge> MAX_TRADERS then ([Print (''Invalid Trader ID'' @ [NL])], Inl 1)
        else if \<not> a_sigaction_ok w then ([], Inl 1)
        else ([], Inr \<lparr>a_fd_R = a_open w (''/tmp/pe_exchange_'' @ show_int tid),
                       a_fd_W = a_open w (''/tmp/pe_trader_'' @ show_int tid),
                       a_exchange_pid = a_getppid w, a_argv = replicate 6 [], a_buffer = a_raw w,
                       a_signal_count = 0, a_signal_ptr = 0, a_orderID = 0, a_disconnect = False\<rparr>))"

definition auto_sig_handler :: "auto_state \<Rightarrow> auto_state" where
  "auto_sig_handler st = st\<lparr>a_signal_count := Suc (a_signal_count st)\<rparr>"

section \<open>The event loop\<close>

definition order_text :: "string \<Rightarrow> int \<Rightarrow> string \<Rightarrow> int \<Rightarrow> int \<Rightarrow> string" where
  "order_text side oid p q pr =
     side @ '' '' @ show_int oid @ '' '' @ p @ '' '' @ show_int q @ '' '' @ show_int pr @ '';''"

definition bump_id :: "auto_state \<Rightarrow> auto_state" where
  "bump_id st = st\<lparr>a_orderID := c_int (a_orderID st + 1)\<rparr>"

text \<open>
  The \<open>switch\<close>. The case of a market order leaves it by \<open>break\<close> only after a large order or
  after answering a SELL; otherwise it falls through into the case of an invalid message.
\<close>

definition auto_react :: "(int \<Rightarrow> string \<Rightarrow> bool) \<Rightarrow> exc_message \<Rightarrow> auto_state \<Rightarrow> effect list \<times> auto_state" where
  "auto_react write_ok state st =
     (case state of
        MARKET_ORDER \<Rightarrow>
          (case process_order (a_argv st) of
             None \<Rightarrow> ([], bump_id st)
           | Some o' \<Rightarrow>
               if m_quantity o' \<ge> 1000 then ([], st\<lparr>a_disconnect := True\<rparr>)
               else if m_type o' = SELL then
                 let txt = order_text ''BUY'' (a_orderID st) (m_item o') (m_quantity o') (m_price o') in
                 ((if write_ok (a_fd_W st) txt then [Write (a_fd_W st) txt] else [Print (''write failed'' @ [NL])])
                    @ [Kill (a_exchange_pid st)], bump_id st)
               else ([], bump_id st))
      | BAD_MESSAGE \<Rightarrow> ([], bump_id st)
      | _ \<Rightarrow> ([], st))"

definition auto_message :: "(int \<Rightarrow> string \<Rightarrow> bool) \<Rightarrow> string \<Rightarrow> auto_state \<Rightarrow> fault + effect list \<times> auto_state" where
  "auto_message write_ok bytes st =
     bind_err (clear_cstr (a_buffer st)) (\<lambda>b0.
     bind_err (cut_message (read_into bytes (b0[0 := NUL]))) (\<lambda>b1.
       let msg = cstr b1; (state, argv) = read_from_exc msg (a_argv st);
           b2 = (if spacing_ok msg \<and> msg \<noteq> ''MARKET OPEN'' then null_spaces 7 b1 else b1) in
       bind_err (clear_cstr b2) (\<lambda>b3.
         let (out, st') = auto_react write_ok state (st\<lparr>a_argv := argv, a_buffer := b3\<rparr>)
         in Inr (out, st'\<lparr>a_signal_ptr := Suc (a_signal_ptr st')\<rparr>))))"

definition auto_round :: "(int \<Rightarrow> string \<Rightarrow> bool) \<Rightarrow> string \<Rightarrow> auto_state \<Rightarrow> fault + effect list \<times> auto_state" where
  "auto_round write_ok bytes st =
     (if a_disconnect st then Inr ([], st)
      else if a_signal_ptr st < a_signal_count st then auto_message write_ok bytes st
      else Inr ([], st))"

definition auto_finish :: "auto_state \<Rightarrow> effect list" where
  "auto_finish st = (if a_disconnect st then [Close (a_fd_R st), Close (a_fd_W st)] else [])"

end
