(* ===== verification/Tr_Milestone.thy ===== *)
theory Tr_Milestone
  imports Ex_State
begin

text \<open>
  The earlier pair of programs in \<open>auto_trader\<close>: its trader (\<open>pe_trader.c\<close>), which is told of a
  message by a flag, and its exchange (\<open>pe_exchange.c\<close>), which only launches traders. Both use
  \<open>BUFFER_READ\<close>, which their headers call \<open>BUFFER_SIZE\<close>; the model gives it that value, 40.
\<close>

section \<open>The trader\<close>

text \<open>\<open>order_type\<close> is \<open>-1\<close> until an order has been stored, then 1.\<close>

record ms_order =
  ms_type :: int
  ms_item :: string
  ms_quantity :: int
  ms_price :: int

definition flag_text :: "bool \<Rightarrow> string" where
  "flag_text b = (if b then ''1'' else ''0'')"

definition ms_process_order :: "string list \<Rightarrow> ms_order \<Rightarrow> int \<times> effect list \<times> ms_order" where
  "ms_process_order argv x0 =
     (let bad = (argv ! 1 \<noteq> ''BUY'' \<and> argv ! 1 \<noteq> ''SELL'') in
      if bad \<or> \<not> isNumeric (argv ! 3) \<or> \<not> isNumeric (argv ! 4) then
        (1, [Print (flag_text bad @ '' '' @ flag_text (\<not> isNumeric (argv ! 3)) @ '' '' @ flag_text (\<not> isNumeric (argv ! 4)) @ [NL])], x0)
      else let q = atoi (argv ! 3) in
        if q < 0 \<or> q \<ge> 1000 then (2, [], x0)
        else if argv ! 1 = ''SELL'' then
          (0, [], x0\<lparr>ms_type := 1, ms_item := argv ! 2, ms_quantity := q, ms_price := atoi (argv ! 4)\<rparr>)
        else (1, [], x0))"

text \<open>
  \<open>read_from_exc\<close> on the cut message; the array \<open>market_argv\<close> has five entries, and the loop
  that fills it does not count.
\<close>

definition ms_read :: "string \<Rightarrow> ms_order \<Rightarrow> fault + int \<times> effect list \<times> ms_order" where
  "ms_read buffer x0 =
     (if buffer = ''MARKET OPEN'' then Inr (4, [], x0)
      else if buffer = [] then Inr (1, [Print (''Null input'' @ [NL])], x0)
      else if hd buffer = CHR '' '' \<or> last buffer = CHR '' '' then Inr (1, [Print (''Invalid - leading/end'' @ [NL])], x0)
      else if double_space buffer then Inr (1, [Print (''Invalid - consecutive whitespaces'' @ [NL])], x0)
      else let argv = strtok_all buffer; argc = length argv in
        if argc > 5 then Inl BufferOverrun
        else if argv ! 0 = ''MARKET'' then
          (if argc \<noteq> 5 then Inr (1, [Print (''Market - Too many arguments: '' @ show_int (int argc) @ [NL])], x0)
           else Inr (ms_process_order argv x0))
        else if argv ! 0 = ''ACCEPTED'' then
          (if argc \<noteq> 2 then Inr (1, [Print (''Accepted - Too many arguments'' @ [NL])], x0) else Inr (3, [], x0))
        else if argv ! 0 = ''INVALID'' then Inr (1, [Print (''Exchange message - Invalid'' @ [NL])], x0)
        else Inr (4, [], x0))"

record ms_state =
  ms_fd_R :: int
  ms_fd_W :: int
  ms_exchange_pid :: int
  ms_buffer :: string
  ms_order_var :: ms_order
  ms_message_in :: bool
  ms_orderID :: int
  ms_disconnect :: bool

record ms_os =
  ms_sigaction_ok :: bool
  ms_open :: "string \<Rightarrow> int"
  ms_getppid :: int
  ms_raw :: string

definition ms_start :: "ms_os \<Rightarrow> string list \<Rightarrow> effect list \<times> (int + ms_state)" where
  "ms_start w args =
     (let hello = [Print (''trader - '' @ show_int (int (Suc (length args))) @ [NL])] in
      if args = [] then (hello @ [Print (''Trader - Not enough arguments'' @ [NL])], Inl 1)
      else if \<not> isNumeric (hd args) then (hello @ [Print (''Invalid Trader ID'' @ [NL])], Inl 1)
      else let tid = atoi (hd args) in
        if tid < 0 \<or> tid \<ge> MAX_TRADERS then (hello @ [Print (''Invalid Trader ID'' @ [NL])], Inl 1)
        else if \<not> ms_sigaction_ok w then (hello, Inl 1)
        else
          let exc2trader = ''/tmp/pe_exchange_'' @ show_int tid; trader2exc = ''/tmp/pe_trader_'' @ show_int tid in
          (hello @ [Print (exc2trader @ '' '' @ trader2exc @ [NL]), Print (''[PEX-Milestone] Opened Named Pipes'' @ [NL])],
           Inr \<lparr>ms_fd_R = ms_open w exc2trader, ms_fd_W = ms_open w trader2exc, ms_exchange_pid = ms_getppid w,
                ms_buffer = (ms_raw w)[0 := NUL],
                ms_order_var = \<lparr>ms_type = - 1, ms_item = [], ms_quantity = - 1, ms_price = - 1\<rparr>,
                ms_message_in = False, ms_orderID = 0, ms_disconnect = False\<rparr>))"

definition ms_sig_handler :: "ms_state \<Rightarrow> ms_state" where
  "ms_sig_handler st = st\<lparr>ms_message_in := True\<rparr>"

definition ms_react :: "(int \<Rightarrow> string \<Rightarrow> bool) \<Rightarrow> int \<Rightarrow> ms_state \<Rightarrow> effect list \<times> ms_state" where
  "ms_react write_ok state st =
     (if state = 0 then
        let x = ms_order_var st; side = (if ms_type x = 0 then ''SELL'' else ''BUY'');
            txt = side @ '' '' @ show_int (ms_orderID st) @ '' '' @ ms_item x @ '' '' @ show_int (ms_quantity x) @
                  '' '' @ show_int (ms_price x) @ '';'' in
        ((if write_ok (ms_fd_W st) txt then [Write (ms_fd_W st) txt] else [Print (''write failed'' @ [NL])])
           @ [Kill (ms_exchange_pid st)], st\<lparr>ms_orderID := c_int (ms_orderID st + 1)\<rparr>)
      else if state = 2 then ([], st\<lparr>ms_disconnect := True\<rparr>)
      else ([], st))"

text \<open>
  One round of the loop. The buffer is not cleared but for its first character; the words that
  \<open>strtok\<close> ended with a NUL stay in it. The flag is reset after the message has been handled.
\<close>

definition ms_round :: "(int \<Rightarrow> string \<Rightarrow> bool) \<Rightarrow> string \<Rightarrow> ms_state \<Rightarrow> fault + effect list \<times> ms_state" where
  "ms_round write_ok bytes st =
     (if ms_disconnect st \<or> \<not> ms_message_in st then Inr ([], st)
      else
        bind_err (cut_message (read_into bytes ((ms_buffer st)[0 := NUL]))) (\<lambda>b1.
          let msg = cstr b1; b2 = (if spacing_ok msg \<and> msg \<noteq> ''MARKET OPEN'' then null_spaces (length msg) b1 else b1) in
          bind_err (ms_read msg (ms_order_var st)) (\<lambda>(state, out1, x0).
            let (out2, st') = ms_react write_ok state (st\<lparr>ms_buffer := b2, ms_order_var := x0\<rparr>)
            in Inr (Print (''message_in'' @ [NL]) # out1 @ out2, st'\<lparr>ms_message_in := False\<rparr>))))"

definition ms_finish :: "ms_state \<Rightarrow> effect list" where
  "ms_finish st = (if ms_disconnect st then [Close (ms_fd_R st), Close (ms_fd_W st)] else [])"

section \<open>The launcher\<close>

text \<open>
  What the launcher's pointers can hold: NULL, nothing yet (the memory \<open>malloc\<close> returned is not
  initialised), a block of the heap by the number of its allocation, an argument of the program, or an
  address where no block is. A block keeps its size and the text last written to it. The operating
  system says which calls of \<open>malloc\<close> succeed and at what address a block lies; the blocks of the products
  and of \<open>trader_arr\<close>, each freed once, are not counted. \<open>ml_fork\<close> is what the parent sees.
\<close>

datatype pointer = Null | Unset | Wild | Block nat | Argument string

record block =
  bl_size :: nat
  bl_text :: "string option"

record ms_heap =
  blocks :: "nat \<rightharpoonup> block"
  allocated :: nat

record ms_launch_os =
  ml_products :: "string option"
  ml_malloc :: "nat \<Rightarrow> bool"
  ml_addr :: "nat \<Rightarrow> int"
  ml_fork :: "nat \<Rightarrow> int"
  ml_open :: "string \<Rightarrow> int"
  ml_write_ok :: "int \<Rightarrow> bool"

definition malloc :: "ms_launch_os \<Rightarrow> nat \<Rightarrow> ms_heap \<Rightarrow> pointer \<times> ms_heap" where
  "malloc w n h =
     (let b = allocated h; h' = h\<lparr>allocated := Suc b\<rparr> in
      if ml_malloc w b then (Block b, h'\<lparr>blocks := (blocks h)(b \<mapsto> \<lparr>bl_size = n, bl_text = None\<rparr>)\<rparr>) else (Null, h'))"

definition free_ptr :: "pointer \<Rightarrow> ms_heap \<Rightarrow> fault + ms_heap" where
  "free_ptr p h =
     (case p of
        Null \<Rightarrow> Inr h
      | Unset \<Rightarrow> Inl Uninitialised
      | Block b \<Rightarrow> if blocks h b = None then Inl InvalidFree else Inr (h\<lparr>blocks := (blocks h)(b := None)\<rparr>)
      | _ \<Rightarrow> Inl InvalidFree)"

text \<open>A pointer stored in an \<open>int\<close> keeps its low 32 bits; an \<open>int\<close> used as a pointer is an address.\<close>

definition ptr_int :: "ms_launch_os \<Rightarrow> pointer \<Rightarrow> int" where
  "ptr_int w p = (case p of Block b \<Rightarrow> c_int (ml_addr w b) | _ \<Rightarrow> 0)"

definition int_ptr :: "ms_launch_os \<Rightarrow> ms_heap \<Rightarrow> int \<Rightarrow> pointer" where
  "int_ptr w h n =
     (if n = 0 then Null
      else case find (\<lambda>b. blocks h b \<noteq> None \<and> ml_addr w b = n) [0..<allocated h] of None \<Rightarrow> Wild | Some b \<Rightarrow> Block b)"

definition sprintf_to :: "pointer \<Rightarrow> string \<Rightarrow> ms_heap \<Rightarrow> fault + ms_heap" where
  "sprintf_to p str h =
     (case p of
        Null \<Rightarrow> Inl NullPointer
      | Block b \<Rightarrow>
          (case blocks h b of
             None \<Rightarrow> Inl InvalidFree
           | Some c \<Rightarrow>
               if bl_size c \<le> length str then Inl BufferOverrun
               else Inr (h\<lparr>blocks := (blocks h)(b \<mapsto> c\<lparr>bl_text := Some str\<rparr>)\<rparr>))
      | _ \<Rightarrow> Inl Uninitialised)"

definition text_at :: "ms_heap \<Rightarrow> pointer \<Rightarrow> fault + string" where
  "text_at h p =
     (case p of
        Null \<Rightarrow> Inl NullPointer
      | Argument str \<Rightarrow> Inr str
      | Block b \<Rightarrow> (case Option.bind (blocks h b) bl_text of None \<Rightarrow> Inl Uninitialised | Some str \<Rightarrow> Inr str)
      | _ \<Rightarrow> Inl Uninitialised)"

record ms_trader =
  mt_name :: pointer
  mt_exc2trader :: pointer
  mt_trader2exc :: pointer
  mt_trader_id :: int
  mt_fd_w :: int
  mt_fd_r :: int
  mt_pid :: int

text \<open>
  A new trader: its record (40 bytes), the name, twice a block for \<open>exc2trader\<close> (of
  \<open>sizeof(FIFO_EXCHANGE) + 7 = 27\<close> bytes), none for \<open>trader2exc\<close>, and four blocks whose addresses go into the integer fields.
  \<open>None\<close> is the NULL returned when there is no memory for the record.
\<close>

definition newTrader :: "ms_launch_os \<Rightarrow> nat \<Rightarrow> ms_heap \<Rightarrow> ms_trader option \<times> ms_heap" where
  "newTrader w name_len h0 =
     (let (tr, h1) = malloc w 40 h0 in
      if tr = Null then (None, h1)
      else
        let (name, h2) = malloc w name_len h1;
            (exc, h3) = malloc w 27 h2;
            (exc', h4) = malloc w 27 h3;
            (id', h5) = malloc w 4 h4;
            (fd_w', h6) = malloc w 4 h5;
            (fd_r', h7) = malloc w 4 h6;
            (pid', h8) = malloc w 4 h7
        in (Some \<lparr>mt_name = name, mt_exc2trader = exc', mt_trader2exc = Unset, mt_trader_id = ptr_int w id',
              mt_fd_w = ptr_int w fd_w', mt_fd_r = ptr_int w fd_r', mt_pid = ptr_int w pid'\<rparr>, h8))"

definition rmTrader :: "ms_launch_os \<Rightarrow> ms_trader option \<Rightarrow> ms_heap \<Rightarrow> fault + ms_heap" where
  "rmTrader w tr h0 =
     (case tr of
        None \<Rightarrow> Inr h0
      | Some t \<Rightarrow>
          bind_err (free_ptr (mt_name t) h0) (\<lambda>h1.
          bind_err (free_ptr (mt_exc2trader t) h1) (\<lambda>h2.
          bind_err (free_ptr (mt_exc2trader t) h2) (\<lambda>h3.
          bind_err (free_ptr (int_ptr w h3 (mt_trader_id t)) h3) (\<lambda>h4.
          bind_err (free_ptr (int_ptr w h4 (mt_fd_w t)) h4) (\<lambda>h5.
          bind_err (free_ptr (int_ptr w h5 (mt_fd_r t)) h5) (\<lambda>h6.
          free_ptr (int_ptr w h6 (mt_pid t)) h6)))))))"

text \<open>Naming the traders: the body of the first loop of \<open>main\<close>, then the loop.\<close>

definition name_trader :: "ms_launch_os \<Rightarrow> nat \<Rightarrow> string \<Rightarrow> ms_heap \<Rightarrow> fault + effect list \<times> ms_trader \<times> ms_heap" where
  "name_trader w i nm h0 =
     (case newTrader w (length nm) h0 of
        (None, h) \<Rightarrow> Inl NullPointer
      | (Some t0, h) \<Rightarrow>
          let t = t0\<lparr>mt_name := Argument nm, mt_trader_id := int i\<rparr> in
          bind_err (sprintf_to (mt_exc2trader t) (''/tmp/pe_exchange_'' @ show_int (mt_trader_id t)) h) (\<lambda>h1.
          bind_err (sprintf_to (mt_trader2exc t) (''/tmp/pe_trader_'' @ show_int (mt_trader_id t)) h1) (\<lambda>h2.
          bind_err (text_at h2 (mt_exc2trader t)) (\<lambda>e.
          bind_err (text_at h2 (mt_trader2exc t)) (\<lambda>r.
            Inr ([Print (e @ [NL]), Print (r @ [NL])], t, h2))))))"

fun name_traders :: "ms_launch_os \<Rightarrow> nat \<Rightarrow> string list \<Rightarrow> ms_heap \<Rightarrow> effect list \<times> (fault + ms_trader list \<times> ms_heap)" where
  "name_traders w i [] h = ([], Inr ([], h))"
| "name_traders w i (nm # nms) h =
     (case name_trader w i nm h of
        Inl f \<Rightarrow> ([], Inl f)
      | Inr (out, t, h') \<Rightarrow>
          let (out', res) = name_traders w (Suc i) nms h'
          in (out @ out', bind_err res (\<lambda>(ts, h''). Inr (t # ts, h''))))"

text \<open>
  Launching them: \<open>Inr None\<close> says that a \<open>fork\<close> failed and \<open>main\<close> returns 1. The message is written with its terminating NUL.
\<close>

fun launch_traders :: "ms_launch_os \<Rightarrow> nat \<Rightarrow> ms_heap \<Rightarrow> ms_trader list \<Rightarrow> effect list \<times> (fault + ms_trader list option)" where
  "launch_traders w i h [] = ([], Inr (Some []))"
| "launch_traders w i h (t # ts) =
     (case (text_at h (mt_exc2trader t), text_at h (mt_trader2exc t)) of
        (Inr e, Inr r) \<Rightarrow>
          let pid = ml_fork w i; hello = [Print (e @ '', '' @ r @ [NL])] in
          if pid < 0 then (hello, Inr None)
          else
            let t' = t\<lparr>mt_pid := pid, mt_fd_r := ml_open w r, mt_fd_w := ml_open w e\<rparr>;
                (out, res) = launch_traders w (Suc i) h ts in
            (hello @
             [Print (''parent is now running'' @ [NL]), Print (''exchange - '' @ e @ '' '' @ r @ [NL]), Print (''open success'' @ [NL])] @
             (if ml_write_ok w (mt_fd_w t') then [Write (mt_fd_w t') (''MARKET OPEN;'' @ [NUL]), Print (''success'' @ [NL])] else []) @
             [Kill pid] @ out, bind_err res (\<lambda>us. Inr (map_option (\<lambda>us. t' # us) us)))
      | (Inl f, _) \<Rightarrow> ([], Inl f)
      | (_, Inl f) \<Rightarrow> ([], Inl f))"

text \<open>The clean-up loop over \<open>argc - 1\<close> entries of \<open>trader_arr\<close>; \<open>None\<close> is an entry never assigned.\<close>

fun rm_traders :: "ms_launch_os \<Rightarrow> ms_trader option option list \<Rightarrow> ms_heap \<Rightarrow> fault + ms_heap" where
  "rm_traders w [] h = Inr h"
| "rm_traders w (None # ts) h = Inl Uninitialised"
| "rm_traders w (Some t # ts) h = bind_err (rmTrader w t h) (rm_traders w ts)"

definition empty_heap :: ms_heap where
  "empty_heap = \<lparr>blocks = (\<lambda>_. None), allocated = 0\<rparr>"

text \<open>The number of products is on the first line of the file; without one \<open>numlines_str\<close> stays empty.\<close>

definition ms_load_products :: "string \<Rightarrow> fault + string list" where
  "ms_load_products content =
     (let (l, rest) = (case fgets (BUFFER_READ - 1) content of None \<Rightarrow> ([], content) | Some x \<Rightarrow> x)
      in read_lines (BUFFER_READ - 1) (nat (atoi (cut_at NL (cstr l)))) rest)"

definition ms_exchange_main :: "ms_launch_os \<Rightarrow> string list \<Rightarrow> effect list \<times> (fault + int)" where
  "ms_exchange_main w args =
     (let hello = [Print (show_int (int (Suc (length args))) @ [NL])] in
      if args = [] then (hello @ [Print (''Not enough arguments'' @ [NL])], Inr 1)
      else case ml_products w of
        None \<Rightarrow> (hello, Inr (- 1))
      | Some content \<Rightarrow>
          (case ms_load_products content of
             Inl f \<Rightarrow> (hello, Inl f)
           | Inr ps \<Rightarrow>
               (case name_traders w 0 (tl args) empty_heap of
                  (out1, Inl f) \<Rightarrow> (hello @ out1, Inl f)
                | (out1, Inr (ts, h)) \<Rightarrow>
                    let out = hello @ out1 @ [Print (''launching traders'' @ [NL])] in
                    (case launch_traders w 0 h ts of
                       (out2, Inl f) \<Rightarrow> (out @ out2, Inl f)
                     | (out2, Inr None) \<Rightarrow> (out @ out2, Inr 1)
                     | (out2, Inr (Some us)) \<Rightarrow>
                         (out @ out2, bind_err (rm_traders w (map (Some \<circ> Some) us @ [None]) h) (\<lambda>_. Inr 0))))))"

end
