(* ===== verification/Tr_Props.thy ===== *)
theory Tr_Props
  imports Ex_Handle Tr_Auto Tr_Milestone
begin

text \<open>
  Properties of the traders: what the auto-trader makes of every announcement of the exchange,
  that it survives every message that fits its buffer, and the failures of the earlier pair of
  programs.
\<close>

section \<open>Texts on the pipes\<close>

definition product_name :: "string \<Rightarrow> bool" where
  "product_name p \<longleftrightarrow> is_word p \<and> CHR '';'' \<notin> set p \<and> NUL \<notin> set p"

definition in_limits :: "int \<Rightarrow> int \<Rightarrow> bool" where
  "in_limits q pr \<longleftrightarrow> 1 \<le> q \<and> q \<le> MAX_QUANTITY \<and> 1 \<le> pr \<and> pr \<le> MAX_UNIT_PRICE"

lemma show_int_word: "0 \<le> n \<Longrightarrow> is_word (show_int n) \<and> CHR '';'' \<notin> set (show_int n) \<and> NUL \<notin> set (show_int n)"
  using show_int_chars [of n] by (simp add: is_word_def)

lemma set_unwords: "set (unwords ws) \<subseteq> insert (CHR '' '') (\<Union> (set ` set ws))"
  by (induction ws rule: unwords.induct) auto

text \<open>Five words without a semicolon or a NUL, sent with a semicolon, arrive as these words.\<close>

lemma words_sent:
  assumes "ws \<noteq> []" "\<forall>w\<in>set ws. is_word w \<and> CHR '';'' \<notin> set w \<and> NUL \<notin> set w" "length (unwords ws) < length b"
  shows "\<exists>b'. cut_message (read_into (unwords ws @ '';'') b) = Inr b' \<and> cstr b' = unwords ws \<and> NUL \<in> set b' \<and>
    length b' = length b \<and> spacing_ok (cstr b') \<and> strtok_all (cstr b') = ws"
proof -
  have c: "CHR '';'' \<notin> set (unwords ws)" "NUL \<notin> set (unwords ws)" using assms(2) set_unwords [of ws] by fastforce+
  from cut_message_sent [OF c assms(3)] obtain b' where b': "cut_message (read_into (unwords ws @ '';'') b) = Inr b'" "cstr b' = unwords ws"
    by blast
  moreover have len: "length b' = length b" using cut_message_length [OF b'(1)] by simp
  moreover have "NUL \<in> set b'"
  proof (rule ccontr)
    assume "NUL \<notin> set b'"
    then have "cstr b' = b'" unfolding cstr_def takeWhile_eq_all_conv by blast
    with b'(2) assms(3) len show False by simp
  qed
  ultimately show ?thesis using unwords_words [OF assms(1)] assms(2) by auto
qed

lemma words_overrun:
  assumes "\<forall>w\<in>set ws. CHR '';'' \<notin> set w \<and> NUL \<notin> set w" "length b \<le> length (unwords ws)"
  shows "cut_message (read_into (unwords ws @ '';'') b) = Inl BufferOverrun"
proof -
  have "\<forall>c\<in>set (unwords ws). c \<noteq> CHR '';'' \<and> c \<noteq> NUL" using assms(1) set_unwords [of ws] by fastforce
  moreover have r: "read_into (unwords ws @ '';'') b = take (length b) (unwords ws)" using assms(2) by (simp add: read_into_def)
  ultimately have "\<forall>c\<in>set (read_into (unwords ws @ '';'') b). c \<noteq> CHR '';'' \<and> c \<noteq> NUL" by (auto dest: in_set_takeD)
  then have w: "takeWhile (\<lambda>c. c \<noteq> CHR '';'' \<and> c \<noteq> NUL) (read_into (unwords ws @ '';'') b) = read_into (unwords ws @ '';'') b"
    by (simp add: takeWhile_eq_all_conv)
  show ?thesis unfolding cut_message_def Let_def w by simp
qed

lemma market_text_words: "market_text side p q pr = unwords [''MARKET'', side, p, show_int q, show_int pr] @ '';''"
  by (simp add: market_text_def)

lemma order_text_words: "order_text side oid p q pr = unwords [side, show_int oid, p, show_int q, show_int pr] @ '';''"
  by (simp add: order_text_def)

section \<open>The auto-trader\<close>

definition auto_wf :: "auto_state \<Rightarrow> bool" where
  "auto_wf st \<longleftrightarrow> length (a_argv st) = 6 \<and> length (a_buffer st) = BUFFER_READ \<and> NUL \<in> set (a_buffer st)"

lemma auto_react_sel:
  assumes "auto_react wok k st = (out, st')"
  shows "a_argv st' = a_argv st" "a_buffer st' = a_buffer st" "a_signal_ptr st' = a_signal_ptr st" "a_signal_count st' = a_signal_count st"
    "a_orderID st' = a_orderID st \<or> a_orderID st' = c_int (a_orderID st + 1)" "a_fd_W st' = a_fd_W st" "a_exchange_pid st' = a_exchange_pid st"
  using assms by (auto simp: auto_react_def bump_id_def Let_def split: exc_message.splits option.splits if_splits)

lemma read_from_exc_argv: "length argv = 6 \<Longrightarrow> length (snd (read_from_exc m argv)) = 6"
  by (auto simp: read_from_exc_def Let_def)

lemma auto_message_ok:
  assumes wf: "auto_wf st" and m: "CHR '';'' \<in> set (take BUFFER_READ bytes)"
  shows "\<exists>out st'. auto_message wok bytes st = Inr (out, st') \<and> auto_wf st' \<and> a_signal_ptr st' = Suc (a_signal_ptr st) \<and>
    a_signal_count st' = a_signal_count st \<and> (a_orderID st' = a_orderID st \<or> a_orderID st' = c_int (a_orderID st + 1))"
proof -
  obtain b0 where b0: "clear_cstr (a_buffer st) = Inr b0" "length b0 = BUFFER_READ"
    using clear_cstr_ok [of "a_buffer st"] wf by (auto simp: auto_wf_def)
  have "CHR '';'' \<in> set (read_into bytes (b0[0 := NUL]))" by (rule read_into_char) (use b0 m in simp)
  then obtain b1 where b1: "cut_message (read_into bytes (b0[0 := NUL])) = Inr b1" "NUL \<in> set b1" "length b1 = BUFFER_READ"
    using cut_message_ok [of "read_into bytes (b0[0 := NUL])"] b0(2) by auto
  let ?b2 = "if spacing_ok (cstr b1) \<and> cstr b1 \<noteq> ''MARKET OPEN'' then null_spaces 7 b1 else b1"
  obtain b3 where b3: "clear_cstr ?b2 = Inr b3" "NUL \<in> set b3" "length b3 = BUFFER_READ"
  proof -
    have "NUL \<in> set ?b2" "length ?b2 = BUFFER_READ" using b1 null_spaces_terminated by auto
    from clear_cstr_ok [OF this(1)] this(2) that show thesis by fastforce
  qed
  obtain k argv where r: "read_from_exc (cstr b1) (a_argv st) = (k, argv)" by (meson surj_pair)
  have "length argv = 6" using read_from_exc_argv [of "a_argv st" "cstr b1"] wf r by (simp add: auto_wf_def)
  moreover obtain out st1 where rc: "auto_react wok k (st\<lparr>a_argv := argv, a_buffer := b3\<rparr>) = (out, st1)" by (meson surj_pair)
  ultimately show ?thesis using b0(1) b1(1) b3 r auto_react_sel [OF rc] by (simp add: auto_message_def Let_def auto_wf_def)
qed

text \<open>What an announcement makes the auto-trader do.\<close>

definition auto_sends :: "(int \<Rightarrow> string \<Rightarrow> bool) \<Rightarrow> auto_state \<Rightarrow> string \<Rightarrow> effect list" where
  "auto_sends wok st txt =
     (if wok (a_fd_W st) txt then [Write (a_fd_W st) txt] else [Print (''write failed'' @ [NL])]) @ [Kill (a_exchange_pid st)]"

lemma auto_announced:
  assumes wf: "auto_wf st" and p: "product_name p" and lim: "in_limits q pr"
    and len: "length (market_text (side_text k) p q pr) \<le> BUFFER_READ"
  shows "\<exists>st'. auto_message wok (market_text (side_text k) p q pr) st =
      Inr (if q \<ge> 1000 \<or> k = BUY then [] else auto_sends wok st (order_text ''BUY'' (a_orderID st) p q pr), st') \<and>
    auto_wf st' \<and> a_signal_ptr st' = Suc (a_signal_ptr st) \<and> a_signal_count st' = a_signal_count st \<and>
    a_fd_W st' = a_fd_W st \<and> a_exchange_pid st' = a_exchange_pid st \<and>
    a_disconnect st' = (a_disconnect st \<or> q \<ge> 1000) \<and> a_orderID st' = (if q \<ge> 1000 then a_orderID st else c_int (a_orderID st + 1))"
proof -
  let ?ws = "[''MARKET'', side_text k, p, show_int q, show_int pr]"
  have q: "0 \<le> q" "0 \<le> pr" "q < 2 ^ 31" "pr < 2 ^ 31" using lim by (auto simp: in_limits_def pe_limits)
  have side: "side_text k = ''BUY'' \<or> side_text k = ''SELL''" by (cases k) (simp_all add: side_text_def)
  obtain b0 where b0: "clear_cstr (a_buffer st) = Inr b0" "length b0 = BUFFER_READ"
    using clear_cstr_ok [of "a_buffer st"] wf by (auto simp: auto_wf_def)
  have ws: "\<forall>w\<in>set ?ws. is_word w \<and> CHR '';'' \<notin> set w \<and> NUL \<notin> set w"
    using p q show_int_word side by (auto simp: product_name_def is_word_def)
  obtain b1 where b1: "cut_message (read_into (unwords ?ws @ '';'') (b0[0 := NUL])) = Inr b1" "cstr b1 = unwords ?ws"
    "NUL \<in> set b1" "length b1 = BUFFER_READ" "spacing_ok (cstr b1)" "strtok_all (cstr b1) = ?ws"
    using words_sent [OF _ ws, of "b0[0 := NUL]"] len b0(2) by (auto simp: market_text_words)
  obtain b3 where b3: "clear_cstr (null_spaces 7 b1) = Inr b3" "NUL \<in> set b3" "length b3 = BUFFER_READ"
    using clear_cstr_ok [OF null_spaces_terminated [OF b1(3), of 7]] b1(4) by auto
  let ?argv = "?ws @ drop 5 (a_argv st)"
  have no: "cstr b1 \<noteq> ''MARKET OPEN''" using b1(6) by (auto simp: strtok_all_def)
  have r: "read_from_exc (cstr b1) (a_argv st) = (MARKET_ORDER, ?argv)"
    using b1(5,6) no by (simp add: read_from_exc_def Let_def spacing_ok_def eval_nat_numeral)
  have po: "process_order ?argv = Some \<lparr>m_type = k, m_item = p, m_quantity = q, m_price = pr\<rparr>"
    using lim q by (cases k) (simp_all add: process_order_def side_text_def isNumeric_show atoi_show_int in_limits_def)
  show ?thesis
    using b0(1) b1(1,5) no b3 r po wf
    by (cases k) (auto simp: auto_message_def Let_def auto_react_def market_text_words auto_sends_def bump_id_def auto_wf_def)
qed

text \<open>An announcement that is longer than the buffer leaves no terminator in it.\<close>

lemma auto_overrun:
  assumes wf: "auto_wf st" and p: "product_name p" and lim: "in_limits q pr"
    and len: "length (market_text (side_text k) p q pr) > BUFFER_READ"
  shows "auto_message wok (market_text (side_text k) p q pr) st = Inl BufferOverrun"
proof -
  let ?ws = "[''MARKET'', side_text k, p, show_int q, show_int pr]"
  have q: "0 \<le> q" "0 \<le> pr" using lim by (auto simp: in_limits_def)
  obtain b0 where b0: "clear_cstr (a_buffer st) = Inr b0" "length b0 = BUFFER_READ"
    using clear_cstr_ok [of "a_buffer st"] wf by (auto simp: auto_wf_def)
  have "side_text k = ''BUY'' \<or> side_text k = ''SELL''" by (cases k) (simp_all add: side_text_def)
  then have "\<forall>w\<in>set ?ws. CHR '';'' \<notin> set w \<and> NUL \<notin> set w" using p q show_int_word by (auto simp: product_name_def)
  then have "cut_message (read_into (unwords ?ws @ '';'') (b0[0 := NUL])) = Inl BufferOverrun"
    by (rule words_overrun) (use len b0(2) in \<open>simp add: market_text_words\<close>)
  then show ?thesis using b0(1) unfolding auto_message_def market_text_words by simp
qed

text \<open>The trader as a machine: a signal arrives, or a round of its loop reads some bytes.\<close>

datatype auto_event = ASignal | ARound string

definition auto_step :: "(int \<Rightarrow> string \<Rightarrow> bool) \<Rightarrow> auto_event \<Rightarrow> auto_state \<Rightarrow> auto_state option" where
  "auto_step wok v st =
     (case v of
        ASignal \<Rightarrow> Some (auto_sig_handler st)
      | ARound bytes \<Rightarrow> (case auto_round wok bytes st of Inl _ \<Rightarrow> None | Inr (_, st') \<Rightarrow> Some st'))"

definition auto_inv :: "auto_state \<Rightarrow> bool" where
  "auto_inv st \<longleftrightarrow> auto_wf st \<and> a_signal_ptr st \<le> a_signal_count st \<and>
     (a_signal_ptr st < 2 ^ 31 \<longrightarrow> 0 \<le> a_orderID st \<and> a_orderID st \<le> int (a_signal_ptr st))"

definition auto_proper :: "auto_event \<Rightarrow> bool" where
  "auto_proper v = (case v of ASignal \<Rightarrow> True | ARound bytes \<Rightarrow> CHR '';'' \<in> set (take BUFFER_READ bytes))"

lemma auto_step_cases:
  assumes "auto_step wok v st = Some st'"
  obtains "v = ASignal" "st' = auto_sig_handler st" | "st' = st"
  | bytes out where "v = ARound bytes" "a_signal_ptr st < a_signal_count st" "auto_message wok bytes st = Inr (out, st')"
  using assms by (auto simp: auto_step_def auto_round_def split: auto_event.splits if_splits sum.splits)

lemma auto_message_inv:
  assumes inv: "auto_inv st" and more: "a_signal_ptr st < a_signal_count st" and m: "auto_message wok bytes st = Inr (out, st')"
  shows "auto_inv st'"
proof -
  obtain b0 b1 where b0: "clear_cstr (a_buffer st) = Inr b0" and b1: "cut_message (read_into bytes (b0[0 := NUL])) = Inr b1"
    using m by (auto simp: auto_message_def Let_def)
  let ?b2 = "if spacing_ok (cstr b1) \<and> cstr b1 \<noteq> ''MARKET OPEN'' then null_spaces 7 b1 else b1"
  obtain k argv where r: "read_from_exc (cstr b1) (a_argv st) = (k, argv)" by (meson surj_pair)
  obtain b3 where b3: "clear_cstr ?b2 = Inr b3" using m b0 b1 r by (auto simp: auto_message_def Let_def)
  obtain st1 where rc: "auto_react wok k (st\<lparr>a_argv := argv, a_buffer := b3\<rparr>) = (out, st1)"
    and st': "st' = st1\<lparr>a_signal_ptr := Suc (a_signal_ptr st1)\<rparr>"
    using m b0 b1 r b3 by (auto simp: auto_message_def Let_def case_prod_beta prod_eq_iff)
  have "length argv = 6" using read_from_exc_argv [of "a_argv st" "cstr b1"] inv r by (simp add: auto_inv_def auto_wf_def)
  moreover have "NUL \<in> set b3" using clear_cstr_keeps [OF b3] .
  moreover have "length b3 = BUFFER_READ"
    using clear_cstr_length [OF b0] cut_message_length [OF b1] clear_cstr_length [OF b3] inv
    by (simp add: auto_inv_def auto_wf_def split: if_splits)
  moreover have "c_int (a_orderID st + 1) = a_orderID st + 1" if "Suc (a_signal_ptr st) < 2 ^ 31"
    using that inv by (intro wraps_exact) (simp_all add: auto_inv_def)
  ultimately show ?thesis using auto_react_sel [OF rc] more inv by (auto simp: st' auto_inv_def auto_wf_def)
qed

interpretation au: total_stepping "auto_step wok" auto_inv auto_proper for wok
proof
  show "auto_inv st'" if "auto_inv st" "auto_step wok v st = Some st'" for v st st'
    using that(2)
  proof (cases rule: auto_step_cases)
    case 1
    then show ?thesis using that(1) by (auto simp: auto_inv_def auto_wf_def auto_sig_handler_def)
  next
    case 3
    with that(1) auto_message_inv show ?thesis by blast
  qed (use that(1) in simp)
  show "\<exists>st'. auto_step wok v st = Some st'" if "auto_inv st" "auto_proper v" for v st
  proof (cases v)
    case (ARound bytes)
    with that auto_message_ok [of st bytes wok] show ?thesis
      by (auto simp: auto_step_def auto_round_def auto_inv_def auto_proper_def)
  qed (simp add: auto_step_def)
qed

lemma auto_start_inv:
  assumes "auto_start w args = (out, Inr st)" and "length (a_raw w) = BUFFER_READ" and "NUL \<in> set (a_raw w)"
  shows "auto_inv st"
  using assms by (auto simp: auto_start_def Let_def auto_inv_def auto_wf_def split: if_splits)

section \<open>The launcher\<close>

text \<open>A pointer that is not NULL cannot be freed twice; what \<open>newTrader\<close> leaves in the fields and on the heap.\<close>

lemma free_twice:
  assumes "free_ptr p h = Inr h1" "p \<noteq> Null" shows "free_ptr p h1 = Inl InvalidFree"
  using assms by (auto simp: free_ptr_def split: pointer.splits if_splits)

lemma rmTrader_succeeds_null: "rmTrader w (Some t) h = Inr h' \<Longrightarrow> mt_exc2trader t = Null"
  using free_twice by (fastforce simp: rmTrader_def)

definition fresh_name :: "ms_launch_os \<Rightarrow> nat \<Rightarrow> pointer" where
  "fresh_name w b = (if ml_malloc w b then Block b else Null)"

lemma malloc_fst: "fst (malloc w n h) = fresh_name w (allocated h)"
  "allocated (snd (malloc w n h)) = Suc (allocated h)"
  "blocks (snd (malloc w n h)) = (if ml_malloc w (allocated h) then (blocks h)(allocated h \<mapsto> \<lparr>bl_size = n, bl_text = None\<rparr>) else blocks h)"
  by (simp_all add: malloc_def Let_def fresh_name_def)

lemma newTrader_shape:
  assumes "newTrader w n h = (Some t, h')"
  shows "ml_malloc w (allocated h) \<and> mt_name t = fresh_name w (Suc (allocated h)) \<and> mt_exc2trader t = fresh_name w (allocated h + 3) \<and> mt_trader2exc t = Unset \<and>
    (ml_malloc w (Suc (allocated h)) \<longrightarrow> blocks h' (Suc (allocated h)) \<noteq> None) \<and>
    (ml_malloc w (allocated h + 3) \<longrightarrow> blocks h' (allocated h + 3) = Some \<lparr>bl_size = 27, bl_text = None\<rparr>)"
  using assms
  by (auto simp: newTrader_def Let_def case_prod_beta malloc_fst fresh_name_def numeral_3_eq_3 split: if_splits)

lemma newTrader_null: "fst (newTrader w n h) = None \<longleftrightarrow> \<not> ml_malloc w (allocated h)"
  by (simp add: newTrader_def Let_def case_prod_beta malloc_fst fresh_name_def)

lemma rmTrader_new:
  assumes "newTrader w n h = (Some t, h')" "ml_malloc w (allocated h + 3)"
  shows "rmTrader w (Some t) h' = Inl InvalidFree"
  using newTrader_shape [OF assms(1)] assms(2) by (auto simp: rmTrader_def free_ptr_def fresh_name_def)

lemma name_trader_fails:
  "name_trader w 0 nm h = Inl (if ml_malloc w (allocated h) \<and> ml_malloc w (allocated h + 3) then Uninitialised else NullPointer)"
proof (cases "newTrader w (length nm) h")
  case (Pair r h')
  show ?thesis
  proof (cases r)
    case None
    with Pair newTrader_null [of w "length nm" h] show ?thesis by (simp add: name_trader_def)
  next
    case (Some t)
    have "show_int 0 = ''0''" by code_simp
    with Pair Some newTrader_shape [of w "length nm" h t h'] show ?thesis
      by (auto simp: name_trader_def sprintf_to_def fresh_name_def)
  qed
qed

definition demo_launch :: ms_launch_os where
  "demo_launch = \<lparr>ml_products = Some (''1'' @ [NL] @ ''GPU'' @ [NL]), ml_malloc = (\<lambda>_. True), ml_addr = (\<lambda>b. 4096 + 64 * int b),
     ml_fork = (\<lambda>_. 7), ml_open = (\<lambda>_. 3), ml_write_ok = (\<lambda>_. True)\<rparr>"

section \<open>Properties\<close>

definition demo_auto_os :: auto_os where
  "demo_auto_os = \<lparr>a_sigaction_ok = True, a_open = (\<lambda>path. int (length path)), a_getppid = 50, a_raw = replicate BUFFER_READ NUL\<rparr>"

definition demo_auto :: auto_state where
  "demo_auto = (case snd (auto_start demo_auto_os [''0'']) of Inr st \<Rightarrow> st | Inl _ \<Rightarrow> undefined)"

lemma demo_auto_started: "auto_start demo_auto_os [''0''] = ([], Inr demo_auto)"
proof -
  have "fst (auto_start demo_auto_os [''0'']) = []" "\<not> isl (snd (auto_start demo_auto_os [''0'']))" by code_simp+
  then show ?thesis by (cases "snd (auto_start demo_auto_os [''0''])") (auto simp: demo_auto_def prod_eq_iff)
qed

lemma demo_auto_inv: "auto_inv demo_auto"
  by (rule auto_start_inv [OF demo_auto_started]) (simp_all add: demo_auto_os_def BUFFER_READ_def)

text \<open>C32: What the auto-trader makes of every announcement of the exchange: it leaves when the
  quantity is at least 1000, answers a smaller SELL with a BUY of the same product, quantity and price
  under its current order id, and sends nothing for a BUY; but for leaving, its id counter advances
  in every case, also when nothing is sent. An announcement of more than 40 characters (a long product name, or
  a shorter one traded in large numbers) makes it search for a terminator beyond its buffer.\<close>

theorem auto_answers_announcement:
  assumes "auto_wf st" and "product_name p" and "in_limits q pr"
  shows "if length (market_text (side_text k) p q pr) \<le> BUFFER_READ
    then \<exists>st'. auto_message wok (market_text (side_text k) p q pr) st =
        Inr (if q \<ge> 1000 \<or> k = BUY then [] else auto_sends wok st (order_text ''BUY'' (a_orderID st) p q pr), st') \<and>
      a_disconnect st' = (a_disconnect st \<or> q \<ge> 1000) \<and> a_orderID st' = (if q \<ge> 1000 then a_orderID st else c_int (a_orderID st + 1))
    else auto_message wok (market_text (side_text k) p q pr) st = Inl BufferOverrun"
  using auto_announced [OF assms, of k wok] auto_overrun [OF assms, of k wok] by auto

theorem auto_answers_announcement_witness:
  "(\<exists>st'. auto_message (\<lambda>_ _. True) (market_text (side_text SELL) ''GPU'' 10 100) demo_auto =
     Inr (auto_sends (\<lambda>_ _. True) demo_auto (order_text ''BUY'' (a_orderID demo_auto) ''GPU'' 10 100), st')) \<and>
   auto_message (\<lambda>_ _. True) (market_text (side_text SELL) ''AVeryLongProductNameIndeed'' 10 100) demo_auto = Inl BufferOverrun"
proof -
  have "product_name ''GPU''" "in_limits 10 100" "length (market_text (side_text SELL) ''GPU'' 10 100) \<le> BUFFER_READ"
    "product_name ''AVeryLongProductNameIndeed''"
    "\<not> length (market_text (side_text SELL) ''AVeryLongProductNameIndeed'' 10 100) \<le> BUFFER_READ"
    by code_simp+
  moreover have "auto_wf demo_auto" using demo_auto_inv by (simp add: auto_inv_def)
  ultimately have "\<exists>st'. auto_message (\<lambda>_ _. True) (market_text (side_text SELL) ''GPU'' 10 100) demo_auto =
      Inr (auto_sends (\<lambda>_ _. True) demo_auto (order_text ''BUY'' (a_orderID demo_auto) ''GPU'' 10 100), st')"
    "auto_message (\<lambda>_ _. True) (market_text (side_text SELL) ''AVeryLongProductNameIndeed'' 10 100) demo_auto = Inl BufferOverrun"
    using auto_answers_announcement [of demo_auto "''GPU''" 10 100 SELL "\<lambda>_ _. True"]
      auto_answers_announcement [of demo_auto "''AVeryLongProductNameIndeed''" 10 100 SELL "\<lambda>_ _. True"]
    by (simp_all only: if_True if_False simp_thms order_type.distinct) auto
  then show ?thesis by blast
qed



text \<open>The earlier trader handles one message for any number of signals that arrive before it gets to
  read: after that round it does not read the pipe again until a further signal comes.\<close>

theorem milestone_merges_signals:
  assumes "ms_round wok bytes ((ms_sig_handler ^^ Suc n) st) = Inr (out, st')"
  shows "ms_round wok bytes' st' = Inr ([], st') \<and> ms_round wok bytes (ms_sig_handler st) = Inr (out, st')"
proof -
  have one: "(ms_sig_handler ^^ Suc n) st = ms_sig_handler st"
    by (induction n) (simp_all add: ms_sig_handler_def)
  have "ms_disconnect st' \<or> \<not> ms_message_in st'"
    using assms unfolding one
    by (auto simp: ms_round_def Let_def case_prod_beta split: if_splits)
  then have "ms_round wok bytes' st' = Inr ([], st')" by (auto simp: ms_round_def)
  with assms show ?thesis unfolding one by blast
qed

definition demo_ms :: ms_state where
  "demo_ms = \<lparr>ms_fd_R = 3, ms_fd_W = 4, ms_exchange_pid = 50, ms_buffer = replicate BUFFER_READ NUL,
     ms_order_var = \<lparr>ms_type = - 1, ms_item = [], ms_quantity = - 1, ms_price = - 1\<rparr>,
     ms_message_in = False, ms_orderID = 0, ms_disconnect = False\<rparr>"

theorem milestone_merges_signals_witness:
  "\<exists>out st'. ms_round (\<lambda>_ _. True) ''MARKET OPEN;'' ((ms_sig_handler ^^ 2) demo_ms) = Inr (out, st') \<and>
    ms_round (\<lambda>_ _. True) ''MARKET SELL GPU 10 100;'' st' = Inr ([], st')"
proof -
  have "\<not> isl (ms_round (\<lambda>_ _. True) ''MARKET OPEN;'' ((ms_sig_handler ^^ Suc 1) demo_ms))" by code_simp
  then obtain out st' where "ms_round (\<lambda>_ _. True) ''MARKET OPEN;'' ((ms_sig_handler ^^ Suc 1) demo_ms) = Inr (out, st')"
    by (metis isl_def sum.exhaust surj_pair)
  from this milestone_merges_signals [OF this] show ?thesis by (auto simp: numeral_2_eq_2)
qed

text \<open>C37: Once the launcher has read its products it never launches a trader. Given traders, it fails while naming the first: it
  writes a path through \<open>trader2exc\<close>, which \<open>newTrader\<close> left uninitialised (or through NULL, when there is
  no memory for the record or for \<open>exc2trader\<close>). Given none, it fails in the clean-up loop, which reads one entry of \<open>trader_arr\<close> more than was
  assigned. The clean-up could not work either: \<open>rmTrader\<close> on what \<open>newTrader\<close> returned frees a block twice, on a trader that
  \<open>main\<close> has named it frees an argument of the program, and it succeeds on no trader whose \<open>exc2trader\<close> is not NULL.\<close>

theorem launcher_fails:
  assumes "args \<noteq> []" and "ml_products w = Some content" and "ms_load_products content = Inr ps"
  shows "ms_exchange_main w args =
      (if tl args = [] then ([Print (show_int (int (Suc (length args))) @ [NL]), Print (''launching traders'' @ [NL])], Inl Uninitialised)
       else ([Print (show_int (int (Suc (length args))) @ [NL])], Inl (if ml_malloc w 0 \<and> ml_malloc w 3 then Uninitialised else NullPointer))) \<and>
    (\<forall>n h t h' nm. newTrader w n h = (Some t, h') \<and> ml_malloc w (allocated h + 3) \<longrightarrow>
       rmTrader w (Some t) h' = Inl InvalidFree \<and> rmTrader w (Some (t\<lparr>mt_name := Argument nm\<rparr>)) h' = Inl InvalidFree) \<and>
    (\<forall>t h h'. rmTrader w (Some t) h = Inr h' \<longrightarrow> mt_exc2trader t = Null)"
proof (intro conjI allI impI)
  show "ms_exchange_main w args =
      (if tl args = [] then ([Print (show_int (int (Suc (length args))) @ [NL]), Print (''launching traders'' @ [NL])], Inl Uninitialised)
       else ([Print (show_int (int (Suc (length args))) @ [NL])], Inl (if ml_malloc w 0 \<and> ml_malloc w 3 then Uninitialised else NullPointer)))"
    using assms by (cases "tl args") (simp_all add: ms_exchange_main_def name_trader_fails empty_heap_def)
qed (auto simp: rmTrader_new rmTrader_succeeds_null, simp_all add: rmTrader_def free_ptr_def)

theorem launcher_fails_witness:
  "snd (ms_exchange_main demo_launch [''products.txt'', ''./trader'']) = Inl Uninitialised \<and>
   (\<exists>t h'. newTrader demo_launch 8 empty_heap = (Some t, h') \<and> rmTrader demo_launch (Some t) h' = Inl InvalidFree)"
proof -
  have ok: "ml_products demo_launch = Some (''1'' @ [NL] @ ''GPU'' @ [NL])" "ml_malloc demo_launch k" for k
    by (simp_all add: demo_launch_def)
  have "ms_load_products (''1'' @ [NL] @ ''GPU'' @ [NL]) = Inr [''GPU'']" by code_simp
  note f = launcher_fails [OF _ ok(1) this]
  have "fst (newTrader demo_launch 8 empty_heap) \<noteq> None" using newTrader_null ok(2) by blast
  then obtain t h' where "newTrader demo_launch 8 empty_heap = (Some t, h')"
    by (cases "newTrader demo_launch 8 empty_heap") auto
  then show ?thesis using f [of "[''products.txt'', ''./trader'']"] ok by auto
qed
end
