(* ===== verification/Sy_System.thy ===== *)
theory Sy_System
  imports Ex_Loop Ex_Wires Tr_Props
begin

text \<open>
  The exchange and its traders as one system. A named pipe is the text that was written to it and not yet read: a
  read takes what is there, at most the size of the reader's buffer, and waits while there is nothing; a
  signal runs the handler of the process it is sent to. The effects of a round of the exchange or of an
  auto-trader are applied in order. Traders that are other programs write what they like.
\<close>

section \<open>The system\<close>

record system =
  exch :: loop_state
  autos :: "auto_state option list"   \<comment> \<open>\<open>None\<close>: another program\<close>
  to_trader :: "string list"          \<comment> \<open>the pipes \<open>pe_exchange_i\<close>\<close>
  to_exch :: "string list"            \<comment> \<open>the pipes \<open>pe_trader_i\<close>\<close>

definition find_fd :: "exchange \<Rightarrow> int \<Rightarrow> tref option" where
  "find_fd s fd = List.find (\<lambda>i. fd_w (traders s ! i) = fd) [0..<length (traders s)]"

definition send :: "nat \<Rightarrow> string \<Rightarrow> string list \<Rightarrow> string list" where
  "send i txt pipes = pipes[i := pipes ! i @ txt]"

definition signal_auto :: "nat \<Rightarrow> system \<Rightarrow> system" where
  "signal_auto i sy = sy\<lparr>autos := (autos sy)[i := map_option auto_sig_handler (autos sy ! i)]\<rparr>"

fun ex_effect :: "effect \<Rightarrow> system \<Rightarrow> system" where
  "ex_effect (Write fd txt) sy =
     (case find_fd (ex (exch sy)) fd of None \<Rightarrow> sy | Some i \<Rightarrow> sy\<lparr>to_trader := send i txt (to_trader sy)\<rparr>)"
| "ex_effect (Kill pid) sy =
     (case find_trader (ex (exch sy)) pid of None \<Rightarrow> sy | Some i \<Rightarrow> signal_auto i sy)"
| "ex_effect _ sy = sy"

definition signal_exch :: "nat \<Rightarrow> system \<Rightarrow> system option" where
  "signal_exch i sy =
     (case sig_handler (trader_pid (traders (ex (exch sy)) ! i)) (exch sy) of
        Inl _ \<Rightarrow> None | Inr st \<Rightarrow> Some (sy\<lparr>exch := st\<rparr>))"

fun auto_effects :: "nat \<Rightarrow> effect list \<Rightarrow> system \<Rightarrow> system option" where
  "auto_effects i [] sy = Some sy"
| "auto_effects i (Write fd txt # es) sy = auto_effects i es (sy\<lparr>to_exch := send i txt (to_exch sy)\<rparr>)"
| "auto_effects i (Kill pid # es) sy = Option.bind (signal_exch i sy) (auto_effects i es)"
| "auto_effects i (_ # es) sy = auto_effects i es sy"

text \<open>
  The events: another program sends a message and signals the exchange; a round of the exchange, with the answers of
  \<open>realloc\<close> and \<open>write\<close> and the auto-trader that \<open>waitpid\<close> reports as exited, if any; a round of an auto-trader. Neither program sets \<open>SA_RESTART\<close>,
  so a signal that arrives while \<open>read\<close> waits makes it return \<open>-1\<close>, and the round goes on with the empty buffer: a round
  that is interrupted. A signal that arrives while an earlier one is still pending is merged with it and never counted.
\<close>

datatype sys_event =
    Outside nat string
  | Ex_round env "nat option"
  | Auto_round nat
  | Ex_interrupted env "nat option"
  | Auto_interrupted nat
  | Ex_merged
  | Auto_merged nat

definition pending :: "loop_state \<Rightarrow> bool" where
  "pending st \<longleftrightarrow> sig_ptr st < length (signal_array st)"

text \<open>The pipe that the next message is read from.\<close>

definition next_pipe :: "loop_state \<Rightarrow> tref option" where
  "next_pipe st = (if pending st then find_trader (ex st) (signal_array st ! sig_ptr st) else None)"

definition exited :: "nat option \<Rightarrow> system \<Rightarrow> int" where
  "exited w sy = (case w of None \<Rightarrow> 0 | Some i \<Rightarrow> trader_pid (traders (ex (exch sy)) ! i))"

definition ex_round :: "env \<Rightarrow> nat option \<Rightarrow> string \<Rightarrow> system \<Rightarrow> system option" where
  "ex_round e w bytes sy =
     (case iterate \<lparr>in_env = e, in_bytes = bytes, in_during = [], in_signal_mem = True, in_wait = (exited w sy, True)\<rparr> (exch sy) of
        Inl _ \<Rightarrow> None
      | Inr (out, st') \<Rightarrow> Some (fold ex_effect out (sy\<lparr>exch := st'\<rparr>)))"

definition outside_turn :: "nat \<Rightarrow> string \<Rightarrow> system \<Rightarrow> system option" where
  "outside_turn i m sy =
     (if i < length (to_exch sy) \<and> autos sy ! i = None
      then signal_exch i (sy\<lparr>to_exch := send i m (to_exch sy)\<rparr>) else None)"

definition exch_turn :: "env \<Rightarrow> nat option \<Rightarrow> system \<Rightarrow> system option" where
  "exch_turn e w sy =
     (if exchange_disconnect (exch sy) then None
      else (case next_pipe (exch sy) of
              None \<Rightarrow> ex_round e w [] sy
            | Some t \<Rightarrow>
                if to_exch sy ! t = [] then None
                else ex_round e w (take BUFFER_READ (to_exch sy ! t))
                       (sy\<lparr>to_exch := (to_exch sy)[t := drop BUFFER_READ (to_exch sy ! t)]\<rparr>)))"

definition auto_turn :: "nat \<Rightarrow> system \<Rightarrow> system option" where
  "auto_turn i sy =
     (case (if i < length (autos sy) then autos sy ! i else None) of
        None \<Rightarrow> None
      | Some a \<Rightarrow>
          if a_disconnect a \<or> \<not> a_signal_ptr a < a_signal_count a \<or> to_trader sy ! i = [] then None
          else (case auto_message (\<lambda>_ _. True) (take BUFFER_READ (to_trader sy ! i)) a of
                  Inl _ \<Rightarrow> None
                | Inr (out, a') \<Rightarrow>
                    auto_effects i out (sy\<lparr>autos := (autos sy)[i := Some a'],
                      to_trader := (to_trader sy)[i := drop BUFFER_READ (to_trader sy ! i)]\<rparr>)))"

text \<open>
  An interrupted round, possible when a signal later than the one being served has been counted, and a merge, which takes back
  the last of two signals that were counted and not served.
\<close>

definition exch_interrupted :: "env \<Rightarrow> nat option \<Rightarrow> system \<Rightarrow> system option" where
  "exch_interrupted e w sy =
     (case next_pipe (exch sy) of
        None \<Rightarrow> None
      | Some t \<Rightarrow>
          if exchange_disconnect (exch sy) \<or> to_exch sy ! t \<noteq> [] \<or> length (signal_array (exch sy)) \<le> Suc (sig_ptr (exch sy)) then None
          else ex_round e w [] sy)"

definition auto_interrupted :: "nat \<Rightarrow> system \<Rightarrow> system option" where
  "auto_interrupted i sy =
     (case (if i < length (autos sy) then autos sy ! i else None) of
        None \<Rightarrow> None
      | Some a \<Rightarrow>
          if a_disconnect a \<or> a_signal_count a \<le> Suc (a_signal_ptr a) \<or> to_trader sy ! i \<noteq> [] then None
          else (case auto_message (\<lambda>_ _. True) [] a of
                  Inl _ \<Rightarrow> None
                | Inr (out, a') \<Rightarrow> auto_effects i out (sy\<lparr>autos := (autos sy)[i := Some a']\<rparr>)))"

definition exch_merged :: "system \<Rightarrow> system option" where
  "exch_merged sy =
     (if length (signal_array (exch sy)) \<le> Suc (sig_ptr (exch sy)) then None
      else Some (sy\<lparr>exch := (exch sy)\<lparr>signal_array := butlast (signal_array (exch sy))\<rparr>\<rparr>))"

definition auto_merged :: "nat \<Rightarrow> system \<Rightarrow> system option" where
  "auto_merged i sy =
     (case (if i < length (autos sy) then autos sy ! i else None) of
        None \<Rightarrow> None
      | Some a \<Rightarrow>
          if a_signal_count a \<le> Suc (a_signal_ptr a) then None
          else Some (sy\<lparr>autos := (autos sy)[i := Some (a\<lparr>a_signal_count := a_signal_count a - 1\<rparr>)]\<rparr>))"

definition sys_step :: "sys_event \<Rightarrow> system \<Rightarrow> system option" where
  "sys_step v sy =
     (case v of
        Outside i m \<Rightarrow> outside_turn i m sy
      | Ex_round e w \<Rightarrow> if memory_ok e then exch_turn e w sy else None
      | Auto_round i \<Rightarrow> auto_turn i sy
      | Ex_interrupted e w \<Rightarrow> if memory_ok e then exch_interrupted e w sy else None
      | Auto_interrupted i \<Rightarrow> auto_interrupted i sy
      | Ex_merged \<Rightarrow> exch_merged sy
      | Auto_merged i \<Rightarrow> auto_merged i sy)"

lemmas turn_defs = sys_step_def outside_turn_def exch_turn_def auto_turn_def

lemmas signal_defs = exch_interrupted_def auto_interrupted_def exch_merged_def auto_merged_def

text \<open>
  The start: the exchange starts its traders, the auto-traders among them start with their number as argument, and then the
  exchange announces that the market is open.
\<close>

definition auto_program :: "nat \<Rightarrow> auto_os option \<Rightarrow> auto_state option" where
  "auto_program i prog =
     (case prog of None \<Rightarrow> None
      | Some w \<Rightarrow> (case snd (auto_start w [show_int (int i)]) of Inr a \<Rightarrow> Some a | Inl _ \<Rightarrow> None))"

definition sys_start :: "os \<Rightarrow> string list \<Rightarrow> auto_os option list \<Rightarrow> system option" where
  "sys_start w args progs =
     (case main_start w args of
        (out, Running st) \<Rightarrow>
          Some (fold ex_effect out \<lparr>exch = st, autos = map (\<lambda>(i, prog). auto_program i prog) (enumerate 0 progs),
            to_trader = replicate (length progs) [], to_exch = replicate (length progs) []\<rparr>)
      | _ \<Rightarrow> None)"

section \<open>The invariant of the system\<close>

definition autos_inv :: "auto_state option list \<Rightarrow> bool" where
  "autos_inv as \<longleftrightarrow> (\<forall>a. Some a \<in> set as \<longrightarrow> auto_inv a)"

definition sys_inv :: "string list \<Rightarrow> system \<Rightarrow> bool" where
  "sys_inv ps sy \<longleftrightarrow> loop_inv ps (exch sy) \<and> autos_inv (autos sy)"

lemma autos_inv_update: "autos_inv as \<Longrightarrow> (\<And>a. x = Some a \<Longrightarrow> auto_inv a) \<Longrightarrow> autos_inv (as[i := x])"
  using set_update_subset_insert [of as i x] by (auto simp: autos_inv_def)

lemma auto_signalled: "auto_inv a \<Longrightarrow> auto_inv (auto_sig_handler a)"
  by (auto simp: auto_inv_def auto_wf_def auto_sig_handler_def)

lemma sys_inv_pipes [simp]: "sys_inv ps (sy\<lparr>to_exch := x\<rparr>) = sys_inv ps sy" "sys_inv ps (sy\<lparr>to_trader := x\<rparr>) = sys_inv ps sy"
  by (simp_all add: sys_inv_def)

lemma signal_auto_inv:
  assumes "sys_inv ps sy"
  shows "sys_inv ps (signal_auto i sy)"
proof (cases "i < length (autos sy)")
  case True
  have "auto_inv a" if "autos sy ! i = Some a" for a
    using assms that True by (metis autos_inv_def nth_mem sys_inv_def)
  then have "autos_inv ((autos sy)[i := map_option auto_sig_handler (autos sy ! i)])"
    using assms by (intro autos_inv_update) (auto simp: sys_inv_def auto_signalled)
  with assms show ?thesis by (simp add: sys_inv_def signal_auto_def)
next
  case False
  with assms show ?thesis by (simp add: signal_auto_def sys_inv_def list_update_beyond)
qed

lemma ex_effect_frame [simp]: "exch (ex_effect x sy) = exch sy" "to_exch (ex_effect x sy) = to_exch sy"
  by (cases x; simp add: signal_auto_def split: option.split)+

lemma ex_effects_frame [simp]: "exch (fold ex_effect out sy) = exch sy" "to_exch (fold ex_effect out sy) = to_exch sy"
  by (induction out arbitrary: sy) simp_all

lemma ex_effect_inv: "sys_inv ps sy \<Longrightarrow> sys_inv ps (ex_effect x sy)"
  by (cases x) (auto simp: signal_auto_inv split: option.split)

lemma ex_effects_inv: "sys_inv ps sy \<Longrightarrow> sys_inv ps (fold ex_effect out sy)"
  by (induction out arbitrary: sy) (simp_all add: ex_effect_inv)

lemma signal_exch_inv: "sys_inv ps sy \<Longrightarrow> signal_exch i sy = Some sy' \<Longrightarrow> sys_inv ps sy'"
  by (auto simp: signal_exch_def sig_handler_def sys_inv_def loop_inv_def split: if_splits)

lemma auto_effects_inv: "sys_inv ps sy \<Longrightarrow> auto_effects i out sy = Some sy' \<Longrightarrow> sys_inv ps sy'"
  by (induction i out sy rule: auto_effects.induct) (auto simp: Option.bind_eq_Some_conv dest: signal_exch_inv)

lemma ex_round_inv:
  assumes "sys_inv ps sy" "memory_ok e" "ex_round e w bytes sy = Some sy'"
  shows "sys_inv ps sy'"
proof -
  obtain out st' where it: "iterate \<lparr>in_env = e, in_bytes = bytes, in_during = [], in_signal_mem = True,
      in_wait = (exited w sy, True)\<rparr> (exch sy) = Inr (out, st')"
    and sy': "sy' = fold ex_effect out (sy\<lparr>exch := st'\<rparr>)"
    using assms(3) by (auto simp: ex_round_def split: sum.splits)
  have "loop_inv ps st'" using iterate_inv [OF _ _ it] assms(1,2) by (simp add: sys_inv_def)
  then show ?thesis unfolding sy' using assms(1) by (intro ex_effects_inv) (simp add: sys_inv_def)
qed

interpretation sys: stepping sys_step "sys_inv ps" for ps
proof
  fix v sy sy' assume inv: "sys_inv ps sy" and step: "sys_step v sy = Some sy'"
  show "sys_inv ps sy'"
  proof (cases v)
    case (Outside i m)
    with step inv signal_exch_inv [of ps "sy\<lparr>to_exch := send i m (to_exch sy)\<rparr>" i sy'] show ?thesis
      by (auto simp: turn_defs split: if_splits)
  next
    case (Ex_round e w)
    with step inv show ?thesis
      by (auto simp: turn_defs Let_def elim!: ex_round_inv [rotated 2] split: if_splits option.splits)
  next
    case (Auto_round i)
    then obtain a out a' where a: "autos sy ! i = Some a" "i < length (autos sy)" "a_signal_ptr a < a_signal_count a"
      "auto_message (\<lambda>_ _. True) (take BUFFER_READ (to_trader sy ! i)) a = Inr (out, a')"
      and eff: "auto_effects i out (sy\<lparr>autos := (autos sy)[i := Some a'],
        to_trader := (to_trader sy)[i := drop BUFFER_READ (to_trader sy ! i)]\<rparr>) = Some sy'"
      using step by (auto simp: turn_defs split: if_splits option.splits sum.splits)
    have "auto_inv a" using inv a(1,2) by (metis autos_inv_def nth_mem sys_inv_def)
    then have "auto_inv a'" using auto_message_inv a(3,4) by blast
    then show ?thesis using inv by (intro auto_effects_inv [OF _ eff]) (auto simp: sys_inv_def intro: autos_inv_update)
  next
    case (Ex_interrupted e w)
    with step inv show ?thesis
      by (auto simp: sys_step_def exch_interrupted_def elim!: ex_round_inv [rotated 2] split: if_splits option.splits)
  next
    case (Auto_interrupted i)
    then obtain a out a' where a: "autos sy ! i = Some a" "i < length (autos sy)" "a_signal_ptr a < a_signal_count a"
      "auto_message (\<lambda>_ _. True) [] a = Inr (out, a')" and eff: "auto_effects i out (sy\<lparr>autos := (autos sy)[i := Some a']\<rparr>) = Some sy'"
      using step by (auto simp: sys_step_def auto_interrupted_def split: if_splits option.splits sum.splits)
    have "auto_inv a" using inv a(1,2) by (metis autos_inv_def nth_mem sys_inv_def)
    then have "auto_inv a'" using auto_message_inv a(3,4) by blast
    then show ?thesis using inv by (intro auto_effects_inv [OF _ eff]) (auto simp: sys_inv_def intro: autos_inv_update)
  next
    case Ex_merged
    with step inv show ?thesis by (auto simp: sys_step_def exch_merged_def sys_inv_def loop_inv_def split: if_splits)
  next
    case (Auto_merged i)
    then obtain a where a: "autos sy ! i = Some a" "i < length (autos sy)" "Suc (a_signal_ptr a) < a_signal_count a"
      and sy': "sy' = sy\<lparr>autos := (autos sy)[i := Some (a\<lparr>a_signal_count := a_signal_count a - 1\<rparr>)]\<rparr>"
      using step by (auto simp: sys_step_def auto_merged_def split: if_splits option.splits)
    have "auto_inv a" using inv a(1,2) by (metis autos_inv_def nth_mem sys_inv_def)
    then have "auto_inv (a\<lparr>a_signal_count := a_signal_count a - 1\<rparr>)" using a(3) by (auto simp: auto_inv_def auto_wf_def)
    then show ?thesis using inv by (auto simp: sy' sys_inv_def intro: autos_inv_update)
  qed
qed

lemma sys_start_inv:
  assumes "sys_start w args progs = Some sy" "distinct (products (exch sy))" "length (raw_buffer w) = BUFFER_READ"
    and raw: "\<forall>a. Some a \<in> set progs \<longrightarrow> length (a_raw a) = BUFFER_READ \<and> NUL \<in> set (a_raw a)"
  shows "sys_inv (products (exch sy)) sy"
proof -
  let ?as = "map (\<lambda>(i, prog). auto_program i prog) (enumerate 0 progs)" and ?n = "length progs"
  obtain out st where st: "main_start w args = (out, Running st)"
    and sy: "sy = fold ex_effect out \<lparr>exch = st, autos = ?as, to_trader = replicate ?n [], to_exch = replicate ?n []\<rparr>"
    using assms(1) by (auto simp: sys_start_def split: prod.splits startup.splits)
  have "exch sy = st" by (simp add: sy)
  have "auto_inv a" if "Some a \<in> set ?as" for a
  proof -
    from that obtain i where i: "i < length progs" "auto_program i (progs ! i) = Some a"
      by (auto simp: in_set_conv_nth nth_enumerate_eq dest: sym)
    then have "progs ! i \<in> set progs" by simp
    with i(2) obtain b where "Some b \<in> set progs" "snd (auto_start b [show_int (int i)]) = Inr a"
      by (auto simp: auto_program_def split: option.splits sum.splits)
    with raw auto_start_inv [of b "[show_int (int i)]" "fst (auto_start b [show_int (int i)])" a] show ?thesis by (metis prod.collapse)
  qed
  then have "autos_inv ?as" by (simp add: autos_inv_def)
  with start_inv [OF st] assms(2,3) \<open>exch sy = st\<close> show ?thesis unfolding sy by (intro ex_effects_inv) (simp add: sys_inv_def)
qed

section \<open>One message\<close>

definition handled :: "loop_state \<Rightarrow> string list \<Rightarrow> exchange \<Rightarrow> loop_state" where
  "handled st argv s' =
     (let st' = st\<lparr>ex := s', market_argv := argv, sig_ptr := Suc (sig_ptr st)\<rparr> in
      if length (signal_array st') = signal_cap st' - 10 then st'\<lparr>signal_cap := signal_cap st' + MAX_SIGNALS\<rparr> else st')"

lemma handled_sel [simp]: "ex (handled st argv s') = s'" "sig_ptr (handled st argv s') = Suc (sig_ptr st)"
  "signal_array (handled st argv s') = signal_array st" "exchange_disconnect (handled st argv s') = exchange_disconnect st"
  "traders_online (handled st argv s') = traders_online st" "buffer_read (handled st argv s') = buffer_read st"
  by (simp_all add: handled_def Let_def)

definition heading :: "loop_state \<Rightarrow> tref \<Rightarrow> string \<Rightarrow> effect" where
  "heading st t m =
     Print (LOG_PREFIX @ '' [T'' @ show_int (trader_id (traders (ex st) ! t)) @ ''] Parsing command: <'' @ m @ ''>'' @ [NL])"

text \<open>A round that reads a text handles the message before the first semicolon, and nothing else of it.\<close>

lemma take_message_text:
  assumes inv: "loop_inv ps st" and nul: "NUL \<in> set (buffer_read st)"
    and m: "CHR '';'' \<notin> set m" "NUL \<notin> set m" "length m < BUFFER_READ"
    and inp: "in_bytes inp = m @ CHR '';'' # r" "in_during inp = []" "in_signal_mem inp"
    and t: "find_trader (ex st) (signal_array st ! sig_ptr st) = Some t"
  defines "rm \<equiv> read_message m (market_argv st) ps"
  shows "\<exists>b. length b = BUFFER_READ \<and> NUL \<in> set b \<and> take_message inp st =
    bind_err (handle_message (in_env inp) ps (fst rm) (fst (snd rm)) t (signal_array st ! sig_ptr st) (ex st))
      (\<lambda>(out2, s'). Inr (heading st t m # snd (snd rm) @ out2, (handled st (fst (snd rm)) s')\<lparr>buffer_read := b\<rparr>))"
proof -
  obtain b0 where b0: "clear_cstr (buffer_read st) = Inr b0" "length b0 = BUFFER_READ"
    using clear_cstr_ok [OF nul] inv by (auto simp: loop_inv_def)
  obtain b1 where b1: "cut_message (read_into (in_bytes inp) b0) = Inr b1" "cstr b1 = m" "NUL \<in> set b1" "length b1 = BUFFER_READ"
    using cut_message_first [OF m(1,2), of b0 r] m(3) b0(2) inp(1) by auto
  let ?b2 = "if spacing_ok m then null_spaces 7 b1 else b1"
  have "NUL \<in> set ?b2" "length ?b2 = BUFFER_READ" using b1 null_spaces_terminated by auto
  then obtain b3 where b3: "clear_cstr ?b2 = Inr b3" "NUL \<in> set b3" "length b3 = BUFFER_READ"
    using clear_cstr_ok by metis
  have ps: "products st = ps" using inv by (simp add: loop_inv_def)
  show ?thesis
    using b0(1) b1(1,2) b3 t inp(2,3)
    by (intro exI [of _ b3], cases "handle_message (in_env inp) ps (fst rm) (fst (snd rm)) t (signal_array st ! sig_ptr st) (ex st)")
      (auto simp: take_message_def rm_def ps handled_def heading_def Let_def case_prod_beta)
qed

section \<open>What a round leaves alone\<close>

definition pids :: "exchange \<Rightarrow> int list" where
  "pids s = map trader_pid (traders s)"

lemma find_trader_pids: "pids s = pids s' \<Longrightarrow> find_trader s pid = find_trader s' pid"
proof -
  assume p: "pids s = pids s'"
  then have "length (traders s) = length (traders s')" unfolding pids_def by (metis length_map)
  moreover have "trader_pid (traders s ! i) = trader_pid (traders s' ! i)" if "i < length (traders s)" for i
    using p that calculation unfolding pids_def by (metis nth_map)
  ultimately show ?thesis unfolding find_trader_def by (intro find_cong) auto
qed

lemma wires_pids: "wires s = wires s' \<Longrightarrow> pids s = pids s'"
proof -
  have "pids s = map fst (wires s)" for s by (simp add: pids_def wires_def wire_def comp_def)
  then show "wires s = wires s' \<Longrightarrow> pids s = pids s'" by simp
qed

lemma reap_loop_frame:
  "pids (ex (snd (reap_loop pid is st))) = pids (ex st) \<and>
   reap_loop pid is (st\<lparr>buffer_read := b\<rparr>) = (fst (reap_loop pid is st), (snd (reap_loop pid is st))\<lparr>buffer_read := b\<rparr>)"
proof (induction "is" arbitrary: st)
  case Nil
  then show ?case by simp
next
  case (Cons i "is")
  have "map trader_pid ((traders (ex st))[i := (traders (ex st) ! i)\<lparr>disconnected := True\<rparr>]) = map trader_pid (traders (ex st))"
    by (cases "i < length (traders (ex st))") (simp_all add: map_update list_update_same_conv list_update_beyond)
  then have p: "pids (upd_trader i (\<lambda>t. t\<lparr>disconnected := True\<rparr>) (ex st)) = pids (ex st)"
    by (simp add: pids_def upd_trader_def)
  let ?st = "st\<lparr>ex := upd_trader i (\<lambda>t. t\<lparr>disconnected := True\<rparr>) (ex st), traders_online := traders_online st - 1\<rparr>"
  have "?st\<lparr>buffer_read := b\<rparr> = st\<lparr>buffer_read := b, ex := upd_trader i (\<lambda>t. t\<lparr>disconnected := True\<rparr>) (ex st),
      traders_online := traders_online st - 1\<rparr>" by simp
  with Cons.IH [of ?st] Cons.IH [of st] p show ?case by (simp add: Let_def case_prod_beta)
qed

definition rest_of_round :: "int \<times> bool \<Rightarrow> loop_state \<Rightarrow> effect list \<times> loop_state" where
  "rest_of_round w st =
     (let (out2, st2) = reap w st; (out3, st3) = finish st2 in (out2 @ out3, st3))"

lemma rest_of_round_frame:
  "rest_of_round w (st\<lparr>buffer_read := b\<rparr>) = (fst (rest_of_round w st), (snd (rest_of_round w st))\<lparr>buffer_read := b\<rparr>)"
  "pids (ex (snd (rest_of_round w st))) = pids (ex st)"
  "sig_ptr (snd (rest_of_round w st)) = sig_ptr st" "signal_array (snd (rest_of_round w st)) = signal_array st"
  "store (ex (snd (rest_of_round w st))) = store (ex st)" "market (ex (snd (rest_of_round w st))) = market (ex st)"
proof -
  have keep: "store (ex (snd (reap_loop pid is st))) = store (ex st) \<and> market (ex (snd (reap_loop pid is st))) = market (ex st)"
    for pid "is" st by (induction "is" arbitrary: st) (auto simp: Let_def case_prod_beta)
  note f = reap_loop_frame [of "fst w" "[0..<length (traders (ex st))]" st b]
  show "rest_of_round w (st\<lparr>buffer_read := b\<rparr>) = (fst (rest_of_round w st), (snd (rest_of_round w st))\<lparr>buffer_read := b\<rparr>)"
    using f by (simp add: rest_of_round_def reap_def finish_def Let_def case_prod_beta)
  show "pids (ex (snd (rest_of_round w st))) = pids (ex st)"
    "store (ex (snd (rest_of_round w st))) = store (ex st)" "market (ex (snd (rest_of_round w st))) = market (ex st)"
    using f keep by (simp_all add: rest_of_round_def reap_def finish_def Let_def case_prod_beta)
  show "sig_ptr (snd (rest_of_round w st)) = sig_ptr st" "signal_array (snd (rest_of_round w st)) = signal_array st"
    using after_message [of w st] by (simp_all add: rest_of_round_def Let_def case_prod_beta)
qed

lemma rest_of_round_end:
  assumes "\<not> exchange_disconnect st" "exchange_disconnect (snd (rest_of_round w st))"
  shows "traders_online (snd (rest_of_round w st)) = 0"
proof -
  have "exchange_disconnect (snd (reap_loop pid is st)) = exchange_disconnect st" for pid "is" st
    by (induction "is" arbitrary: st) (auto simp: Let_def case_prod_beta)
  then have "\<not> exchange_disconnect (snd (reap w st))" using assms(1) by (simp add: reap_def)
  with assms(2) show ?thesis by (auto simp: rest_of_round_def finish_def Let_def case_prod_beta split: if_splits)
qed

lemma iterate_pending:
  "pending st \<Longrightarrow> iterate inp st = bind_err (take_message inp st)
     (\<lambda>(out1, st1). Inr (out1 @ fst (rest_of_round (in_wait inp) st1), snd (rest_of_round (in_wait inp) st1)))"
  by (cases "take_message inp st") (auto simp: iterate_def pending_def rest_of_round_def Let_def case_prod_beta)

lemma ex_effects_same:
  "ex (exch a) = ex (exch b) \<Longrightarrow> to_trader a = to_trader b \<Longrightarrow> autos a = autos b \<Longrightarrow>
     to_trader (fold ex_effect out a) = to_trader (fold ex_effect out b) \<and> autos (fold ex_effect out a) = autos (fold ex_effect out b)"
proof (induction out arbitrary: a b)
  case Nil
  then show ?case by simp
next
  case (Cons x out)
  have "to_trader (ex_effect x a) = to_trader (ex_effect x b) \<and> autos (ex_effect x a) = autos (ex_effect x b)"
    using Cons.prems by (cases x) (auto simp: signal_auto_def split: option.split)
  with Cons show ?case by simp
qed

section \<open>A round that reads a message\<close>

lemma ex_round_text:
  assumes inv: "loop_inv ps (exch sy)" and nul: "NUL \<in> set (buffer_read (exch sy))"
    and m: "CHR '';'' \<notin> set m" "NUL \<notin> set m" "length m < BUFFER_READ" and t: "next_pipe (exch sy) = Some t"
  defines "st \<equiv> exch sy"
  defines "rm \<equiv> read_message m (market_argv st) ps"
  shows "\<exists>b. length b = BUFFER_READ \<and> NUL \<in> set b \<and> ex_round e w (m @ CHR '';'' # r) sy =
    (case handle_message e ps (fst rm) (fst (snd rm)) t (signal_array st ! sig_ptr st) (ex st) of
       Inl _ \<Rightarrow> None
     | Inr (out2, s') \<Rightarrow>
         let rr = rest_of_round (exited w sy, True) (handled st (fst (snd rm)) s')
         in Some (fold ex_effect (heading st t m # snd (snd rm) @ out2 @ fst rr) (sy\<lparr>exch := (snd rr)\<lparr>buffer_read := b\<rparr>\<rparr>)))"
proof -
  let ?inp = "\<lparr>in_env = e, in_bytes = m @ CHR '';'' # r, in_during = [], in_signal_mem = True, in_wait = (exited w sy, True)\<rparr>"
  have p: "pending st" and f: "find_trader (ex st) (signal_array st ! sig_ptr st) = Some t"
    using t by (auto simp: next_pipe_def st_def split: if_splits)
  obtain b where b: "length b = BUFFER_READ" "NUL \<in> set b" and tm: "take_message ?inp st =
    bind_err (handle_message e ps (fst rm) (fst (snd rm)) t (signal_array st ! sig_ptr st) (ex st))
      (\<lambda>(out2, s'). Inr (heading st t m # snd (snd rm) @ out2, (handled st (fst (snd rm)) s')\<lparr>buffer_read := b\<rparr>))"
    using take_message_text [OF inv nul m, of ?inp r t] f
    unfolding st_def [symmetric] rm_def [symmetric] by auto
  show ?thesis
    by (intro exI [of _ b] conjI b, cases "handle_message e ps (fst rm) (fst (snd rm)) t (signal_array st ! sig_ptr st) (ex st)")
      (auto simp: ex_round_def iterate_pending [OF p] tm rest_of_round_frame(1) Let_def st_def [symmetric])
qed

section \<open>Messages that are read together\<close>

lemma sys_ex_round:
  assumes "next_pipe (exch sy) = Some t"
  shows "sys_step (Ex_round e w) sy =
    (if \<not> memory_ok e \<or> exchange_disconnect (exch sy) \<or> to_exch sy ! t = [] then None
     else ex_round e w (take BUFFER_READ (to_exch sy ! t)) (sy\<lparr>to_exch := (to_exch sy)[t := drop BUFFER_READ (to_exch sy ! t)]\<rparr>))"
  using assms by (simp add: turn_defs Let_def)

section \<open>Waiting\<close>

text \<open>The exchange waits in \<open>read\<close> on the pipe of a trader in which there is nothing.\<close>

definition waiting :: "tref \<Rightarrow> system \<Rightarrow> bool" where
  "waiting t sy \<longleftrightarrow> \<not> exchange_disconnect (exch sy) \<and> next_pipe (exch sy) = Some t \<and> to_exch sy ! t = []"

lemma read_nothing:
  assumes "NUL \<in> set b"
  shows "\<exists>b'. bind_err (clear_cstr b) (\<lambda>b0. cut_message (read_into [] b0)) = Inr b' \<and> cstr b' = [] \<and> NUL \<in> set b'"
proof -
  obtain b0 where b0: "clear_cstr b = Inr b0" "NUL \<in> set b0" using clear_cstr_ok [OF assms] by blast
  have n: "length (cstr b) < length b" by (rule cstr_short [OF assms])
  have "hd b0 = NUL"
  proof (cases "cstr b")
    case Nil
    with assms have "hd b = NUL" by (cases b) (auto simp: cstr_def split: if_splits)
    with Nil b0(1) n show ?thesis by (simp add: clear_cstr_def Let_def split: if_splits)
  next
    case (Cons c cs)
    with b0(1) n have "b0 = NUL # replicate (length cs) NUL @ drop (length (cstr b)) b"
      by (auto simp: clear_cstr_def Let_def split: if_splits)
    then show ?thesis by simp
  qed
  then obtain r where r: "b0 = NUL # r" using b0(2) by (cases b0) auto
  then have "cut_message (read_into [] b0) = Inr b0" by (simp add: read_into_def cut_message_def)
  with b0 r show ?thesis by (auto simp: cstr_def)
qed

text \<open>Interrupted, it takes nothing for a message: the trader is told INVALID and neither orders nor market change.\<close>

lemma take_nothing:
  assumes nul: "NUL \<in> set (buffer_read st)" and t: "find_trader (ex st) (signal_array st ! sig_ptr st) = Some t"
    and inp: "in_bytes inp = []" "in_during inp = []" "in_signal_mem inp"
  shows "\<exists>b. NUL \<in> set b \<and> take_message inp st =
    Inr (heading st t [] # Print (''Null input'' @ [NL]) # reject (in_env inp) (ex st) t (signal_array st ! sig_ptr st),
      (handled st (market_argv st) (ex st))\<lparr>buffer_read := b\<rparr>)"
proof -
  obtain b0 b1 where b: "clear_cstr (buffer_read st) = Inr b0" "cut_message (read_into [] b0) = Inr b1" "cstr b1 = []" "NUL \<in> set b1"
    using read_nothing [OF nul] by auto
  obtain b3 where b3: "clear_cstr b1 = Inr b3" "NUL \<in> set b3" using clear_cstr_ok [OF b(4)] by blast
  have "\<not> spacing_ok []" by (simp add: spacing_ok_def)
  with b b3 t inp show ?thesis
    by (intro exI [of _ b3]) (simp add: take_message_def read_message_def handle_message_def handled_def heading_def Let_def)
qed

lemma interrupted_round:
  assumes "waiting t sy" and "NUL \<in> set (buffer_read (exch sy))" and "sys_step (Ex_interrupted e w) sy = Some sy'"
  shows "store (ex (exch sy')) = store (ex (exch sy)) \<and> market (ex (exch sy')) = market (ex (exch sy)) \<and>
    sig_ptr (exch sy') = Suc (sig_ptr (exch sy)) \<and> to_exch sy' = to_exch sy"
proof -
  let ?inp = "\<lparr>in_env = e, in_bytes = [], in_during = [], in_signal_mem = True, in_wait = (exited w sy, True)\<rparr>"
  have p: "pending (exch sy)" and f: "find_trader (ex (exch sy)) (signal_array (exch sy) ! sig_ptr (exch sy)) = Some t"
    using assms(1) by (auto simp: waiting_def next_pipe_def split: if_splits)
  obtain b where tm: "take_message ?inp (exch sy) =
    Inr (heading (exch sy) t [] # Print (''Null input'' @ [NL]) # reject e (ex (exch sy)) t (signal_array (exch sy) ! sig_ptr (exch sy)),
      (handled (exch sy) (market_argv (exch sy)) (ex (exch sy)))\<lparr>buffer_read := b\<rparr>)"
    using take_nothing [OF assms(2) f, of ?inp] by auto
  have "ex_round e w [] sy = Some sy'" using assms(1,3)
    by (auto simp: sys_step_def exch_interrupted_def waiting_def split: if_splits)
  then show ?thesis
    by (auto simp: ex_round_def iterate_pending [OF p] tm rest_of_round_frame)
qed

end
