(* ===== verification/Sy_Trade.thy ===== *)
theory Sy_Trade
  imports Sy_System
begin

text \<open>
  The way of an order through the system: the text of a trader's order is read by the exchange as that
  order, entered, and announced to the other traders; an order that crosses one order of the book is matched
  with it and nothing else.
\<close>

section \<open>Orders as text\<close>

definition fresh_order :: "order_type \<Rightarrow> string \<Rightarrow> int \<Rightarrow> int \<Rightarrow> tref \<Rightarrow> int \<Rightarrow> order_struct" where
  "fresh_order k p q pr t oid =
     \<lparr>order_type = k, item = p, quantity = q, unit_price = pr, trader = t, order_id = oid, order_index = - 1, completed = False\<rparr>"

definition order_words :: "order_type \<Rightarrow> int \<Rightarrow> string \<Rightarrow> int \<Rightarrow> int \<Rightarrow> string list" where
  "order_words k oid p q pr = [side_text k, show_int oid, p, show_int q, show_int pr]"

lemma order_words_text: "order_text (side_text k) oid p q pr = unwords (order_words k oid p q pr) @ '';''"
  by (simp add: order_words_def order_text_words)

lemma order_words_ok:
  assumes "product_name p" "in_limits q pr" "0 \<le> oid" "oid < 2 ^ 31"
  shows "\<forall>w\<in>set (order_words k oid p q pr). is_word w \<and> CHR '';'' \<notin> set w \<and> NUL \<notin> set w"
proof -
  have q: "0 \<le> q" "0 \<le> pr" "q < 2 ^ 31" "pr < 2 ^ 31" using assms(2) by (auto simp: in_limits_def pe_limits)
  have "side_text k = ''BUY'' \<or> side_text k = ''SELL''" by (cases k) (simp_all add: side_text_def)
  then show ?thesis using assms q show_int_word by (auto simp: order_words_def product_name_def is_word_def)
qed

lemma order_read:
  fixes k
  assumes p: "product_name p" "p \<in> set ps" and lim: "in_limits q pr" and oid: "0 \<le> oid" "oid < 2 ^ 31"
  defines "ws \<equiv> order_words k oid p q pr"
  shows "read_message (unwords ws) argv ps = (ORDER_RECEIVED, ws @ drop 5 argv, [])"
    "newOrder_fields (ws @ drop 5 argv) s t (order_type_of ((ws @ drop 5 argv) ! 0)) =
      (if oid \<le> int (length (orders (traders s ! t))) then Some (fresh_order k p q pr t oid) else None)"
proof -
  have q: "0 \<le> q" "0 \<le> pr" "q < 2 ^ 31" "pr < 2 ^ 31" using lim by (auto simp: in_limits_def pe_limits)
  have side: "side_text k = ''BUY'' \<or> side_text k = ''SELL''" by (cases k) (simp_all add: side_text_def)
  have ws: "\<forall>w\<in>set ws. is_word w" using order_words_ok [OF p(1) lim oid, of k] by (auto simp: ws_def)
  have sp: "spacing_ok (unwords ws)" "strtok_all (unwords ws) = ws"
    using unwords_words [of ws] ws by (auto simp: ws_def order_words_def)
  have "List.find (\<lambda>x. p = x) ps \<noteq> None" using p(2) by (simp add: find_None_iff)
  then show "read_message (unwords ws) argv ps = (ORDER_RECEIVED, ws @ drop 5 argv, [])"
    using sp side by (auto simp: read_message_def Let_def spacing_ok_def eval_nat_numeral ws_def order_words_def)
  show "newOrder_fields (ws @ drop 5 argv) s t (order_type_of ((ws @ drop 5 argv) ! 0)) =
      (if oid \<le> int (length (orders (traders s ! t))) then Some (fresh_order k p q pr t oid) else None)"
    using lim q oid side
    by (cases k) (auto simp: newOrder_fields_def order_type_of_def side_text_def Let_def isNumeric_show atoi_show_int in_limits_def
        fresh_order_def ws_def order_words_def)
qed

lemma order_arrives:
  fixes k
  assumes p: "product_name p" "p \<in> set ps" and lim: "in_limits q pr" and oid: "0 \<le> oid" "oid < 2 ^ 31"
    and len: "length (order_text (side_text k) oid p q pr) \<le> length b"
  shows "\<exists>b' argv'. cut_message (read_into (order_text (side_text k) oid p q pr) b) = Inr b' \<and>
    read_message (cstr b') argv ps = (ORDER_RECEIVED, argv', []) \<and> argv' ! 0 = side_text k \<and>
    newOrder_fields argv' s t (order_type_of (argv' ! 0)) =
      (if oid \<le> int (length (orders (traders s ! t))) then Some (fresh_order k p q pr t oid) else None)"
proof -
  let ?m = "unwords (order_words k oid p q pr)"
  have m: "CHR '';'' \<notin> set ?m" "NUL \<notin> set ?m" "length ?m < length b"
    using order_words_ok [OF p(1) lim oid, of k] len by (auto simp: order_words_text order_words_def)
  then obtain b' where "cut_message (read_into (order_text (side_text k) oid p q pr) b) = Inr b'" "cstr b' = ?m"
    using cut_message_first [OF m, of "[]"] by (auto simp: order_words_text)
  with order_read [OF p lim oid, of k argv] show ?thesis by (auto simp: order_words_def)
qed

lemma order_valid:
  assumes "p \<in> set ps" "in_limits q pr" "0 \<le> oid" "oid < 2 ^ 31"
  shows "valid_order ps t (fresh_order k p q pr t oid)"
  using assms by (auto simp: valid_order_def fresh_order_def in_limits_def pe_limits intro: wraps_exact)


section \<open>Matching with one order\<close>

definition none_open :: "exchange \<Rightarrow> string \<Rightarrow> bool" where
  "none_open s p \<longleftrightarrow> (\<forall>r<length (store s). item (ord_of s r) = p \<longrightarrow> completed (ord_of s r))"

definition unused_id :: "exchange \<Rightarrow> tref \<Rightarrow> int \<Rightarrow> bool" where
  "unused_id s t oid \<longleftrightarrow> (\<forall>r<length (store s). trader (ord_of s r) = t \<longrightarrow> order_id (ord_of s r) \<noteq> oid)"

lemma entered_open:
  assumes "wf_exchange ps s"
  shows "open_orders (entered t x s) ty p =
    open_orders s ty p @ (if item x = p \<and> order_type x = ty \<and> \<not> completed x then [length (store s)] else [])"
proof -
  have "open_orders (entered t x s) ty p = filter (\<lambda>r. item (ord_of (entered t x s) r) = p \<and>
      order_type (ord_of (entered t x s) r) = ty \<and> \<not> completed (ord_of (entered t x s) r)) ([0..<length (store s)] @ [length (store s)])"
    by (simp add: open_orders_def entered_sel wf_book [OF assms])
  moreover have "filter (\<lambda>r. item (ord_of (entered t x s) r) = p \<and>
      order_type (ord_of (entered t x s) r) = ty \<and> \<not> completed (ord_of (entered t x s) r)) [0..<length (store s)] = open_orders s ty p"
    unfolding open_orders_def wf_book [OF assms] by (rule filter_cong) (simp_all add: entered_sel nth_append)
  ultimately show ?thesis by (simp add: entered_sel)
qed

lemma none_open_orders: "wf_exchange ps s \<Longrightarrow> none_open s p \<Longrightarrow> open_orders s ty p = []"
  by (auto simp: open_orders_def wf_book none_open_def filter_empty_conv)

lemma lone_order:
  assumes "wf_exchange ps s" "none_open s p"
  shows "opposite (entered t (fresh_order k p q pr t oid) s) (length (store s)) = None"
  by (cases k) (simp_all add: opposite_def entered_sel fresh_order_def getBestSellOrder_def getBestBuyOrder_def
      entered_open [OF assms(1)] none_open_orders [OF assms])

lemma run_match_none:
  assumes "wf_exchange ps s" "r < length (store s)" "memory_ok e" "opposite s r = None"
  shows "run_match n e r s = Inr ([], s)"
  using assms place_wf [OF assms(1,2)] by (simp add: run_match_def try_match_def memory_ok_def)

text \<open>A BUY at the price of the only SELL of its product, for the same quantity.\<close>

definition sell_entered :: "exchange \<Rightarrow> string \<Rightarrow> int \<Rightarrow> int \<Rightarrow> tref \<Rightarrow> int \<Rightarrow> exchange" where
  "sell_entered s p q pr t oid = entered t (fresh_order SELL p q pr t oid) s"

definition both_entered :: "exchange \<Rightarrow> string \<Rightarrow> int \<Rightarrow> int \<Rightarrow> tref \<Rightarrow> int \<Rightarrow> tref \<Rightarrow> int \<Rightarrow> exchange" where
  "both_entered s p q pr t oid u oid' = entered u (fresh_order BUY p q pr u oid') (sell_entered s p q pr t oid)"

lemma sell_entered_ok:
  assumes "wf_exchange ps s" "uniq_open s" "t < length (traders s)" "unused_id s t oid" "valid_order ps t (fresh_order SELL p q pr t oid)"
  shows "wf_exchange ps (sell_entered s p q pr t oid)" "uniq_open (sell_entered s p q pr t oid)"
  using entered_wf [OF assms(1,3,5)] entered_uniq [OF assms(1,3,5,2)] assms(4)
  by (simp_all add: sell_entered_def unused_id_def fresh_order_def)

lemma both_ords:
  "length (store (both_entered s p q pr t oid u oid')) = Suc (Suc (length (store s)))"
  "length (traders (both_entered s p q pr t oid u oid')) = length (traders s)"
  "ord_of (both_entered s p q pr t oid u oid') (length (store s)) =
     (fresh_order SELL p q pr t oid)\<lparr>order_index := int (length (store s))\<rparr>"
  "ord_of (both_entered s p q pr t oid u oid') (Suc (length (store s))) =
     (fresh_order BUY p q pr u oid')\<lparr>order_index := int (Suc (length (store s)))\<rparr>"
  by (simp_all add: both_entered_def sell_entered_def entered_sel nth_append)

lemma both_entered_ok:
  assumes "wf_exchange ps s" "uniq_open s" "t < length (traders s)" "u < length (traders s)" "t \<noteq> u"
    and "unused_id s t oid" "unused_id s u oid'"
    and v: "valid_order ps t (fresh_order SELL p q pr t oid)" "valid_order ps u (fresh_order BUY p q pr u oid')"
  shows "wf_exchange ps (both_entered s p q pr t oid u oid')" "uniq_open (both_entered s p q pr t oid u oid')"
proof -
  let ?s1 = "sell_entered s p q pr t oid"
  note ok = sell_entered_ok [OF assms(1-3,6) v(1)]
  have u1: "u < length (traders ?s1)" using assms(4) by (simp add: sell_entered_def entered_sel)
  have "\<forall>r<length (store ?s1). trader (ord_of ?s1 r) = u \<longrightarrow> order_id (ord_of ?s1 r) \<noteq> oid'"
    using assms(5,7) by (auto simp: sell_entered_def entered_sel nth_append unused_id_def fresh_order_def less_Suc_eq)
  then show "uniq_open (both_entered s p q pr t oid u oid')"
    unfolding both_entered_def by (intro entered_uniq [OF ok(1) u1 v(2) ok(2)]) (simp add: fresh_order_def)
  show "wf_exchange ps (both_entered s p q pr t oid u oid')" unfolding both_entered_def by (rule entered_wf [OF ok(1) u1 v(2)])
qed

lemma opposite_buy:
  assumes "wf_exchange ps s" "none_open s p" "wf_exchange ps (sell_entered s p q pr t oid)"
    and ok: "wf_exchange ps (both_entered s p q pr t oid u oid')" "uniq_open (both_entered s p q pr t oid u oid')"
  shows "opposite (both_entered s p q pr t oid u oid') (Suc (length (store s))) = Some (length (store s))"
proof -
  let ?s2 = "both_entered s p q pr t oid u oid'" and ?n = "length (store s)"
  have "open_orders ?s2 SELL p = [?n]"
    unfolding both_entered_def entered_open [OF assms(3)]
    by (simp add: sell_entered_def entered_open [OF assms(1)] none_open_orders [OF assms(1,2)] fresh_order_def)
  then have "best_sell ?s2 p pr ?n" using both_ords(3) [of s p q pr t oid u oid'] by (simp add: best_sell_def fresh_order_def)
  then have "getBestSellOrder ?s2 p pr = Some ?n" by (simp add: getBestSell_uniq [OF ok])
  then show ?thesis by (simp only: opposite_def both_ords) (simp add: fresh_order_def)
qed

lemma match_sizes:
  "match_quantity (both_entered s p q pr t oid u oid') (Suc (length (store s))) (length (store s)) = q"
  "match_value (both_entered s p q pr t oid u oid') (Suc (length (store s))) (length (store s)) = q * pr"
  by (simp_all only: match_quantity_def match_value_def both_ords) (simp_all add: fresh_order_def)

lemma matches_once:
  assumes "opposite (both_entered s p q pr t oid u oid') (Suc (length (store s))) = Some (length (store s))"
    and "matches (Suc (length (store s))) (both_entered s p q pr t oid u oid') s'"
  shows "s' = matched (Suc (length (store s))) (length (store s)) (both_entered s p q pr t oid u oid')"
proof -
  let ?n = "length (store s)" and ?s2 = "both_entered s p q pr t oid u oid'"
  have o: "\<not> completed (ord_of ?s2 (Suc ?n))" by (simp only: both_ords) (simp add: fresh_order_def)
  from assms o have m: "matches (Suc ?n) (matched (Suc ?n) ?n ?s2) s'" by (auto elim: matches.cases)
  have "ord_of (matched (Suc ?n) ?n ?s2) (Suc ?n) = fill q (ord_of ?s2 (Suc ?n))"
    using matched_ord [of "Suc ?n" ?s2 ?n "Suc ?n"] by (simp add: both_ords(1) match_sizes)
  then have "completed (ord_of (matched (Suc ?n) ?n ?s2) (Suc ?n))"
    by (simp only: both_ords) (simp add: fresh_order_def)
  with m show ?thesis by (auto elim: matches.cases)
qed

lemma both_matched_none:
  assumes "none_open s p"
  shows "none_open (matched (Suc (length (store s))) (length (store s)) (both_entered s p q pr t oid u oid')) p"
proof -
  let ?n = "length (store s)" and ?s2 = "both_entered s p q pr t oid u oid'"
  let ?s' = "matched (Suc ?n) ?n ?s2"
  have l: "length (store ?s') = Suc (Suc ?n)" by (simp add: matched_sel both_ords)
  note o = matched_ord [of "Suc ?n" ?s2 ?n, unfolded both_ords(1) match_sizes]
  have "completed (ord_of ?s' r)" if r: "r < Suc (Suc ?n)" "item (ord_of ?s' r) = p" for r
  proof -
    consider "r = Suc ?n" | "r = ?n" | "r < ?n" using r(1) by linarith
    then show ?thesis
    proof cases
      case 1
      then have "ord_of ?s' r = fill q (ord_of ?s2 (Suc ?n))" by (simp add: o)
      then show ?thesis unfolding both_ords by (simp add: fresh_order_def)
    next
      case 2
      then have "ord_of ?s' r = fill q (ord_of ?s2 ?n)" by (simp add: o)
      then show ?thesis unfolding both_ords by (simp add: fresh_order_def)
    next
      case 3
      then have "ord_of ?s' r = ord_of s r" by (simp add: o) (simp add: both_entered_def sell_entered_def entered_sel nth_append)
      then show ?thesis using assms 3 r(2) by (simp add: none_open_def)
    qed
  qed
  then show ?thesis by (simp add: none_open_def l)
qed

text \<open>What the two traders hold afterwards.\<close>

lemma settled_stock:
  assumes "holds p x"
  shows "stock p (snd (buy x p q pr)) = c_int (stock p x + q)" "stock p (snd (sell x p q pr)) = c_int (stock p x - q)"
    "stock p (tax x f p) = stock p x"
proof -
  obtain i where i: "find_product p (inventory_products x) = Some i" "i < length (inventory_products x)"
    "buy x p q pr = (0, x\<lparr>inventory_quantity := (inventory_quantity x)[i := c_int (inventory_quantity x ! i + q)],
       bank := (bank x)[i := c_llong (bank x ! i - pr * q)]\<rparr>)"
    "sell x p q pr = (0, x\<lparr>inventory_quantity := (inventory_quantity x)[i := c_int (inventory_quantity x ! i - q)],
       bank := (bank x)[i := c_llong (bank x ! i + pr * q)]\<rparr>)"
    "tax x f p = x\<lparr>bank := (bank x)[i := c_llong (bank x ! i - f)]\<rparr>"
    using assms by (rule buy_holds [of p x q pr f])
  have "i < length (inventory_quantity x)" using assms i(2) by (simp add: holds_def wf_account_def)
  with i show "stock p (snd (buy x p q pr)) = c_int (stock p x + q)" "stock p (snd (sell x p q pr)) = c_int (stock p x - q)"
    "stock p (tax x f p) = stock p x" by (simp_all add: stock_def)
qed

lemma both_matched_stock:
  assumes wf: "wf_exchange ps (both_entered s p q pr t oid u oid')" and p: "p \<in> set ps"
    and t: "t < length (traders s)" "u < length (traders s)" "t \<noteq> u"
  defines "s' \<equiv> matched (Suc (length (store s))) (length (store s)) (both_entered s p q pr t oid u oid')"
  shows "stock p (traders s' ! u) = c_int (stock p (traders s ! u) + q)" "stock p (traders s' ! t) = c_int (stock p (traders s ! t) - q)"
proof -
  let ?n = "length (store s)" and ?s2 = "both_entered s p q pr t oid u oid'"
  let ?x = "traders ?s2 ! u" and ?y = "traders ?s2 ! t"
  have same: "stock p (traders ?s2 ! v) = stock p (traders s ! v)" for v
    using t by (simp add: both_entered_def sell_entered_def entered_trader entered_sel(2))
  have h: "holds p ?x" "holds p ?y" using wf_traderD(4) [OF wf _ p] t by (auto simp: both_ords)
  have ty: "order_type (ord_of ?s2 (Suc ?n)) = BUY" by (simp only: both_ords) (simp add: fresh_order_def)
  have "settle buy sell (Suc ?n) ?n ?s2 =
    (traders ?s2)[u := tax (snd (buy ?x p q pr)) (transaction_tax (q * pr)) p, t := snd (sell ?y p q pr)]"
    unfolding settle_def Let_def match_sizes payer_def both_ords
    using t by (simp add: fresh_order_def list_update_swap both_ords)
  then have tr: "traders s' = (traders ?s2)[u := tax (snd (buy ?x p q pr)) (transaction_tax (q * pr)) p, t := snd (sell ?y p q pr)]"
    unfolding s'_def matched_def ty by (simp add: execute_def Let_def)
  have "holds p (snd (buy ?x p q pr))" using repositioned_sel(10) [OF buy_sell_repositioned(1)] h(1) by simp
  then show "stock p (traders s' ! u) = c_int (stock p (traders s ! u) + q)" "stock p (traders s' ! t) = c_int (stock p (traders s ! t) - q)"
    using t h by (simp_all add: tr both_ords settled_stock same)
qed

end
