(* ===== verification/Sy_Way.thy ===== *)
theory Sy_Way
  imports Sy_Trade
begin

text \<open>
  Rounds of the system, followed message by message: which pipe and which process an effect of the exchange reaches, and
  what a round does to an idle system when a trader sends an order or an auto-trader hears of one.
\<close>

section \<open>Where effects arrive\<close>

definition connected :: "system \<Rightarrow> bool" where
  "connected sy \<longleftrightarrow>
     (let ts = traders (ex (exch sy)) in
      length (autos sy) = length ts \<and> length (to_trader sy) = length ts \<and> length (to_exch sy) = length ts \<and>
      distinct (map trader_pid ts) \<and> 0 \<notin> set (map trader_pid ts) \<and> distinct (map fd_w ts) \<and> (\<forall>x\<in>set ts. \<not> disconnected x))"

lemma connected_wires:
  "connected sy \<longleftrightarrow>
     (let ws = wires (ex (exch sy)) in
      length (autos sy) = length ws \<and> length (to_trader sy) = length ws \<and> length (to_exch sy) = length ws \<and>
      distinct (map fst ws) \<and> 0 \<notin> set (map fst ws) \<and> distinct (map (\<lambda>w. fst (snd w)) ws) \<and> (\<forall>w\<in>set ws. \<not> snd (snd (snd w))))"
  by (simp add: connected_def wires_def wire_def Let_def comp_def image_image)

lemma find_index:
  assumes "distinct (map f xs)" "j < length xs"
  shows "List.find (\<lambda>i. f (xs ! i) = f (xs ! j)) [0..<length xs] = Some j"
proof -
  have "f (xs ! i) = f (xs ! j) \<longleftrightarrow> i = j" if "i < length xs" for i
    using assms that by (metis length_map nth_eq_iff_index_eq nth_map)
  with assms(2) show ?thesis by (auto simp: find_Some_iff intro!: exI [of _ j])
qed

lemma connected_find:
  assumes "connected sy" "i < length (traders (ex (exch sy)))"
  shows "find_trader (ex (exch sy)) (trader_pid (traders (ex (exch sy)) ! i)) = Some i"
    "find_fd (ex (exch sy)) (fd_w (traders (ex (exch sy)) ! i)) = Some i"
  using assms find_index [of trader_pid "traders (ex (exch sy))" i] find_index [of fd_w "traders (ex (exch sy))" i]
  by (simp_all add: connected_def Let_def find_trader_def find_fd_def)

text \<open>A message with its signal.\<close>

definition tell :: "string \<Rightarrow> nat \<Rightarrow> system \<Rightarrow> system" where
  "tell m i sy = signal_auto i (sy\<lparr>to_trader := send i m (to_trader sy)\<rparr>)"

lemma tell_sel [simp]: "exch (tell m i sy) = exch sy" "to_exch (tell m i sy) = to_exch sy"
  "length (autos (tell m i sy)) = length (autos sy)" "length (to_trader (tell m i sy)) = length (to_trader sy)"
  by (simp_all add: tell_def signal_auto_def send_def)

lemma tell_connected [simp]: "connected (tell m i sy) = connected sy"
  by (simp add: connected_def)

lemma notify_effect:
  assumes "connected sy" "i < length (traders (ex (exch sy)))" "write_ok e = (\<lambda>_ _. True)"
  shows "fold ex_effect (notify e (fd_w (traders (ex (exch sy)) ! i)) (trader_pid (traders (ex (exch sy)) ! i)) m) sy = tell m i sy"
  using connected_find [OF assms(1,2)] assms(3) by (simp add: notify_def write_msg_def tell_def)

lemma broadcast_effect:
  assumes "connected sy" "wf_exchange ps (ex (exch sy))" "write_ok e = (\<lambda>_ _. True)" "t < length (traders (ex (exch sy)))"
  shows "fold ex_effect (broadcast e (ex (exch sy)) t m) sy = fold (tell m) (filter (\<lambda>i. i \<noteq> t) [0..<length (traders (ex (exch sy)))]) sy"
proof -
  let ?s = "ex (exch sy)"
  let ?f = "\<lambda>i. let x = traders ?s ! i in
    if trader_id x \<noteq> trader_id (traders ?s ! t) \<and> \<not> disconnected x then notify e (fd_w x) (trader_pid x) m else []"
  have d: "\<not> disconnected (traders ?s ! i)" if "i < length (traders ?s)" for i using assms(1) that by (simp add: connected_def Let_def)
  have "fold ex_effect (concat (map ?f is)) sy' = fold (tell m) (filter (\<lambda>i. i \<noteq> t) is) sy'"
    if "\<forall>i\<in>set is. i < length (traders ?s)" "exch sy' = exch sy" "connected sy'" for "is" sy'
    using that
  proof (induction "is" arbitrary: sy')
    case Nil
    then show ?case by simp
  next
    case (Cons i "is")
    then have i: "i < length (traders ?s)" by simp
    have "fold ex_effect (?f i) sy' = (if i = t then sy' else tell m i sy')"
      using notify_effect [of sy' i e m] Cons.prems i d [OF i] wf_traderD(1) [OF assms(2) i] wf_traderD(1) [OF assms(2,4)] assms(3)
      by (simp add: Let_def)
    then show ?case using Cons by simp
  qed
  from this [of "[0..<length (traders ?s)]" sy] assms(1) show ?thesis by (simp add: broadcast_def)
qed

lemma tell_all_frame [simp]: "exch (fold (tell m) is sy) = exch sy" "to_exch (fold (tell m) is sy) = to_exch sy"
  "connected (fold (tell m) is sy) = connected sy"
  by (induction "is" arbitrary: sy) simp_all

lemma tell_at:
  assumes "u < length (to_trader sy)" "u < length (autos sy)"
  shows "to_trader (tell m i sy) ! u = to_trader sy ! u @ (if u = i then m else [])"
    "autos (tell m i sy) ! u = (if u = i then map_option auto_sig_handler (autos sy ! u) else autos sy ! u)"
  using assms by (auto simp: tell_def signal_auto_def send_def nth_list_update)

lemma tell_all:
  assumes "distinct is" "u < length (to_trader sy)" "u < length (autos sy)"
  shows "to_trader (fold (tell m) is sy) ! u = to_trader sy ! u @ (if u \<in> set is then m else [])"
    "autos (fold (tell m) is sy) ! u = (if u \<in> set is then map_option auto_sig_handler (autos sy ! u) else autos sy ! u)"
  using assms by (induction "is" arbitrary: sy) (auto simp: tell_at)

lemma prints_effect: "\<forall>x\<in>set out. \<exists>m. x = Print m \<Longrightarrow> fold ex_effect out sy = sy"
  by (induction out arbitrary: sy) auto

section \<open>A round without an exit\<close>

lemma reap_nobody: "0 \<notin> set (pids (ex st)) \<Longrightarrow> (\<forall>i\<in>set is. i < length (traders (ex st))) \<Longrightarrow> reap_loop 0 is st = ([], st)"
proof (induction "is")
  case (Cons i "is")
  then have "trader_pid (traders (ex st) ! i) \<in> set (pids (ex st))" by (simp add: pids_def)
  then have "trader_pid (traders (ex st) ! i) \<noteq> 0" using Cons.prems(1) by metis
  with Cons show ?case by (simp add: Let_def)
qed simp

lemma rest_quiet:
  assumes "0 \<notin> set (pids (ex st))" "traders_online st \<noteq> 0"
  shows "rest_of_round (0, True) st = ([], st)"
  using reap_nobody [OF assms(1), of "[0..<length (traders (ex st))]"] assms(2)
  by (simp add: rest_of_round_def reap_def finish_def Let_def)

section \<open>An order is read, entered and announced\<close>

lemma order_round:
  fixes k
  assumes inv: "sys_inv ps sy" and nul: "NUL \<in> set (buffer_read (exch sy))" and con: "connected sy"
    and run: "\<not> exchange_disconnect (exch sy)" "traders_online (exch sy) \<noteq> 0" and t: "next_pipe (exch sy) = Some t"
    and p: "product_name p" "p \<in> set ps" and lim: "in_limits q pr" and oid: "0 \<le> oid" "oid < 2 ^ 31"
    and tx: "to_exch sy ! t = order_text (side_text k) oid p q pr" "length (to_exch sy ! t) \<le> BUFFER_READ"
    and acc: "oid \<le> int (length (orders (traders (ex (exch sy)) ! t)))" and mem: "memory_ok e"
  defines "s \<equiv> ex (exch sy)" and "x \<equiv> fresh_order k p q pr t oid"
  shows "\<exists>st' out s'. run_match (Suc (nat q)) e (length (store s)) (entered t x s) = Inr (out, s') \<and>
    matches (length (store s)) (entered t x s) s' \<and>
    sys_step (Ex_round e None) sy = Some (fold ex_effect
      (notify e (fd_w (traders s ! t)) (trader_pid (traders s ! t)) (''ACCEPTED '' @ show_int oid @ '';'') @
       broadcast e (entered t x s) t (market_text (side_text k) p q pr) @ out @ print_book s' ps)
      (sy\<lparr>to_exch := (to_exch sy)[t := []], exch := st'\<rparr>)) \<and>
    ex st' = s' \<and> sig_ptr st' = Suc (sig_ptr (exch sy)) \<and> signal_array st' = signal_array (exch sy) \<and>
    signal_cap (exch sy) \<le> signal_cap st' \<and> NUL \<in> set (buffer_read st') \<and> exchange_disconnect st' = exchange_disconnect (exch sy) \<and>
    traders_online st' = traders_online (exch sy)"
proof -
  let ?st = "exch sy" and ?ws = "order_words k oid p q pr"
  let ?m = "unwords ?ws" and ?argv = "?ws @ drop 5 (market_argv ?st)" and ?pid = "trader_pid (traders s ! t)"
  let ?sy = "sy\<lparr>to_exch := (to_exch sy)[t := []]\<rparr>"
  have li: "loop_inv ps ?st" using inv by (simp add: sys_inv_def)
  then have wf: "wf_exchange ps s" by (simp add: loop_inv_def exchange_inv_def s_def)
  have f: "find_trader s (signal_array ?st ! sig_ptr ?st) = Some t"
    using t by (auto simp: next_pipe_def s_def split: if_splits)
  then have tl: "t < length (traders s)" "signal_array ?st ! sig_ptr ?st = ?pid" using find_trader_Some [OF f] by simp_all
  have te: "to_exch sy ! t = ?m @ CHR '';'' # []" by (simp add: tx order_words_text)
  have ok: "\<forall>w\<in>set ?ws. is_word w \<and> CHR '';'' \<notin> set w \<and> NUL \<notin> set w" by (rule order_words_ok [OF p(1) lim oid])
  then have m: "CHR '';'' \<notin> set ?m" "NUL \<notin> set ?m" "length ?m < BUFFER_READ"
    using tx(2) unfolding te by (auto simp: order_words_def)
  note rd = order_read [OF p lim oid, of k "market_argv ?st"]
  have new: "newOrder_fields ?argv s t (order_type_of (?argv ! 0)) = Some x"
    using rd(2) [of s t] acc by (simp add: s_def x_def)
  have item: "?argv ! 2 \<in> set ps" using p(2) by (simp add: order_words_def)
  obtain out s' where rm: "run_match (Suc (nat (quantity x))) e (length (store s)) (entered t x s) = Inr (out, s')"
    and ms: "matches (length (store s)) (entered t x s) s'"
    using run_match_terminates [OF entered_wf [OF wf tl(1) newOrder_valid [OF new item]] _ mem, of "length (store s)" "Suc (nat (quantity x))"]
    by (auto simp: entered_sel)
  have fdw: "fd_w (traders (entered t x s) ! t) = fd_w (traders s ! t)" using tl(1) by (simp add: entered_def Let_def)
  let ?out = "notify e (fd_w (traders s ! t)) ?pid (''ACCEPTED '' @ show_int oid @ '';'') @
       broadcast e (entered t x s) t (market_text (side_text k) p q pr) @ out @ print_book s' ps"
  have h: "handle_message e ps ORDER_RECEIVED ?argv t ?pid s = Inr (?out, s')"
    using handle_order_eq [OF wf mem new, of ?pid] rm
    by (simp add: handle_message_def fdw) (simp add: x_def fresh_order_def order_words_def)
  have "wires s' = wires s" using wires_message [OF h] .
  then have "0 \<notin> set (pids s')" using con wires_pids [of s' s] by (simp add: connected_def Let_def s_def pids_def)
  then have rest: "rest_of_round (0, True) (handled ?st ?argv s') = ([], handled ?st ?argv s')"
    using run(2) by (intro rest_quiet) simp_all
  have ex0: "exch ?sy = ?st" "exited None ?sy = 0" by (simp_all add: exited_def)
  obtain b where b: "NUL \<in> set b" "ex_round e None (?m @ CHR '';'' # []) ?sy =
    Some (fold ex_effect (heading ?st t ?m # ?out) (?sy\<lparr>exch := (handled ?st ?argv s')\<lparr>buffer_read := b\<rparr>\<rparr>))"
    using ex_round_text [where sy = ?sy and m = ?m and ps = ps and t = t and e = e and w = None and r = "[]", unfolded ex0, OF li nul m t]
      h rest tl(2) unfolding rd(1) s_def by auto
  have "sys_step (Ex_round e None) sy =
    Some (fold ex_effect ?out (sy\<lparr>to_exch := (to_exch sy)[t := []], exch := (handled ?st ?argv s')\<lparr>buffer_read := b\<rparr>\<rparr>))"
    using sys_ex_round [OF t, of e None] b(2) mem run(1) tx(2) unfolding te by (simp add: heading_def)
  moreover have "signal_cap ?st \<le> signal_cap (handled ?st ?argv s')" by (simp add: handled_def Let_def)
  ultimately show ?thesis
    using rm ms b(1) by (intro exI [of _ "(handled ?st ?argv s')\<lparr>buffer_read := b\<rparr>"] exI [of _ out] exI [of _ s'])
      (simp add: x_def fresh_order_def)
qed

section \<open>From one idle state to the next\<close>

definition idle :: "string list \<Rightarrow> system \<Rightarrow> bool" where
  "idle ps sy \<longleftrightarrow> sys_inv ps sy \<and> NUL \<in> set (buffer_read (exch sy)) \<and> connected sy \<and> \<not> exchange_disconnect (exch sy) \<and>
     traders_online (exch sy) \<noteq> 0 \<and> sig_ptr (exch sy) = length (signal_array (exch sy))"

definition sent :: "nat \<Rightarrow> string \<Rightarrow> system \<Rightarrow> system" where
  "sent t m sy = sy\<lparr>to_exch := (to_exch sy)[t := m],
     exch := (exch sy)\<lparr>signal_array := signal_array (exch sy) @ [trader_pid (traders (ex (exch sy)) ! t)]\<rparr>\<rparr>"

lemma signal_sent:
  assumes "to_exch sy ! t = []" "length (signal_array (exch sy)) < signal_cap (exch sy)"
  shows "signal_exch t (sy\<lparr>to_exch := send t m (to_exch sy)\<rparr>) = Some (sent t m sy)"
  using assms by (simp add: signal_exch_def sig_handler_def send_def sent_def)

lemma sent_next:
  assumes "idle ps sy" "t < length (traders (ex (exch sy)))"
  shows "next_pipe (exch (sent t m sy)) = Some t" "to_exch (sent t m sy) ! t = m"
    "to_exch sy ! t = [] \<Longrightarrow> (to_exch (sent t m sy))[t := []] = to_exch sy"
proof -
  have con: "connected sy" and ptr: "sig_ptr (exch sy) = length (signal_array (exch sy))" using assms(1) by (auto simp: idle_def)
  show "next_pipe (exch (sent t m sy)) = Some t"
    using connected_find(1) [OF con assms(2)] ptr by (simp add: sent_def next_pipe_def pending_def)
  show "to_exch (sent t m sy) ! t = m" using con assms(2) by (simp add: sent_def connected_def Let_def)
  show "to_exch sy ! t = [] \<Longrightarrow> (to_exch (sent t m sy))[t := []] = to_exch sy"
    by (metis list_update_id list_update_overwrite sent_def system.select_convs(4) system.simps(9) system.surjective system.update_convs(1,4))
qed

lemma sent_inv:
  assumes "idle ps sy" "length (signal_array (exch sy)) < signal_cap (exch sy)"
  shows "sys_inv ps (sent t m sy)" "connected (sent t m sy)" "NUL \<in> set (buffer_read (exch (sent t m sy)))"
    "\<not> exchange_disconnect (exch (sent t m sy))" "traders_online (exch (sent t m sy)) \<noteq> 0"
  using assms by (simp_all add: idle_def sent_def sys_inv_def loop_inv_def connected_def Let_def)

text \<open>An order that meets nothing in the book is announced to everyone else.\<close>

lemma order_announced:
  fixes k
  assumes idle: "idle ps sy" and room: "length (signal_array (exch sy)) < signal_cap (exch sy)"
    and t: "t < length (traders (ex (exch sy)))" "to_exch sy ! t = []"
    and p: "product_name p" "p \<in> set ps" and lim: "in_limits q pr" and oid: "0 \<le> oid" "oid < 2 ^ 31"
    and len: "length (order_text (side_text k) oid p q pr) \<le> BUFFER_READ"
    and acc: "oid \<le> int (length (orders (traders (ex (exch sy)) ! t)))" and mem: "memory_ok e" "write_ok e = (\<lambda>_ _. True)"
    and none: "none_open (ex (exch sy)) p"
  obtains sy' where "sys_step (Ex_round e None) (sent t (order_text (side_text k) oid p q pr) sy) = Some sy'" "idle ps sy'"
    "ex (exch sy') = entered t (fresh_order k p q pr t oid) (ex (exch sy))" "to_exch sy' = to_exch sy"
    "length (signal_array (exch sy')) = Suc (length (signal_array (exch sy)))" "signal_cap (exch sy) \<le> signal_cap (exch sy')"
    "\<And>u. u < length (traders (ex (exch sy))) \<Longrightarrow> u \<noteq> t \<Longrightarrow>
       to_trader sy' ! u = to_trader sy ! u @ market_text (side_text k) p q pr \<and> autos sy' ! u = map_option auto_sig_handler (autos sy ! u)"
proof -
  let ?s = "ex (exch sy)" and ?x = "fresh_order k p q pr t oid" and ?m = "market_text (side_text k) p q pr"
  let ?sy = "sent t (order_text (side_text k) oid p q pr) sy"
  note i = sent_inv [OF idle room, of t "order_text (side_text k) oid p q pr"]
  note n = sent_next [OF idle t(1), of "order_text (side_text k) oid p q pr"]
  have same: "ex (exch ?sy) = ?s" "autos ?sy = autos sy" "to_trader ?sy = to_trader sy" "sig_ptr (exch ?sy) = sig_ptr (exch sy)"
    "signal_array (exch ?sy) = signal_array (exch sy) @ [trader_pid (traders ?s ! t)]" "signal_cap (exch ?sy) = signal_cap (exch sy)"
    by (simp_all add: sent_def)
  have wf: "wf_exchange ps ?s" using idle by (simp add: idle_def sys_inv_def loop_inv_def exchange_inv_def)
  have wf': "wf_exchange ps (entered t ?x ?s)" by (rule entered_wf [OF wf t(1) order_valid [OF p(2) lim oid]])
  have quiet: "run_match (Suc (nat q)) e (length (store ?s)) (entered t ?x ?s) = Inr ([], entered t ?x ?s)"
    using lone_order [OF wf none] by (intro run_match_none [OF wf' _ mem(1)]) (simp_all add: entered_sel)
  have tx: "to_exch ?sy ! t = order_text (side_text k) oid p q pr" "length (to_exch ?sy ! t) \<le> BUFFER_READ" using n(2) len by simp_all
  obtain st' where st': "sys_step (Ex_round e None) ?sy = Some (fold ex_effect
      (notify e (fd_w (traders ?s ! t)) (trader_pid (traders ?s ! t)) (''ACCEPTED '' @ show_int oid @ '';'') @
       broadcast e (entered t ?x ?s) t ?m @ [] @ print_book (entered t ?x ?s) ps) (?sy\<lparr>to_exch := (to_exch ?sy)[t := []], exch := st'\<rparr>))"
    "ex st' = entered t ?x ?s" "sig_ptr st' = Suc (sig_ptr (exch ?sy))" "signal_array st' = signal_array (exch ?sy)"
    "signal_cap (exch ?sy) \<le> signal_cap st'" "NUL \<in> set (buffer_read st')" "exchange_disconnect st' = exchange_disconnect (exch ?sy)"
    "traders_online st' = traders_online (exch ?sy)"
    using order_round [OF i(1,3,2,4,5) n(1) p lim oid tx, of e] acc mem(1) quiet unfolding same by auto
  let ?sy1 = "?sy\<lparr>to_exch := (to_exch ?sy)[t := []], exch := st'\<rparr>"
  have tr: "fd_w (traders (entered t ?x ?s) ! t) = fd_w (traders ?s ! t)" "trader_pid (traders (entered t ?x ?s) ! t) = trader_pid (traders ?s ! t)"
    "wires (entered t ?x ?s) = wires ?s"
    using t(1) by (auto simp: entered_def Let_def wires_def wire_def map_update list_update_same_conv)
  have con: "connected ?sy1" using i(2) st'(2) tr(3) by (simp add: connected_wires same Let_def)
  have t1: "t < length (traders (ex (exch ?sy1)))" using t(1) st'(2) by (simp add: entered_sel)
  let ?hello = "tell (''ACCEPTED '' @ show_int oid @ '';'') t ?sy1"
  have f1: "fold ex_effect (notify e (fd_w (traders ?s ! t)) (trader_pid (traders ?s ! t)) (''ACCEPTED '' @ show_int oid @ '';'')) ?sy1 = ?hello"
    using notify_effect [OF con t1 mem(2)] st'(2) tr by simp
  let ?is = "filter (\<lambda>i. i \<noteq> t) [0..<length (traders ?s)]"
  have f2: "fold ex_effect (broadcast e (entered t ?x ?s) t ?m) ?hello = fold (tell ?m) ?is ?hello"
    using broadcast_effect [of ?hello ps e t ?m] con wf' t1 mem(2) st'(2) by (simp add: entered_sel)
  have f3: "fold ex_effect (print_book (entered t ?x ?s) ps) sy2 = sy2" for sy2 by (rule prints_effect) (auto simp: print_book_def)
  have step: "sys_step (Ex_round e None) ?sy = Some (fold (tell ?m) ?is ?hello)" using st'(1) by (simp only: fold_append comp_apply f1 f2 f3 fold.simps id_apply)
  show thesis
  proof (rule that [OF step])
    show "idle ps (fold (tell ?m) ?is ?hello)"
      using sys.step_inv [OF i(1) step] con st' i(4,5) idle by (simp add: idle_def same)
    show "ex (exch (fold (tell ?m) ?is ?hello)) = entered t ?x ?s" "to_exch (fold (tell ?m) ?is ?hello) = to_exch sy"
      using st'(2) n(3) t(2) by simp_all
    show "length (signal_array (exch (fold (tell ?m) ?is ?hello))) = Suc (length (signal_array (exch sy)))"
      "signal_cap (exch sy) \<le> signal_cap (exch (fold (tell ?m) ?is ?hello))" using st'(4,5) by (simp_all add: same)
    fix u assume u: "u < length (traders ?s)" "u \<noteq> t"
    have l: "length (to_trader ?sy1) = length (traders ?s)" "length (autos ?sy1) = length (traders ?s)"
      using con st'(2) by (simp_all add: connected_def Let_def entered_sel)
    show "to_trader (fold (tell ?m) ?is ?hello) ! u = to_trader sy ! u @ ?m \<and>
      autos (fold (tell ?m) ?is ?hello) ! u = map_option auto_sig_handler (autos sy ! u)"
      using u l by (simp add: tell_all tell_at same)
  qed
qed

text \<open>An auto-trader that is told of a SELL answers it.\<close>

lemma auto_answers:
  assumes idle: "idle ps sy" and room: "length (signal_array (exch sy)) < signal_cap (exch sy)"
    and u: "u < length (traders (ex (exch sy)))" "to_exch sy ! u = []" "to_trader sy ! u = market_text ''SELL'' p q pr"
    and a: "autos sy ! u = Some a" "\<not> a_disconnect a" "a_signal_ptr a < a_signal_count a"
    and p: "product_name p" and lim: "in_limits q pr" "q < 1000" and len: "length (market_text ''SELL'' p q pr) \<le> BUFFER_READ"
  obtains sy' where "sys_step (Auto_round u) sy = Some (sent u (order_text ''BUY'' (a_orderID a) p q pr) sy')" "idle ps sy'"
    "exch sy' = exch sy" "to_exch sy' = to_exch sy"
proof -
  have inv: "sys_inv ps sy" and con: "connected sy" using idle by (simp_all add: idle_def)
  have ul: "u < length (autos sy)" using con u(1) by (simp add: connected_def Let_def)
  then have ai: "auto_inv a" using inv a(1) by (metis autos_inv_def nth_mem sys_inv_def)
  let ?o = "order_text ''BUY'' (a_orderID a) p q pr"
  obtain a' where a': "auto_message (\<lambda>_ _. True) (market_text ''SELL'' p q pr) a = Inr ([Write (a_fd_W a) ?o, Kill (a_exchange_pid a)], a')"
    using auto_announced [of a p q pr SELL "\<lambda>_ _. True"] ai p lim len by (auto simp: auto_inv_def side_text_def auto_sends_def)
  let ?sy = "sy\<lparr>autos := (autos sy)[u := Some a'], to_trader := (to_trader sy)[u := []]\<rparr>"
  have "auto_inv a'" using auto_message_inv [OF _ _ a'] ai a(3) by blast
  then have "sys_inv ps ?sy" using inv by (auto simp: sys_inv_def intro: autos_inv_update)
  then have i: "idle ps ?sy" using idle by (simp add: idle_def connected_def Let_def)
  have ne: "market_text ''SELL'' p q pr \<noteq> []" by (simp add: market_text_def)
  have sig: "signal_exch u (?sy\<lparr>to_exch := send u ?o (to_exch ?sy)\<rparr>) = Some (sent u ?o ?sy)"
    using u(2) room by (intro signal_sent) simp_all
  have eff: "auto_effects u [Write (a_fd_W a) ?o, Kill (a_exchange_pid a)] ?sy = Some (sent u ?o ?sy)"
    unfolding auto_effects.simps sig by simp
  have "sys_step (Auto_round u) sy = Some (sent u ?o ?sy)"
    using eff a' a u(3) len ul ne by (simp add: turn_defs)
  then show thesis by (rule that [OF _ i]) simp_all
qed

text \<open>The whole way of a SELL that an auto-trader buys.\<close>

lemma sell_bought:
  assumes idle: "idle ps sy" and room: "Suc (length (signal_array (exch sy))) < signal_cap (exch sy)"
    and tu: "t < length (traders (ex (exch sy)))" "u < length (traders (ex (exch sy)))" "t \<noteq> u" "autos sy ! t = None" "autos sy ! u = Some a"
    and pipes: "to_exch sy ! t = []" "to_exch sy ! u = []" "to_trader sy ! u = []"
    and a: "\<not> a_disconnect a" "a_signal_ptr a = a_signal_count a"
    and p: "product_name p" "p \<in> set ps" and lim: "in_limits q pr" "q < 1000"
    and len: "length (order_text ''SELL'' oid p q pr) \<le> BUFFER_READ" "length (market_text ''SELL'' p q pr) \<le> BUFFER_READ"
      "length (order_text ''BUY'' (a_orderID a) p q pr) \<le> BUFFER_READ"
    and ids: "0 \<le> oid" "oid \<le> int (length (orders (traders (ex (exch sy)) ! t)))" "oid < 2 ^ 31" "unused_id (ex (exch sy)) t oid"
      "0 \<le> a_orderID a" "a_orderID a \<le> int (length (orders (traders (ex (exch sy)) ! u)))" "a_orderID a < 2 ^ 31"
      "unused_id (ex (exch sy)) u (a_orderID a)"
    and book: "none_open (ex (exch sy)) p" "uniq_open (ex (exch sy))" and mem: "memory_ok e" "write_ok e = (\<lambda>_ _. True)"
  obtains sy' where "sys.run [Outside t (order_text ''SELL'' oid p q pr), Ex_round e None, Auto_round u, Ex_round e None] sy = Some sy'"
    "ex (exch sy') = matched (Suc (length (store (ex (exch sy))))) (length (store (ex (exch sy))))
       (both_entered (ex (exch sy)) p q pr t oid u (a_orderID a))"
    "wf_exchange ps (both_entered (ex (exch sy)) p q pr t oid u (a_orderID a))"
proof -
  let ?s = "ex (exch sy)" and ?oid = "a_orderID a" and ?so = "order_text (side_text SELL) oid p q pr" and ?bo = "order_text (side_text BUY) (a_orderID a) p q pr"
  have wf: "wf_exchange ps ?s" using idle by (simp add: idle_def sys_inv_def loop_inv_def exchange_inv_def)
  have tl: "t < length (to_exch sy)" using idle tu(1) by (simp add: idle_def connected_def Let_def)
  have 1: "sys_step (Outside t ?so) sy = Some (sent t ?so sy)"
    using signal_sent [OF pipes(1), of ?so] room tl tu(4) by (simp add: turn_defs)
  have room1: "length (signal_array (exch sy)) < signal_cap (exch sy)" and len1: "length ?so \<le> BUFFER_READ"
    using room len by (simp_all add: side_text_def)
  obtain sy2 where 2: "sys_step (Ex_round e None) (sent t ?so sy) = Some sy2" "idle ps sy2"
    "ex (exch sy2) = entered t (fresh_order SELL p q pr t oid) ?s" "to_exch sy2 = to_exch sy"
    "length (signal_array (exch sy2)) = Suc (length (signal_array (exch sy)))" "signal_cap (exch sy) \<le> signal_cap (exch sy2)"
    and others: "\<And>v. v < length (traders ?s) \<Longrightarrow> v \<noteq> t \<Longrightarrow>
      to_trader sy2 ! v = to_trader sy ! v @ market_text (side_text SELL) p q pr \<and> autos sy2 ! v = map_option auto_sig_handler (autos sy ! v)"
    by (rule order_announced [OF idle room1 tu(1) pipes(1) p lim(1) ids(1,3) len1 ids(2) mem book(1)]) (rule that)
  have told: "to_trader sy2 ! u = market_text ''SELL'' p q pr" "autos sy2 ! u = Some (auto_sig_handler a)"
    using others [of u] tu pipes(3) by (simp_all add: side_text_def)
  have u2: "u < length (traders (ex (exch sy2)))" "to_exch sy2 ! u = []" "length (signal_array (exch sy2)) < signal_cap (exch sy2)"
    using tu(2) pipes(2) 2 room by (simp_all add: sell_entered_def entered_sel)
  have a2: "\<not> a_disconnect (auto_sig_handler a)" "a_signal_ptr (auto_sig_handler a) < a_signal_count (auto_sig_handler a)"
    "a_orderID (auto_sig_handler a) = ?oid" using a by (simp_all add: auto_sig_handler_def)
  obtain sy3 where 3: "sys_step (Auto_round u) sy2 = Some (sent u ?bo sy3)" "idle ps sy3" "exch sy3 = exch sy2" "to_exch sy3 = to_exch sy2"
    using auto_answers [OF 2(2) u2(3,1,2) told a2(1,2) p(1) lim len(2)] a2(3) by (auto simp: side_text_def)
  have v: "valid_order ps t (fresh_order SELL p q pr t oid)" "valid_order ps u (fresh_order BUY p q pr u ?oid)"
    using order_valid [OF p(2) lim(1)] ids by auto
  note ok = both_entered_ok [OF wf book(2) tu(1,2,3) ids(4,8) v]
  note op = opposite_buy [OF wf book(1) sell_entered_ok(1) [OF wf book(2) tu(1) ids(4) v(1)] ok]
  have room3: "length (signal_array (exch sy3)) < signal_cap (exch sy3)" and u3: "u < length (traders (ex (exch sy3)))"
    using u2 3(3) by simp_all
  note i = sent_inv [OF 3(2) room3, of u ?bo]
  note n = sent_next [OF 3(2) u3, of ?bo]
  have tx: "to_exch (sent u ?bo sy3) ! u = ?bo" "length (to_exch (sent u ?bo sy3) ! u) \<le> BUFFER_READ"
    using n(2) len(3) by (simp_all add: side_text_def)
  have ex3: "ex (exch (sent u ?bo sy3)) = sell_entered ?s p q pr t oid" using 3(3) 2(3) by (simp add: sent_def sell_entered_def)
  have acc: "?oid \<le> int (length (orders (traders (ex (exch (sent u ?bo sy3))) ! u)))"
    unfolding ex3 using ids(6) tu(3) by (simp add: sell_entered_def entered_sel)
  have sz: "length (store (sell_entered ?s p q pr t oid)) = Suc (length (store ?s))" by (simp add: sell_entered_def entered_sel)
  obtain st' out' s' where 4: "sys_step (Ex_round e None) (sent u ?bo sy3) = Some (fold ex_effect out' (sent u ?bo sy3\<lparr>to_exch := (to_exch (sent u ?bo sy3))[u := []], exch := st'\<rparr>))"
    "ex st' = s'" "matches (Suc (length (store ?s))) (both_entered ?s p q pr t oid u ?oid) s'"
    using order_round [OF i(1,3,2,4,5) n(1) p lim(1) ids(5,7) tx acc mem(1)] unfolding ex3 sz both_entered_def by blast
  have "sys.run [Outside t ?so, Ex_round e None, Auto_round u, Ex_round e None] sy =
      Some (fold ex_effect out' (sent u ?bo sy3\<lparr>to_exch := (to_exch (sent u ?bo sy3))[u := []], exch := st'\<rparr>))"
    using 1 2(1) 3(1) 4(1) by simp
  then show thesis
    using that ok(1) matches_once [OF op 4(3)] 4(2) by (simp add: side_text_def)
qed

end
