(* ===== verification/Sy_Props.thy ===== *)
theory Sy_Props
  imports Sy_Way
begin

text \<open>Properties of the whole system: exchange, auto-traders and other traders, connected by their pipes.\<close>

section \<open>A system to try things on\<close>

text \<open>Two traders: another program, and an auto-trader that has read the opening of the market.\<close>

definition demo_progs :: "auto_os option list" where "demo_progs = [None, Some demo_auto_os]"

definition demo_sys :: system where
  "demo_sys = (case sys_start demo_os demo_args demo_progs of Some sy \<Rightarrow> sy | None \<Rightarrow> undefined)"

definition demo_open :: system where
  "demo_open = (case auto_turn 1 demo_sys of Some sy \<Rightarrow> sy | None \<Rightarrow> undefined)"

lemma demo_sys_start: "sys_start demo_os demo_args demo_progs = Some demo_sys"
proof -
  have "\<not> Option.is_none (sys_start demo_os demo_args demo_progs)" by code_simp
  then show ?thesis by (auto simp: demo_sys_def Option.is_none_def)
qed

lemma demo_open_step: "sys_step (Auto_round 1) demo_sys = Some demo_open"
proof -
  have "\<not> Option.is_none (auto_turn 1 demo_sys)" by code_simp
  then show ?thesis by (auto simp: demo_open_def sys_step_def Option.is_none_def)
qed

definition demo_facts :: "system \<Rightarrow> bool" where
  "demo_facts sy \<longleftrightarrow> to_exch sy = [[], []] \<and> to_trader sy ! 1 = [] \<and> autos sy ! 0 = None \<and>
     (case autos sy ! 1 of None \<Rightarrow> False | Some a \<Rightarrow> \<not> a_disconnect a \<and> a_signal_ptr a = a_signal_count a \<and> a_orderID a = 0) \<and>
     signal_array (exch sy) = [] \<and> sig_ptr (exch sy) = 0 \<and> signal_cap (exch sy) = MAX_SIGNALS \<and> products (exch sy) = demo_products \<and>
     NUL \<in> set (buffer_read (exch sy)) \<and> \<not> exchange_disconnect (exch sy) \<and> traders_online (exch sy) \<noteq> 0 \<and> connected sy"

definition demo_book :: "exchange \<Rightarrow> bool" where
  "demo_book s \<longleftrightarrow> store s = [] \<and> orderbook (market s) = [] \<and> completed_trades (market s) = [] \<and>
     length (traders s) = 2 \<and> orders (traders s ! 0) = [] \<and> orders (traders s ! 1) = [] \<and>
     stock ''GPU'' (traders s ! 0) = 0 \<and> stock ''GPU'' (traders s ! 1) = 0"

lemma demo_open_facts: "demo_facts demo_open"
  by code_simp

lemma demo_open_book: "demo_book (ex (exch demo_open))"
  by code_simp

lemmas demo_open_data = demo_open_facts [unfolded demo_facts_def] demo_open_book [unfolded demo_book_def]

lemma demo_sys_inv: "sys_inv demo_products demo_sys"
proof -
  have p: "products (exch demo_sys) = demo_products" by code_simp
  have "distinct (products (exch demo_sys))" by (simp add: p demo_products_def)
  from sys_start_inv [OF demo_sys_start this] show ?thesis
    by (simp add: p demo_progs_def demo_os_def demo_auto_os_def BUFFER_READ_def)
qed

lemma demo_open_inv: "sys_inv demo_products demo_open"
  by (rule sys.step_inv [OF demo_sys_inv demo_open_step])

lemma demo_open_idle: "idle demo_products demo_open"
  using demo_open_inv demo_open_data by (simp add: idle_def)

section \<open>Safety of the system\<close>

text \<open>C4: However the messages of the programs interleave, whatever the other traders write, and also when signals interrupt a waiting \<open>read\<close> or are merged: every state that the system reaches from its start has a
  well-formed exchange whose book is not crossed and whose fees and accounts add up, and auto-traders whose order ids lag
  behind the messages they have read.\<close>

theorem system_safe:
  assumes "sys_start w args progs = Some sy" and "distinct (products (exch sy))" and "length (raw_buffer w) = BUFFER_READ"
    and "\<forall>a. Some a \<in> set progs \<longrightarrow> length (a_raw a) = BUFFER_READ \<and> NUL \<in> set (a_raw a)"
    and "sys.run vs sy = Some sy'"
  shows "wf_exchange (products (exch sy)) (ex (exch sy')) \<and> uncrossed (ex (exch sy')) \<and> 2 ^ 64 dvd total_cash (ex (exch sy')) \<and>
    (\<forall>a. Some a \<in> set (autos sy') \<longrightarrow> auto_inv a)"
  using sys.run_inv [OF sys_start_inv [OF assms(1-4)] assms(5)]
  by (simp add: sys_inv_def loop_inv_def exchange_inv_def autos_inv_def)

theorem system_safe_witness:
  "wf_exchange demo_products (ex (exch demo_open)) \<and> uncrossed (ex (exch demo_open)) \<and> 2 ^ 64 dvd total_cash (ex (exch demo_open))"
proof -
  have p: "products (exch demo_sys) = demo_products" by code_simp
  have "distinct (products (exch demo_sys))" by (simp add: p demo_products_def)
  moreover have "length (raw_buffer demo_os) = BUFFER_READ"
    "\<forall>a. Some a \<in> set demo_progs \<longrightarrow> length (a_raw a) = BUFFER_READ \<and> NUL \<in> set (a_raw a)"
    by (simp_all add: demo_progs_def demo_os_def demo_auto_os_def BUFFER_READ_def)
  moreover have "sys.run [Auto_round 1] demo_sys = Some demo_open" using demo_open_step by simp
  ultimately show ?thesis using system_safe [OF demo_sys_start] p by metis
qed

section \<open>An order's way through the system\<close>

text \<open>C3: A SELL of fewer than 1000 that meets no order of its product is bought by an auto-trader, under these conditions: the system is idle, with
  the three pipes involved empty, room for two signals, memory for the lists and no \<open>write\<close> that fails; the three texts of at most 40 bytes each; both order ids
  unused and not ahead of the number of orders their traders have at the exchange, the auto-trader's counter being its id; and the programs take turns in the
  order trader, exchange, auto-trader, exchange. The exchange then reads
  and announces the order, the auto-trader reads the announcement and answers, the exchange reads the answer and matches the two orders
  once, for the whole quantity at the price asked. No step of this way fails.\<close>

theorem announced_sell_is_bought:
  fixes sy ps oid
  defines "s \<equiv> ex (exch sy)"
  assumes "idle ps sy" and "Suc (length (signal_array (exch sy))) < signal_cap (exch sy)"
    and "t < length (traders s)" and "u < length (traders s)" and "t \<noteq> u" and "autos sy ! t = None" and "autos sy ! u = Some a"
    and "to_exch sy ! t = []" and "to_exch sy ! u = []" and "to_trader sy ! u = []"
    and "\<not> a_disconnect a" and "a_signal_ptr a = a_signal_count a"
    and "product_name p" and "p \<in> set ps" and "in_limits q pr" and "q < 1000"
    and "length (order_text ''SELL'' oid p q pr) \<le> BUFFER_READ" and "length (market_text ''SELL'' p q pr) \<le> BUFFER_READ"
    and "length (order_text ''BUY'' (a_orderID a) p q pr) \<le> BUFFER_READ"
    and "0 \<le> oid" and "oid \<le> int (length (orders (traders s ! t)))" and "oid < 2 ^ 31" and "unused_id s t oid"
    and "0 \<le> a_orderID a" and "a_orderID a \<le> int (length (orders (traders s ! u)))" and "a_orderID a < 2 ^ 31"
    and "unused_id s u (a_orderID a)" and "none_open s p" and "uniq_open s" and "memory_ok e" and "write_ok e = (\<lambda>_ _. True)"
  shows "\<exists>sy'. sys.run [Outside t (order_text ''SELL'' oid p q pr), Ex_round e None, Auto_round u, Ex_round e None] sy = Some sy' \<and>
    completed_trades (market (ex (exch sy'))) = completed_trades (market s) @
      [\<lparr>incoming_order = Suc (length (store s)), order_in_book = length (store s), transaction_quantity = q,
        transaction_price = pr, trade_tax = Some (transaction_tax (q * pr))\<rparr>] \<and>
    none_open (ex (exch sy')) p \<and>
    stock p (traders (ex (exch sy')) ! u) = c_int (stock p (traders s ! u) + q) \<and>
    stock p (traders (ex (exch sy')) ! t) = c_int (stock p (traders s ! t) - q)"
proof -
  let ?n = "length (store s)" and ?s2 = "both_entered s p q pr t oid u (a_orderID a)"
  obtain sy' where r: "sys.run [Outside t (order_text ''SELL'' oid p q pr), Ex_round e None, Auto_round u, Ex_round e None] sy = Some sy'"
    and m: "ex (exch sy') = matched (Suc ?n) ?n ?s2" and wf: "wf_exchange ps ?s2"
    using assms unfolding s_def by (elim sell_bought) blast+
  have tr: "match_trade ?s2 (Suc ?n) ?n = \<lparr>incoming_order = Suc ?n, order_in_book = ?n, transaction_quantity = q,
        transaction_price = pr, trade_tax = Some (transaction_tax (q * pr))\<rparr>"
    unfolding match_trade_def match_sizes both_ords by (simp add: fresh_order_def)
  have "completed_trades (market ?s2) = completed_trades (market s)" by (simp add: both_entered_def sell_entered_def entered_sel)
  then have "completed_trades (market (ex (exch sy'))) = completed_trades (market s) @ [match_trade ?s2 (Suc ?n) ?n]"
    unfolding m by (simp add: matched_sel)
  moreover have "none_open (ex (exch sy')) p" unfolding m by (rule both_matched_none [OF assms(29)])
  ultimately show ?thesis
    using r m tr both_matched_stock [OF wf assms(15) assms(4-6)] by auto
qed

theorem announced_sell_is_bought_witness:
  "\<exists>sy'. sys.run [Outside 0 (order_text ''SELL'' 0 ''GPU'' 4 100), Ex_round demo_env None, Auto_round 1, Ex_round demo_env None] demo_open = Some sy' \<and>
    map transaction_quantity (completed_trades (market (ex (exch sy')))) = [4] \<and>
    stock ''GPU'' (traders (ex (exch sy')) ! 1) = 4 \<and> stock ''GPU'' (traders (ex (exch sy')) ! 0) = - 4"
proof -
  let ?s = "ex (exch demo_open)"
  obtain a where a: "autos demo_open ! 1 = Some a" "\<not> a_disconnect a" "a_signal_ptr a = a_signal_count a" "a_orderID a = 0"
    using demo_open_facts by (auto simp: demo_facts_def split: option.splits)
  have lits: "product_name ''GPU''" "''GPU'' \<in> set demo_products" "in_limits 4 100" "length (market_text ''SELL'' ''GPU'' 4 100) \<le> BUFFER_READ"
    "length (order_text ''SELL'' 0 ''GPU'' 4 100) \<le> BUFFER_READ" "length (order_text ''BUY'' 0 ''GPU'' 4 100) \<le> BUFFER_READ"
    "c_int 4 = 4" "c_int (- 4) = - 4" "1 < MAX_SIGNALS"
    by code_simp+
  have book: "unused_id ?s v 0" "none_open ?s ''GPU''" "uniq_open ?s" for v
    using demo_open_book by (simp_all add: unused_id_def none_open_def uniq_open_def demo_book_def)
  have ok: "write_ok demo_env = (\<lambda>_ _. True)" by (simp add: demo_env_def)
  have "\<exists>sy'. sys.run [Outside 0 (order_text ''SELL'' 0 ''GPU'' 4 100), Ex_round demo_env None, Auto_round 1, Ex_round demo_env None] demo_open = Some sy' \<and>
    completed_trades (market (ex (exch sy'))) = completed_trades (market ?s) @
      [\<lparr>incoming_order = Suc (length (store ?s)), order_in_book = length (store ?s), transaction_quantity = 4,
        transaction_price = 100, trade_tax = Some (transaction_tax (4 * 100))\<rparr>] \<and>
    none_open (ex (exch sy')) ''GPU'' \<and>
    stock ''GPU'' (traders (ex (exch sy')) ! 1) = c_int (stock ''GPU'' (traders ?s ! 1) + 4) \<and>
    stock ''GPU'' (traders (ex (exch sy')) ! 0) = c_int (stock ''GPU'' (traders ?s ! 0) - 4)"
    by (rule announced_sell_is_bought [where a = a and ps = demo_products])
      (use demo_open_idle demo_memory demo_open_data a lits book ok in simp_all)
  then show ?thesis using demo_open_data lits by auto
qed

section \<open>Two messages in one pipe\<close>

text \<open>C18: When a trader writes a second message before the exchange has read the first, and both together fit the 40 bytes of its buffer, one \<open>read\<close> takes both.
  The exchange then does what it does for the first message alone, and the pipe is empty: unless the loop ends because no trader is on line any
  more, the exchange now waits in \<open>read\<close> on the empty pipe, for the message of the signal that was counted. When a later signal interrupts it there,
  it goes on to the next signal, and neither the orders nor the market change: the second message is lost.\<close>

theorem messages_read_together:
  assumes inv: "sys_inv ps sy" and nul: "NUL \<in> set (buffer_read (exch sy))"
    and t: "next_pipe (exch sy) = Some t" "t < length (to_exch sy)"
    and m: "to_exch sy ! t = m @ CHR '';'' # r" "CHR '';'' \<notin> set m" "NUL \<notin> set m" "length (to_exch sy ! t) \<le> BUFFER_READ"
    and again: "Suc (sig_ptr (exch sy)) < length (signal_array (exch sy))"
      "signal_array (exch sy) ! Suc (sig_ptr (exch sy)) = signal_array (exch sy) ! sig_ptr (exch sy)"
    and step: "sys_step (Ex_round e w) sy = Some sy'"
  shows "to_exch sy' ! t = [] \<and> (waiting t sy' \<or> exchange_disconnect (exch sy') \<and> traders_online (exch sy') = 0) \<and>
    sys_step (Ex_round e' w') sy' = None \<and>
    (\<forall>sy2. waiting t sy' \<and> sys_step (Ex_interrupted e' w') sy' = Some sy2 \<longrightarrow> store (ex (exch sy2)) = store (ex (exch sy')) \<and>
       market (ex (exch sy2)) = market (ex (exch sy')) \<and> sig_ptr (exch sy2) = Suc (sig_ptr (exch sy'))) \<and>
    (\<exists>sy1. sys_step (Ex_round e w) (sy\<lparr>to_exch := (to_exch sy)[t := m @ '';'']\<rparr>) = Some sy1 \<and> ex (exch sy') = ex (exch sy1) \<and>
       to_trader sy' = to_trader sy1 \<and> autos sy' = autos sy1)"
proof (intro conjI)
  let ?st = "exch sy" and ?pid = "signal_array (exch sy) ! sig_ptr (exch sy)"
  let ?rm = "read_message m (market_argv ?st) ps"
  let ?h = "handle_message e ps (fst ?rm) (fst (snd ?rm)) t ?pid (ex ?st)"
  let ?sy = "sy\<lparr>to_exch := (to_exch sy)[t := []]\<rparr>"
  have len: "length m < BUFFER_READ" using m(1,4) by simp
  have li: "loop_inv ps ?st" using inv by (simp add: sys_inv_def)
  have ok: "memory_ok e" "\<not> exchange_disconnect ?st" and ro: "ex_round e w (m @ CHR '';'' # r) ?sy = Some sy'"
    using step m t by (auto simp: sys_ex_round [OF t(1)] split: if_splits)
  have ex0: "exch ?sy = ?st" "exited w ?sy = exited w sy" by (simp_all add: exited_def split: option.split)
  note rt = ex_round_text [where sy = ?sy and m = m and ps = ps and t = t and e = e and w = w, unfolded ex0, OF li nul m(2,3) len t(1)]
  obtain b where nb: "NUL \<in> set b" and b: "ex_round e w (m @ CHR '';'' # r) ?sy =
    (case ?h of Inl _ \<Rightarrow> None | Inr (out2, s') \<Rightarrow>
       let rr = rest_of_round (exited w sy, True) (handled ?st (fst (snd ?rm)) s')
       in Some (fold ex_effect (heading ?st t m # snd (snd ?rm) @ out2 @ fst rr) (?sy\<lparr>exch := (snd rr)\<lparr>buffer_read := b\<rparr>\<rparr>)))"
    using rt [of r] by blast
  obtain b1 where b1: "ex_round e w (m @ '';'') ?sy =
    (case ?h of Inl _ \<Rightarrow> None | Inr (out2, s') \<Rightarrow>
       let rr = rest_of_round (exited w sy, True) (handled ?st (fst (snd ?rm)) s')
       in Some (fold ex_effect (heading ?st t m # snd (snd ?rm) @ out2 @ fst rr) (?sy\<lparr>exch := (snd rr)\<lparr>buffer_read := b1\<rparr>\<rparr>)))"
    using rt [of "[]"] by blast
  obtain out2 s' where h: "?h = Inr (out2, s')" using ro b by (cases ?h) auto
  let ?rr = "rest_of_round (exited w sy, True) (handled ?st (fst (snd ?rm)) s')"
  let ?out = "heading ?st t m # snd (snd ?rm) @ out2 @ fst ?rr"
  have sy': "sy' = fold ex_effect ?out (?sy\<lparr>exch := (snd ?rr)\<lparr>buffer_read := b\<rparr>\<rparr>)"
    using ro b h by (simp add: Let_def)
  then show empty: "to_exch sy' ! t = []" using t(2) by simp
  have np: "next_pipe (exch sy') = Some t"
  proof -
    have "pids (ex (snd ?rr)) = pids (ex ?st)"
      using wires_pids [OF wires_message [OF h]] by (simp add: rest_of_round_frame)
    then have "find_trader (ex (snd ?rr)) ?pid = Some t"
      using find_trader_pids [of "ex (snd ?rr)" "ex ?st" ?pid] t(1) by (simp add: next_pipe_def split: if_splits)
    then show ?thesis using again by (simp add: sy' next_pipe_def pending_def rest_of_round_frame)
  qed
  from np show "sys_step (Ex_round e' w') sy' = None" by (simp add: sys_ex_round empty)
  show "waiting t sy' \<or> exchange_disconnect (exch sy') \<and> traders_online (exch sy') = 0"
    using np empty ok(2) rest_of_round_end [of "handled ?st (fst (snd ?rm)) s'" "(exited w sy, True)"]
    by (auto simp: waiting_def sy')
  have "NUL \<in> set (buffer_read (exch sy'))" using nb by (simp add: sy')
  then show "\<forall>sy2. waiting t sy' \<and> sys_step (Ex_interrupted e' w') sy' = Some sy2 \<longrightarrow> store (ex (exch sy2)) = store (ex (exch sy')) \<and>
       market (ex (exch sy2)) = market (ex (exch sy')) \<and> sig_ptr (exch sy2) = Suc (sig_ptr (exch sy'))"
    using interrupted_round [where sy = sy'] by blast
  let ?sy1 = "fold ex_effect ?out (?sy\<lparr>exch := (snd ?rr)\<lparr>buffer_read := b1\<rparr>\<rparr>)"
  have "next_pipe (exch (sy\<lparr>to_exch := (to_exch sy)[t := m @ '';'']\<rparr>)) = Some t" using t(1) by simp
  from sys_ex_round [OF this, of e w]
  have "sys_step (Ex_round e w) (sy\<lparr>to_exch := (to_exch sy)[t := m @ '';'']\<rparr>) = Some ?sy1"
    using ok t(2) len b1 h by (simp add: Let_def)
  moreover have "to_trader sy' = to_trader ?sy1 \<and> autos sy' = autos ?sy1"
    unfolding sy' by (rule ex_effects_same) simp_all
  ultimately show "\<exists>sy1. sys_step (Ex_round e w) (sy\<lparr>to_exch := (to_exch sy)[t := m @ '';'']\<rparr>) = Some sy1 \<and> ex (exch sy') = ex (exch sy1) \<and>
       to_trader sy' = to_trader sy1 \<and> autos sy' = autos sy1"
    by (intro exI [of _ ?sy1]) (simp add: sy')
qed



text \<open>A trader that sends an order and withdraws it at once.\<close>

definition demo_twice :: system where
  "demo_twice = sent 0 ''SELL 0 GPU 10 100;CANCEL 0;'' (sent 0 [] demo_open)"

lemma demo_twice_run: "sys.run [Outside 0 ''SELL 0 GPU 10 100;'', Outside 0 ''CANCEL 0;''] demo_open = Some demo_twice"
  using demo_open_facts
  by (simp add: demo_facts_def turn_defs signal_exch_def sig_handler_def send_def sent_def demo_twice_def MAX_SIGNALS_def)

theorem messages_read_together_witness:
  "\<exists>sy'. sys_step (Ex_round demo_env None) demo_twice = Some sy' \<and> to_exch sy' ! 0 = [] \<and> sys_step (Ex_round demo_env None) sy' = None \<and>
     (waiting 0 sy' \<or> exchange_disconnect (exch sy') \<and> traders_online (exch sy') = 0)"
proof -
  have "\<not> Option.is_none (exch_turn demo_env None demo_twice)" by code_simp
  then obtain sy' where sy': "sys_step (Ex_round demo_env None) demo_twice = Some sy'"
    by (auto simp: sys_step_def demo_memory Option.is_none_def)
  have d: "NUL \<in> set (buffer_read (exch demo_twice))" "0 < length (to_exch demo_twice)"
    "to_exch demo_twice ! 0 = ''SELL 0 GPU 10 100'' @ CHR '';'' # ''CANCEL 0;''"
    "Suc (sig_ptr (exch demo_twice)) < length (signal_array (exch demo_twice))"
    "signal_array (exch demo_twice) ! Suc (sig_ptr (exch demo_twice)) = signal_array (exch demo_twice) ! sig_ptr (exch demo_twice)"
    using demo_open_facts by (simp_all add: demo_facts_def demo_twice_def sent_def)
  have l: "CHR '';'' \<notin> set ''SELL 0 GPU 10 100''" "NUL \<notin> set ''SELL 0 GPU 10 100''" by code_simp+
  have len: "length (to_exch demo_twice ! 0) \<le> BUFFER_READ" unfolding d(3) by (simp add: BUFFER_READ_def)
  have inv: "sys_inv demo_products demo_twice" by (rule sys.run_inv [OF demo_open_inv demo_twice_run])
  have "connected demo_open" "0 < length (traders (ex (exch demo_open)))" using demo_open_data by simp_all
  then have "next_pipe (exch demo_twice) = Some 0"
    using connected_find(1) [of demo_open 0] demo_open_facts
    by (simp add: demo_facts_def demo_twice_def sent_def next_pipe_def pending_def)
  from messages_read_together [OF inv d(1) this d(2,3) l len d(4,5) sy'] sy' show ?thesis by blast
qed

end
