(* ===== verification/Gm_Game.thy ===== *)
theory Gm_Game
  imports C_Io
begin

text \<open>
  The game \<open>go_in_the_mist/go-in-the-mist/gitm.c\<close>: Gomoku on a board of 19 by 19 points, of
  which a player sees the surroundings of a point that moves with every stone. The board is the
  array \<open>game_map[20][20]\<close> of the source, a list of 20 rows of 20 characters. A read or write
  outside an array is a \<open>fault\<close>.
\<close>

section \<open>Constants and state\<close>

definition BUFFER_LEN :: nat where "BUFFER_LEN = 50"
definition HISTORY_LEN :: nat where "HISTORY_LEN = 1500"
definition ROWS :: nat where "ROWS = 20"
definition COLS :: nat where "COLS = 20"

record game =
  game_map :: "string list"
  curr_player :: int
  next_round :: bool
  history :: string
  mid_mist :: "int \<times> int"

definition start_map :: "string list" where
  "start_map = replicate 19 (replicate 19 (CHR ''.'') @ [NUL]) @ [replicate 20 NUL]"

definition start_game :: game where
  "start_game = \<lparr>game_map = start_map, curr_player = 0, next_round = False, history = [], mid_mist = (10, 10)\<rparr>"

section \<open>Reading a command\<close>

text \<open>
  \<open>input_processing\<close>: the return value, the text printed, and the two words (the second is empty
  when there is one).
\<close>

definition input_processing :: "string \<Rightarrow> int \<times> string list \<times> string \<times> string" where
  "input_processing player_input =
     (let inp = cut_at NL player_input; invalid = (1, [''Invalid!'' @ [NL]], [], []) in
      if inp = [] then invalid
      else if hd inp = CHR '' '' \<or> last inp = CHR '' '' then invalid
      else if length (filter (\<lambda>c. c = CHR '' '') inp) > 1 then invalid
      else
        let toks = strtok_all inp; w0 = toks ! 0; w1 = (if length toks > 1 then toks ! 1 else []) in
        if w0 \<noteq> ''place'' \<and> w1 \<noteq> [] then invalid
        else (0, [], w0, w1))"

section \<open>Placing a stone\<close>

definition on_map :: "int \<Rightarrow> int \<Rightarrow> bool" where
  "on_map i j \<longleftrightarrow> 0 \<le> i \<and> i < int ROWS \<and> 0 \<le> j \<and> j < int COLS"

definition cell :: "string list \<Rightarrow> int \<Rightarrow> int \<Rightarrow> char" where
  "cell m i j = m ! nat i ! nat j"

definition set_cell :: "string list \<Rightarrow> int \<Rightarrow> int \<Rightarrow> char \<Rightarrow> string list" where
  "set_cell m i j c = m[nat i := (m ! nat i)[nat j := c]]"

definition stone :: "int \<Rightarrow> char" where
  "stone player = (if player = 0 then CHR ''#'' else CHR ''o'')"

definition mist_centre :: "int \<Rightarrow> int \<Rightarrow> int \<times> int" where
  "mist_centre h v =
     (1 + (5 * (h + 1) * (h + 1) + 3 * (h + 1) + 4) mod 19, 1 + (4 * v * v + 2 * v - 4) mod 19)"

text \<open>The result is the return value, the text printed, and the board and mist afterwards.\<close>

definition place_stone :: "string list \<Rightarrow> int \<Rightarrow> string \<Rightarrow> int \<times> int \<Rightarrow> fault + int \<times> string list \<times> string list \<times> (int \<times> int)" where
  "place_stone m player coord mist =
     (let h = ord (coord ! 0) - 65; v = atoi (tl coord); i = int ROWS - v - 1 in
      if \<not> on_map i h then Inl BufferOverrun
      else if cell m i h \<noteq> CHR ''.'' then Inr (0, [''Occupied coordinate'' @ [NL]], m, mist)
      else Inr (1, [], set_cell m i h (stone player), mist_centre h v))"

section \<open>The view\<close>

definition view_char :: "string list \<Rightarrow> int \<Rightarrow> int \<Rightarrow> char" where
  "view_char m i j =
     (if i < 0 \<or> i > int ROWS - 2 \<or> j < 0 \<or> j > int COLS - 2 then CHR ''x'' else cell m i j)"

text \<open>The 49 characters are stored in a buffer of 50, the last of which stays NUL.\<close>

definition view_chars :: "string list \<Rightarrow> int \<times> int \<Rightarrow> string" where
  "view_chars m mist =
     (let ci = int ROWS - snd mist - 1; cj = fst mist - 1 in
      concat (map (\<lambda>i. map (view_char m i) [cj - 3..cj + 3]) [ci - 3..ci + 3]))"

definition view :: "string list \<Rightarrow> int \<times> int \<Rightarrow> string list" where
  "view m mist =
     [[char_of (65 + (fst mist - 1))], show_int (snd mist) @ '','', cstr (view_chars m mist @ [NUL]) @ [NL]]"

section \<open>The end of the game\<close>

fun strstr :: "string \<Rightarrow> string \<Rightarrow> bool" where
  "strstr [] needle = (needle = [])"
| "strstr (c # cs) needle = (take (length needle) (c # cs) = needle \<or> strstr cs needle)"

text \<open>1 when black has five in a row in the text, 2 when white has.\<close>

definition verdict :: "string \<Rightarrow> int option" where
  "verdict s = (if strstr s ''#####'' then Some 1 else if strstr s ''ooooo'' then Some 2 else None)"

fun first_some :: "'a option list \<Rightarrow> 'a option" where
  "first_some [] = None"
| "first_some (x # xs) = (case x of Some v \<Rightarrow> Some v | None \<Rightarrow> first_some xs)"

text \<open>A row as a C string: the rows follow one another in memory.\<close>

definition row_text :: "string list \<Rightarrow> nat \<Rightarrow> string" where
  "row_text m i = cstr (concat (drop i m))"

definition check_rows :: "string list \<Rightarrow> int option" where
  "check_rows m = first_some (map (\<lambda>i. verdict (row_text m i)) [0..<ROWS])"

definition five_down :: "string list \<Rightarrow> char \<Rightarrow> int \<Rightarrow> int \<Rightarrow> bool" where
  "five_down m c v h \<longleftrightarrow> (\<forall>k\<in>set [0..4]. cell m (v + k) h = c)"

definition check_columns :: "string list \<Rightarrow> int option" where
  "check_columns m =
     first_some (map (\<lambda>(h, v). if five_down m (CHR ''#'') v h then Some 1
                               else if five_down m (CHR ''o'') v h then Some 2 else None)
       (concat (map (\<lambda>h. map (\<lambda>v. (h, v)) [0..14]) [0..18])))"

text \<open>
  The inner loops of the diagonals: from \<open>(x, y)\<close>, with \<open>x\<close> going up and \<open>y\<close> changing by \<open>dy\<close>, while
  the condition holds. A row or column has 20 entries, so 20 iterations are enough.
\<close>

fun walk :: "nat \<Rightarrow> (int \<Rightarrow> int \<Rightarrow> bool) \<Rightarrow> int \<Rightarrow> int \<Rightarrow> int \<Rightarrow> (int \<times> int) list" where
  "walk 0 cond dy x y = []"
| "walk (Suc n) cond dy x y = (if cond x y then (y, x) # walk n cond dy (x + 1) (y + dy) else [])"

definition rising_from_left :: "(int \<times> int) list list" where
  "rising_from_left = map (\<lambda>ty. walk 20 (\<lambda>x y. x \<le> ty) (- 1) 0 ty) [4..18]"

definition rising_from_bottom :: "(int \<times> int) list list" where
  "rising_from_bottom = map (\<lambda>tx. walk 20 (\<lambda>x y. y \<le> tx) (- 1) tx 18) (rev [0..14])"

definition falling_from_top :: "(int \<times> int) list list" where
  "falling_from_top = map (\<lambda>tx. walk 20 (\<lambda>x y. x < int ROWS - 1) 1 tx 0) (rev [1..14])"

definition falling_from_left :: "(int \<times> int) list list" where
  "falling_from_left = map (\<lambda>ty. walk 20 (\<lambda>x y. y < int ROWS - 1) 1 0 ty) (rev [1..14])"

text \<open>
  Each diagonal is copied over the front of \<open>buffer\<close>, which is emptied by writing a NUL to its
  first place only; no NUL is written behind the diagonal.
\<close>

definition load_diagonal :: "string list \<Rightarrow> (int \<times> int) list \<Rightarrow> string \<Rightarrow> string" where
  "load_diagonal m ds buf =
     (let cs = map (\<lambda>(y, x). cell m y x) ds in cs @ drop (length cs) (buf[0 := NUL]))"

fun check_diagonals :: "string list \<Rightarrow> (int \<times> int) list list \<Rightarrow> string \<Rightarrow> fault + int option" where
  "check_diagonals m [] buf = Inr None"
| "check_diagonals m (ds # dss) buf =
     (let buf' = load_diagonal m ds buf in
      if NUL \<notin> set buf' then Inl BufferOverrun
      else case verdict (cstr buf') of Some v \<Rightarrow> Inr (Some v) | None \<Rightarrow> check_diagonals m dss buf')"

definition tile_available :: "string list \<Rightarrow> bool" where
  "tile_available m \<longleftrightarrow> (\<exists>i\<in>set [0..18]. \<exists>j\<in>set [0..18]. cell m i j = CHR ''.'')"

text \<open>\<open>junk\<close> is what the uninitialised \<open>buffer\<close> holds.\<close>

definition check_game_cond :: "string \<Rightarrow> string list \<Rightarrow> fault + int" where
  "check_game_cond junk m =
     (case check_rows m of Some v \<Rightarrow> Inr v
      | None \<Rightarrow> (case check_columns m of Some v \<Rightarrow> Inr v
      | None \<Rightarrow> bind_err (check_diagonals m (rising_from_left @ rising_from_bottom @ falling_from_top @ falling_from_left) junk)
          (\<lambda>r. case r of Some v \<Rightarrow> Inr v | None \<Rightarrow> Inr (if tile_available m then 0 else 3))))"

section \<open>One round of the main loop\<close>

text \<open>Whether \<open>coord_input\<close> is a coordinate; \<open>%\<close> is C's remainder on a signed character.\<close>

definition char_rem :: "char \<Rightarrow> int" where
  "char_rem c = (let x = (if ord c \<ge> 128 then ord c - 256 else ord c) in if x \<ge> 0 then x mod 65 else - ((- x) mod 65))"

definition invalid_coord :: "string \<Rightarrow> bool" where
  "invalid_coord w \<longleftrightarrow>
     (length w \<noteq> 2 \<and> length w \<noteq> 3) \<or> \<not> isalpha (w ! 0) \<or> (\<exists>c\<in>set (tl w). \<not> isdigit c) \<or>
     (if length w = 3 \<and> w ! 1 = CHR ''0'' then True
      else if char_rem (w ! 0) < 0 \<or> char_rem (w ! 0) > 18 then True
      else atoi (tl w) < 1 \<or> atoi (tl w) > 19)"

text \<open>A line longer than the buffer: the message depends on its first words; the rest is skipped.\<close>

definition skip_line :: "string \<Rightarrow> string \<times> string" where
  "skip_line inp =
     (let p = takeWhile (\<lambda>c. c \<noteq> NUL \<and> c \<noteq> NL) inp in (p, drop (Suc (length p)) inp))"

definition long_line :: "string \<Rightarrow> string \<Rightarrow> fault + string list \<times> string" where
  "long_line line rest =
     (let toks = strtok_all line in
      if toks = [] then Inl NullPointer
      else
        let (skipped, rest') = skip_line rest;
            coord_probability = (toks ! 0 = ''place'' \<and> \<not> length toks > 2 \<and> CHR '' '' \<notin> set skipped)
        in Inr ([(if coord_probability then ''Invalid coordinate'' else ''Invalid!'') @ [NL]], rest'))"

definition farewell :: "string \<Rightarrow> game \<Rightarrow> string list" where
  "farewell winner g = [winner @ [NL], history g @ [NL], ''Thank you for playing!'' @ [NL]]"

text \<open>The commands: \<open>Inl\<close> a return value of \<open>main\<close>; the flag tells a \<open>continue\<close>.\<close>

definition command :: "string \<Rightarrow> string \<Rightarrow> game \<Rightarrow> fault + string list \<times> (int + bool \<times> game)" where
  "command w0 w1 g =
     (if w0 = ''who'' then Inr ([(if curr_player g = 0 then ''B'' else ''W'') @ [NL]], Inr (False, g))
      else if w0 = ''term'' then Inr ([], Inl 1)
      else if w0 = ''resign'' then
        Inr (farewell (if curr_player g = 0 then ''White wins!'' else ''Black wins!'') g, Inl 0)
      else if w0 = ''place'' then
        if w1 = [] then Inr ([''Invalid!'' @ [NL]], Inr (True, g))
        else if invalid_coord w1 then Inr ([''Invalid coordinate'' @ [NL]], Inr (True, g))
        else
          bind_err (place_stone (game_map g) (curr_player g) w1 (mid_mist g)) (\<lambda>(rc, out, m, mist).
            let g' = g\<lparr>game_map := m, mid_mist := mist\<rparr> in
            if rc = 0 then Inr (out, Inr (False, g'))
            else if length (history g) + length w1 + 1 > HISTORY_LEN then Inl BufferOverrun
            else Inr (out, Inr (False, g'\<lparr>history := history g @ w1, next_round := True\<rparr>)))
      else if w0 = ''history'' then Inr ([history g @ [NL]], Inr (False, g))
      else if w0 = ''view'' then Inr (view (game_map g) (mid_mist g), Inr (False, g))
      else Inr ([''Invalid!'' @ [NL]], Inr (True, g)))"

text \<open>After a command: the three tests for the end, each a call of its own, and the change of player.\<close>

definition conclude :: "(nat \<Rightarrow> string) \<Rightarrow> game \<Rightarrow> fault + string list \<times> (int + game)" where
  "conclude junk g =
     bind_err (check_game_cond (junk 0) (game_map g)) (\<lambda>r1.
       if r1 = 1 then Inr (farewell ''Black wins!'' g, Inl 0)
       else bind_err (check_game_cond (junk 1) (game_map g)) (\<lambda>r2.
         if r2 = 2 then Inr (farewell ''White wins!'' g, Inl 0)
         else bind_err (check_game_cond (junk 2) (game_map g)) (\<lambda>r3.
           if r3 = 3 then Inr (farewell ''Wow, a tie!'' g, Inl 0)
           else Inr ([], Inr (if next_round g
                  then g\<lparr>curr_player := (if curr_player g \<noteq> 0 then 0 else 1), next_round := False\<rparr> else g)))))"

definition play :: "(nat \<Rightarrow> string) \<Rightarrow> string \<Rightarrow> string \<Rightarrow> game \<Rightarrow> fault + string list \<times> (int + game)" where
  "play junk w0 w1 g =
     bind_err (command w0 w1 g) (\<lambda>(out, r).
       case r of
         Inl code \<Rightarrow> Inr (out, Inl code)
       | Inr (cont, g') \<Rightarrow>
           if cont then Inr (out, Inr g')
           else bind_err (conclude junk g') (\<lambda>(out', r'). Inr (out @ out', r')))"

definition gitm_round :: "(nat \<Rightarrow> string) \<Rightarrow> string \<Rightarrow> game \<Rightarrow> fault + string list \<times> (int + game \<times> string)" where
  "gitm_round junk stdin g =
     (case fgets (BUFFER_LEN - 1) stdin of
        None \<Rightarrow> Inr ([''Invalid!'' @ [NL]], Inr (g, stdin))
      | Some (buf, rest) \<Rightarrow>
          let line = cstr buf in
          if length line = BUFFER_LEN - 1 \<and> line ! (BUFFER_LEN - 2) \<noteq> NL then
            bind_err (long_line line rest) (\<lambda>(out, rest'). Inr (out, Inr (g, rest')))
          else
            let (rc, out1, w0, w1) = input_processing line in
            if rc \<noteq> 0 then Inr (out1, Inr (g, rest))
            else bind_err (play junk w0 w1 g) (\<lambda>(out2, r). Inr (out1 @ out2, map_sum id (\<lambda>g'. (g', rest)) r)))"

end
