(* ===== verification/Gm_Inv.thy ===== *)
theory Gm_Inv
  imports Gm_Game
begin

text \<open>
  The invariant of the game (a well-formed board, a history that fits its buffer, the mist on the
  board), that every round keeps it, and what the tests for the end of the game see.
\<close>

section \<open>The board\<close>

definition wf_map :: "string list \<Rightarrow> bool" where
  "wf_map m \<longleftrightarrow> length m = 20 \<and> (\<forall>i<20. length (m ! i) = 20) \<and> m ! 19 = replicate 20 NUL \<and>
     (\<forall>i<19. m ! i ! 19 = NUL \<and> (\<forall>j<19. m ! i ! j \<in> {CHR ''.'', CHR ''#'', CHR ''o''}))"

definition free_points :: "string list \<Rightarrow> nat" where
  "free_points m = sum_list (map (\<lambda>r. length (filter (\<lambda>c. c = CHR ''.'') r)) m)"

lemma start_map_wf: "wf_map start_map" "free_points start_map = 361"
proof -
  have "start_map ! i = (if i < 19 then replicate 19 (CHR ''.'') @ [NUL] else replicate 20 NUL)" if "i < 20" for i
    using that by (simp add: start_map_def nth_append)
  then show "wf_map start_map"
    by (simp add: wf_map_def nth_append) (simp add: start_map_def)
  have r: "filter (\<lambda>c. c = CHR ''.'') (replicate 19 (CHR ''.'') @ [NUL]) = replicate 19 (CHR ''.'')"
    "filter (\<lambda>c. c = CHR ''.'') (replicate 20 NUL) = []" by (simp_all add: filter_replicate)
  show "free_points start_map = 361"
    by (simp add: free_points_def start_map_def r map_replicate sum_list_replicate del: replicate_Suc filter_append)
qed

lemma length_filter_update:
  assumes "j < length r" "P (r ! j)" "\<not> P c"
  shows "Suc (length (filter P (r[j := c]))) = length (filter P r)"
proof -
  have "length (filter P r) = length (filter P (take j r @ r ! j # drop (Suc j) r))"
    using assms(1) by (simp flip: id_take_nth_drop)
  moreover have "length (filter P (r[j := c])) = length (filter P (take j r @ c # drop (Suc j) r))"
    using assms(1) by (simp add: upd_conv_take_nth_drop)
  ultimately show ?thesis using assms(2,3) by simp
qed

lemma free_points_update:
  assumes "i < length m" "j < length (m ! i)" "m ! i ! j = CHR ''.''" "c \<noteq> CHR ''.''"
  shows "Suc (free_points (m[i := (m ! i)[j := c]])) = free_points m"
proof -
  let ?f = "\<lambda>r. length (filter (\<lambda>c. c = CHR ''.'') r)"
  have s: "Suc (?f ((m ! i)[j := c])) = ?f (m ! i)" using assms by (intro length_filter_update) auto
  have m: "m = take i m @ m ! i # drop (Suc i) m" using assms(1) by (simp add: id_take_nth_drop)
  have u: "m[i := (m ! i)[j := c]] = take i m @ (m ! i)[j := c] # drop (Suc i) m"
    using assms(1) by (simp add: upd_conv_take_nth_drop)
  have "free_points m = sum_list (map ?f (take i m)) + (?f (m ! i) + sum_list (map ?f (drop (Suc i) m)))"
    unfolding free_points_def by (subst m) simp
  moreover have "free_points (m[i := (m ! i)[j := c]]) = sum_list (map ?f (take i m)) + (?f ((m ! i)[j := c]) + sum_list (map ?f (drop (Suc i) m)))"
    unfolding free_points_def u by simp
  ultimately show ?thesis using s by simp
qed

section \<open>Coordinates\<close>

lemma valid_coord:
  assumes "\<not> invalid_coord w"
  shows "0 \<le> ord (w ! 0) - 65" "ord (w ! 0) - 65 \<le> 18" "1 \<le> atoi (tl w)" "atoi (tl w) \<le> 19" "length w \<le> 3"
proof -
  have a: "isalpha (w ! 0)" "char_rem (w ! 0) \<le> 18" "1 \<le> atoi (tl w)" "atoi (tl w) \<le> 19" "length w \<le> 3"
    using assms by (auto simp: invalid_coord_def split: if_splits)
  then show "1 \<le> atoi (tl w)" "atoi (tl w) \<le> 19" "length w \<le> 3" by simp_all
  have r: "65 \<le> ord (w ! 0)" "ord (w ! 0) \<le> 122" using a(1) by (auto simp: isalpha_def)
  then have "ord (w ! 0) mod 65 = ord (w ! 0) - 65"
    by presburger
  with r a(2) have "65 \<le> ord (w ! 0) \<and> ord (w ! 0) \<le> 83" by (simp add: char_rem_def Let_def)
  then show "0 \<le> ord (w ! 0) - 65" "ord (w ! 0) - 65 \<le> 18" by simp_all
qed

lemma mist_centre_range:
  "fst (mist_centre h v) \<in> {1..19}" "snd (mist_centre h v) \<in> {1..19}"
  using pos_mod_bound [of 19 "5 * (h + 1) * (h + 1) + 3 * (h + 1) + 4"] pos_mod_bound [of 19 "4 * v * v + 2 * v - 4"]
  by (simp_all add: mist_centre_def)

section \<open>The invariant\<close>

definition wf_game :: "game \<Rightarrow> bool" where
  "wf_game g \<longleftrightarrow> wf_map (game_map g) \<and> curr_player g \<in> {0, 1} \<and> \<not> next_round g \<and>
     length (history g) + 3 * free_points (game_map g) \<le> 1083 \<and>
     fst (mid_mist g) \<in> {1..19} \<and> snd (mid_mist g) \<in> {1..19}"

lemma start_game_wf: "wf_game start_game"
  using start_map_wf by (simp add: wf_game_def start_game_def)

lemma place_stone_valid:
  assumes "\<not> invalid_coord w" and "wf_map m"
  defines "i \<equiv> nat (19 - atoi (tl w))" and "j \<equiv> nat (ord (w ! 0) - 65)"
  shows "i < 19" "j < 19"
    and "place_stone m player w mist =
      (if m ! i ! j \<noteq> CHR ''.'' then Inr (0, [''Occupied coordinate'' @ [NL]], m, mist)
       else Inr (1, [], m[i := (m ! i)[j := stone player]], mist_centre (ord (w ! 0) - 65) (atoi (tl w))))"
  using valid_coord [OF assms(1)]
  by (auto simp: i_def j_def place_stone_def Let_def on_map_def cell_def set_cell_def ROWS_def COLS_def)

lemma wf_map_update:
  assumes "wf_map m" "i < 19" "j < 19"
  shows "wf_map (m[i := (m ! i)[j := stone p]])"
  using assms by (auto simp: wf_map_def nth_list_update stone_def)

lemma free_points_pos: "wf_map m \<Longrightarrow> i < 19 \<Longrightarrow> j < 19 \<Longrightarrow> m ! i ! j = CHR ''.'' \<Longrightarrow>
  Suc (free_points (m[i := (m ! i)[j := stone p]])) = free_points m"
  by (rule free_points_update) (auto simp: wf_map_def stone_def)

text \<open>A command leaves a board on which at most one stone is new; the history grows with it.\<close>

definition mid_game :: "game \<Rightarrow> bool" where
  "mid_game g \<longleftrightarrow> wf_game (g\<lparr>next_round := False\<rparr>)"

lemma command_inv:
  assumes wf: "wf_game g"
  shows "command w0 w1 g \<noteq> Inl f"
    and "command w0 w1 g = Inr (out, Inr (cont, g')) \<Longrightarrow> mid_game g' \<and> (cont \<longrightarrow> g' = g)"
proof -
  have "command w0 w1 g \<noteq> Inl f \<and> (\<forall>out cont g'. command w0 w1 g = Inr (out, Inr (cont, g')) \<longrightarrow> mid_game g' \<and> (cont \<longrightarrow> g' = g))"
  proof (cases "w0 = ''place'' \<and> w1 \<noteq> [] \<and> \<not> invalid_coord w1")
    case False
    have "mid_game g" using wf by (simp add: mid_game_def wf_game_def)
    with False show ?thesis by (auto simp: command_def)
  next
    case True
    let ?i = "nat (19 - atoi (tl w1))" and ?j = "nat (ord (w1 ! 0) - 65)" and ?m = "game_map g"
    let ?m' = "?m[?i := (?m ! ?i)[?j := stone (curr_player g)]]" and ?mist = "mist_centre (ord (w1 ! 0) - 65) (atoi (tl w1))"
    have wm: "wf_map ?m" using wf by (simp add: wf_game_def)
    note pl = place_stone_valid [OF conjunct2 [OF conjunct2 [OF True]] wm]
    show ?thesis
    proof (cases "?m ! ?i ! ?j = CHR ''.''")
      case free: True
      have fp: "Suc (free_points ?m') = free_points ?m" by (rule free_points_pos [OF wm pl(1,2) free])
      have len: "length (history g) + length w1 + 3 * free_points ?m' \<le> 1083"
        using wf fp valid_coord(5) [of w1] True by (simp add: wf_game_def)
      have "wf_game (g\<lparr>game_map := ?m', mid_mist := ?mist, history := history g @ w1, next_round := False\<rparr>)"
        using wf wf_map_update [OF wm pl(1,2)] len mist_centre_range by (simp add: wf_game_def)
      with True free len pl(3) show ?thesis by (simp add: command_def mid_game_def HISTORY_LEN_def)
    next
      case False
      have "mid_game g" using wf by (simp add: mid_game_def wf_game_def)
      with True False pl(3) show ?thesis by (simp add: command_def)
    qed
  qed
  then show "command w0 w1 g \<noteq> Inl f"
    and "command w0 w1 g = Inr (out, Inr (cont, g')) \<Longrightarrow> mid_game g' \<and> (cont \<longrightarrow> g' = g)" by blast+
qed

lemma conclude_inv:
  "mid_game g \<Longrightarrow> conclude junk g = Inr (out, Inr g') \<Longrightarrow> wf_game g'"
  by (auto simp: conclude_def mid_game_def wf_game_def split: if_splits)

lemma play_cases:
  assumes "play junk w0 w1 g = Inr (out, Inr g')"
  obtains out2 where "command w0 w1 g = Inr (out2, Inr (True, g'))"
  | out2 g1 out3 where "command w0 w1 g = Inr (out2, Inr (False, g1))" "conclude junk g1 = Inr (out3, Inr g')"
proof -
  obtain out2 r where c: "command w0 w1 g = Inr (out2, r)"
    using assms by (cases "command w0 w1 g") (auto simp: play_def)
  with assms obtain cont g1 where r: "r = Inr (cont, g1)" by (cases r) (auto simp: play_def)
  show thesis
  proof (cases cont)
    case True
    with assms c r that(1) show thesis by (simp add: play_def)
  next
    case False
    with assms c r obtain out3 where "conclude junk g1 = Inr (out3, Inr g')" by (auto simp: play_def)
    with False c r that(2) show thesis by simp
  qed
qed

lemma gitm_round_cases:
  assumes "gitm_round junk stdin g = Inr (out, Inr (g', rest))"
  obtains "g' = g"
  | w0 w1 out2 where "play junk w0 w1 g = Inr (out2, Inr g')"
proof (cases "fgets (BUFFER_LEN - 1) stdin")
  case None
  with assms that(1) show thesis by (simp add: gitm_round_def)
next
  case (Some br)
  obtain buf rst where br: "br = (buf, rst)" by (cases br)
  obtain rc out1 w0 w1 where ip: "input_processing (cstr buf) = (rc, out1, w0, w1)" by (metis prod_cases4)
  show thesis
  proof (cases "length (cstr buf) = BUFFER_LEN - 1 \<and> cstr buf ! (BUFFER_LEN - 2) \<noteq> NL \<or> rc \<noteq> 0")
    case True
    with assms Some br ip that(1) show thesis by (auto simp: gitm_round_def Let_def split: if_splits)
  next
    case False
    then have eq: "gitm_round junk stdin g =
        bind_err (play junk w0 w1 g) (\<lambda>(out2, r). Inr (out1 @ out2, map_sum id (\<lambda>g'. (g', rst)) r))"
      using Some br ip by (auto simp: gitm_round_def Let_def)
    obtain out2 r where p: "play junk w0 w1 g = Inr (out2, r)" using assms eq by (cases "play junk w0 w1 g") auto
    with assms eq have "r = Inr g'" by (cases r) auto
    with p that(2) show thesis by simp
  qed
qed

lemma gitm_round_inv:
  assumes "wf_game g" "gitm_round junk stdin g = Inr (out, Inr (g', rest))"
  shows "wf_game g'"
  using assms(2)
proof (cases rule: gitm_round_cases)
  case 1
  with assms(1) show ?thesis by simp
next
  case (2 w0 w1 out2)
  then show ?thesis
    using command_inv(2) [OF assms(1)] conclude_inv assms(1) by (cases rule: play_cases) blast+
qed

text \<open>The game as a machine on the game and what is left of the input.\<close>

definition gitm_step :: "(nat \<Rightarrow> string) \<Rightarrow> game \<times> string \<Rightarrow> (game \<times> string) option" where
  "gitm_step junk s =
     (case gitm_round junk (snd s) (fst s) of
        Inr (out, Inr s') \<Rightarrow> Some s'
      | _ \<Rightarrow> None)"

interpretation gm: stepping gitm_step "\<lambda>s. wf_game (fst s)"
proof
  fix s i s' assume "wf_game (fst s)" "gitm_step i s = Some s'"
  then show "wf_game (fst s')"
    using gitm_round_inv [of "fst s" i "snd s"] by (cases s') (auto simp: gitm_step_def split: sum.splits prod.splits)
qed

end
