(* ===== verification/Gm_Rules.thy ===== *)
theory Gm_Rules
  imports Gm_Inv
begin

text \<open>
  The rules of the game as the program plays them: what a round can change, which lines of five the
  tests for the end see, and when a round can go wrong.
\<close>

section \<open>A move\<close>

text \<open>The state after the current player has put a stone on the point named \<open>w\<close>.\<close>

definition moved :: "string \<Rightarrow> game \<Rightarrow> game" where
  "moved w g =
     g\<lparr>game_map := set_cell (game_map g) (19 - atoi (tl w)) (ord (w ! 0) - 65) (stone (curr_player g)),
       mid_mist := mist_centre (ord (w ! 0) - 65) (atoi (tl w)), history := history g @ w,
       curr_player := 1 - curr_player g\<rparr>"

definition legal_move :: "string \<Rightarrow> game \<Rightarrow> bool" where
  "legal_move w g \<longleftrightarrow> \<not> invalid_coord w \<and> cell (game_map g) (19 - atoi (tl w)) (ord (w ! 0) - 65) = CHR ''.''"

lemma command_result:
  assumes wf: "wf_game g" and c: "command w0 w1 g = Inr (out, Inr (cont, g'))"
  shows "g' = g \<or> (\<not> cont \<and> w0 = ''place'' \<and> legal_move w1 g \<and> g' = (moved w1 g)\<lparr>curr_player := curr_player g, next_round := True\<rparr>)"
proof (cases "w0 = ''place'' \<and> w1 \<noteq> [] \<and> \<not> invalid_coord w1")
  case False
  with c show ?thesis by (auto simp: command_def split: if_splits)
next
  case True
  have wm: "wf_map (game_map g)" using wf by (simp add: wf_game_def)
  note pl = place_stone_valid [OF conjunct2 [OF conjunct2 [OF True]] wm]
  show ?thesis
    using c True pl(3) by (auto simp: command_def legal_move_def moved_def cell_def set_cell_def split: if_splits)
qed

lemma conclude_result:
  "conclude junk g = Inr (out, Inr g') \<Longrightarrow>
     g' = (if next_round g then g\<lparr>curr_player := (if curr_player g \<noteq> 0 then 0 else 1), next_round := False\<rparr> else g)"
  by (auto simp: conclude_def split: if_splits)

lemma gitm_round_result:
  assumes wf: "wf_game g" and r: "gitm_round junk stdin g = Inr (out, Inr (g', rest))"
  shows "g' = g \<or> (\<exists>w. legal_move w g \<and> g' = moved w g)"
  using r
proof (cases rule: gitm_round_cases)
  case 1
  then show ?thesis by simp
next
  case (2 w0 w1 out2)
  have p: "\<not> next_round g" "curr_player g \<in> {0, 1}" using wf by (simp_all add: wf_game_def)
  from 2 show ?thesis
  proof (cases rule: play_cases)
    case (1 out2)
    with command_result [OF wf 1] show ?thesis by auto
  next
    case (2 out2 g1 out3)
    with command_result [OF wf 2(1)] conclude_result [OF 2(2)] p show ?thesis by (auto simp: moved_def)
  qed
qed

section \<open>Five in a row\<close>

lemma strstr_iff: "strstr s n \<longleftrightarrow> (\<exists>pre post. s = pre @ n @ post)"
proof (induction s)
  case Nil
  then show ?case by simp
next
  case (Cons c cs)
  have "take (length n) (c # cs) = n \<longleftrightarrow> (\<exists>post. c # cs = n @ post)"
    by (metis append_eq_conv_conj append_take_drop_id)
  then show ?case
    unfolding strstr.simps Cons.IH by (metis append_Cons append_self_conv2 list.exhaust list.sel(3))
qed

lemma strstr_five:
  "strstr s (replicate 5 c) \<longleftrightarrow> (\<exists>j. j + 5 \<le> length s \<and> (\<forall>k<5. s ! (j + k) = c))"
proof
  assume "strstr s (replicate 5 c)"
  then obtain pre post where s: "s = pre @ replicate 5 c @ post" by (auto simp: strstr_iff)
  then have "length pre + 5 \<le> length s \<and> (\<forall>k<5. s ! (length pre + k) = c)"
    by (simp add: nth_append del: replicate_Suc)
  then show "\<exists>j. j + 5 \<le> length s \<and> (\<forall>k<5. s ! (j + k) = c)" by blast
next
  assume "\<exists>j. j + 5 \<le> length s \<and> (\<forall>k<5. s ! (j + k) = c)"
  then obtain j where j: "j + 5 \<le> length s" "\<forall>k<5. s ! (j + k) = c" by blast
  then have "take 5 (drop j s) = replicate 5 c" by (intro nth_equalityI) auto
  then have "s = take j s @ replicate 5 c @ drop 5 (drop j s)" by (metis append_take_drop_id)
  then show "strstr s (replicate 5 c)" unfolding strstr_iff by blast
qed

lemma row_text_wf:
  assumes "wf_map m"
  shows "i < 19 \<Longrightarrow> row_text m i = take 19 (m ! i)" and "row_text m 19 = []"
proof -
  have d: "drop i m = m ! i # drop (Suc i) m" if "i < 20" for i
    using assms that by (simp add: Cons_nth_drop_Suc wf_map_def)
  show "row_text m i = take 19 (m ! i)" if i: "i < 19"
  proof -
    have row: "length (m ! i) = 20" "m ! i ! 19 = NUL" using assms i by (simp_all add: wf_map_def)
    have "m ! i ! j \<in> {CHR ''.'', CHR ''#'', CHR ''o''}" if "j < 19" for j using assms i that by (simp add: wf_map_def)
    then have stones: "m ! i ! j \<noteq> NUL" if "j < 19" for j using that by fastforce
    have "m ! i = take 19 (m ! i) @ NUL # drop 20 (m ! i)" using row by (metis id_take_nth_drop lessI numeral_nat(1) eval_nat_numeral(2,3) semiring_norm(26-28) Suc_numeral)
    moreover have "takeWhile (\<lambda>c. c \<noteq> NUL) (take 19 (m ! i)) = take 19 (m ! i)"
      using row stones by (auto simp: takeWhile_eq_all_conv in_set_conv_nth)
    ultimately have "cstr (m ! i @ xs) = take 19 (m ! i)" for xs
    proof -
      assume w: "takeWhile (\<lambda>c. c \<noteq> NUL) (take 19 (m ! i)) = take 19 (m ! i)"
        and mi: "m ! i = take 19 (m ! i) @ NUL # drop 20 (m ! i)"
      have "\<forall>c\<in>set (take 19 (m ! i)). c \<noteq> NUL" using w by (simp add: takeWhile_eq_all_conv)
      then have "takeWhile (\<lambda>c. c \<noteq> NUL) (take 19 (m ! i) @ NUL # drop 20 (m ! i) @ xs) = take 19 (m ! i)"
        by (subst takeWhile_append2) auto
      then show ?thesis unfolding cstr_def by (subst mi) simp
    qed
    then show ?thesis using i by (simp add: row_text_def d)
  qed
  show "row_text m 19 = []" using assms d [of 19] by (simp add: row_text_def cstr_def wf_map_def)
qed

text \<open>Five points from \<open>(i, j)\<close> in the direction \<open>(di, dj)\<close>, all of them on the board and of colour \<open>c\<close>.\<close>

definition five :: "string list \<Rightarrow> char \<Rightarrow> nat \<Rightarrow> nat \<Rightarrow> nat \<Rightarrow> nat \<Rightarrow> bool" where
  "five m c i j di dj \<longleftrightarrow> (\<forall>k<5. i + k * di < 19 \<and> j + k * dj < 19 \<and> m ! (i + k * di) ! (j + k * dj) = c)"

lemma first_some_None: "first_some xs = None \<longleftrightarrow> (\<forall>x\<in>set xs. x = None)"
  by (induction xs) (auto split: option.split)

lemma first_some_Some: "first_some xs = Some v \<Longrightarrow> Some v \<in> set xs"
  by (induction xs) (auto split: option.splits)

lemma verdict_five:
  "verdict s = None \<longleftrightarrow> \<not> strstr s (replicate 5 (CHR ''#'')) \<and> \<not> strstr s (replicate 5 (CHR ''o''))"
  "verdict s = Some v \<Longrightarrow> v = 1 \<and> strstr s (replicate 5 (CHR ''#'')) \<or> v = 2 \<and> strstr s (replicate 5 (CHR ''o''))"
  by (auto simp: verdict_def numeral_eq_Suc split: if_splits)

lemma strstr_row:
  assumes "wf_map m" "i < 19"
  shows "strstr (row_text m i) (replicate 5 c) \<longleftrightarrow> (\<exists>j. five m c i j 0 1)"
proof -
  have len: "length (m ! i) = 20" using assms by (simp add: wf_map_def)
  have "(j + 5 \<le> length (take 19 (m ! i)) \<and> (\<forall>k<5. take 19 (m ! i) ! (j + k) = c)) \<longleftrightarrow> five m c i j 0 1" for j
  proof
    assume "j + 5 \<le> length (take 19 (m ! i)) \<and> (\<forall>k<5. take 19 (m ! i) ! (j + k) = c)"
    then show "five m c i j 0 1" using assms(2) len by (auto simp: five_def)
  next
    assume f: "five m c i j 0 1"
    then have "j + 4 < 19" by (auto simp: five_def dest: spec [of _ 4])
    with f len show "j + 5 \<le> length (take 19 (m ! i)) \<and> (\<forall>k<5. take 19 (m ! i) ! (j + k) = c)"
      by (auto simp: five_def)
  qed
  then show ?thesis by (simp only: row_text_wf(1) [OF assms] strstr_five)
qed

lemma rows_upto: "(\<forall>i\<in>set [0..<ROWS]. P i) \<longleftrightarrow> (\<forall>i<19. P i) \<and> P 19"
proof -
  have "set [0..<ROWS] = insert 19 {i. i < 19}" by (auto simp: ROWS_def)
  then show ?thesis by auto
qed

lemma check_rows_five:
  assumes "wf_map m"
  shows "check_rows m = None \<longleftrightarrow> \<not> (\<exists>c\<in>{CHR ''#'', CHR ''o''}. \<exists>i j. five m c i j 0 1)"
    and "check_rows m = Some v \<Longrightarrow> \<exists>i j. v = 1 \<and> five m (CHR ''#'') i j 0 1 \<or> v = 2 \<and> five m (CHR ''o'') i j 0 1"
proof -
  have dom: "i < 19" if "five m c i j 0 1" for c i j using that by (auto simp: five_def dest: spec [of _ 0])
  have last: "verdict (row_text m 19) = None" by (simp add: row_text_wf(2) [OF assms] verdict_def)
  have "check_rows m = None \<longleftrightarrow> (\<forall>i<19. verdict (row_text m i) = None)"
    using last by (simp add: check_rows_def first_some_None rows_upto del: set_upt)
  then show "check_rows m = None \<longleftrightarrow> \<not> (\<exists>c\<in>{CHR ''#'', CHR ''o''}. \<exists>i j. five m c i j 0 1)"
    unfolding verdict_five using strstr_row [OF assms] dom by (metis insert_iff singletonD)
  assume "check_rows m = Some v"
  then obtain i where i: "i < 20" "verdict (row_text m i) = Some v"
    using first_some_Some by (fastforce simp: check_rows_def ROWS_def)
  with last have "i < 19" by (cases "i = 19") auto
  with verdict_five(2) [OF i(2)] strstr_row [OF assms]
  show "\<exists>i j. v = 1 \<and> five m (CHR ''#'') i j 0 1 \<or> v = 2 \<and> five m (CHR ''o'') i j 0 1" by metis
qed

lemma five_down_five:
  "h \<in> {0..18} \<Longrightarrow> v \<in> {0..14} \<Longrightarrow> five_down m c v h \<longleftrightarrow> five m c (nat v) (nat h) 1 0"
proof -
  assume h: "h \<in> {0..18}" and v: "v \<in> {0..14}"
  have "five_down m c v h \<longleftrightarrow> (\<forall>k<5::nat. cell m (v + int k) h = c)"
  proof -
    have "x \<in> int ` {k. k < 5}" if "0 \<le> x" "x \<le> 4" for x :: int using that by (intro image_eqI [of _ _ "nat x"]) auto
    then have "set [0..4::int] = int ` {k. k < 5}" by auto
    then show ?thesis by (simp add: five_down_def del: set_upto)
  qed
  also have "\<dots> \<longleftrightarrow> five m c (nat v) (nat h) 1 0"
    using h v by (auto simp: five_def cell_def nat_add_distrib)
  finally show ?thesis .
qed

lemma five_column_range: "five m c i j 1 0 \<Longrightarrow> i \<le> 14 \<and> j \<le> 18"
  by (auto simp: five_def dest: spec [of _ 4])

lemma check_columns_five:
  "check_columns m = None \<longleftrightarrow> \<not> (\<exists>c\<in>{CHR ''#'', CHR ''o''}. \<exists>i j. five m c i j 1 0)"
  "check_columns m = Some w \<Longrightarrow> \<exists>i j. w = 1 \<and> five m (CHR ''#'') i j 1 0 \<or> w = 2 \<and> five m (CHR ''o'') i j 1 0"
proof -
  have "check_columns m = None \<longleftrightarrow> (\<forall>h\<in>{0..18}. \<forall>v\<in>{0..14}. \<not> five_down m (CHR ''#'') v h \<and> \<not> five_down m (CHR ''o'') v h)"
    by (auto simp: check_columns_def first_some_None split: if_splits)
  also have "\<dots> \<longleftrightarrow> (\<forall>h\<in>{0..18}. \<forall>v\<in>{0..14}. \<not> five m (CHR ''#'') (nat v) (nat h) 1 0 \<and> \<not> five m (CHR ''o'') (nat v) (nat h) 1 0)"
    by (simp add: five_down_five)
  also have "\<dots> \<longleftrightarrow> \<not> (\<exists>c\<in>{CHR ''#'', CHR ''o''}. \<exists>i j. five m c i j 1 0)"
  proof -
    have "five m c i j 1 0 \<Longrightarrow> \<exists>h\<in>{0..18}. \<exists>v\<in>{0..14}. five m c (nat v) (nat h) 1 0" for c i j
      using five_column_range [of m c i j] by (intro bexI [of _ "int j"] bexI [of _ "int i"]) auto
    then show ?thesis by blast
  qed
  finally show "check_columns m = None \<longleftrightarrow> \<not> (\<exists>c\<in>{CHR ''#'', CHR ''o''}. \<exists>i j. five m c i j 1 0)" .
  assume "check_columns m = Some w"
  from first_some_Some [OF this [unfolded check_columns_def]]
  show "\<exists>i j. w = 1 \<and> five m (CHR ''#'') i j 1 0 \<or> w = 2 \<and> five m (CHR ''o'') i j 1 0"
    by (auto simp: five_down_five split: if_splits) blast+
qed

section \<open>Faults\<close>

text \<open>
  The diagonals have at most 19 points, so a NUL in the uninitialised part of the buffer behind
  them stays where it is.
\<close>

lemma diagonals_short:
  "\<forall>ds\<in>set (rising_from_left @ rising_from_bottom @ falling_from_top @ falling_from_left). length ds \<le> 19"
  by code_simp

lemma load_diagonal_tail:
  "length ds \<le> 19 \<Longrightarrow> length buf > 19 \<Longrightarrow> drop 19 (load_diagonal m ds buf) = drop 19 buf \<and> length (load_diagonal m ds buf) = length buf"
  by (simp add: load_diagonal_def Let_def drop_update_cancel)

lemma check_diagonals_no_fault:
  assumes "\<forall>ds\<in>set dss. length ds \<le> 19" "NUL \<in> set (drop 19 buf)"
  shows "check_diagonals m dss buf \<noteq> Inl f"
  using assms
proof (induction dss arbitrary: buf)
  case Nil
  then show ?case by simp
next
  case (Cons ds dss)
  have "length buf > 19" using Cons.prems(2) by (metis drop_all empty_iff linorder_not_less list.set(1))
  note t = load_diagonal_tail [OF _ this, of ds m]
  then have n: "NUL \<in> set (drop 19 (load_diagonal m ds buf))" using Cons.prems by simp
  then have "NUL \<in> set (load_diagonal m ds buf)" by (rule in_set_dropD)
  with Cons.IH [OF _ n] Cons.prems(1) show ?case by (simp add: Let_def split: option.split)
qed

lemma check_game_cond_no_fault: "NUL \<in> set (drop 19 junk) \<Longrightarrow> check_game_cond junk m \<noteq> Inl f"
  using check_diagonals_no_fault [OF diagonals_short, of junk m]
  by (auto simp: check_game_cond_def bind_err_eq_Inl split: option.split)

lemma conclude_no_fault: "\<forall>k. NUL \<in> set (drop 19 (junk k)) \<Longrightarrow> conclude junk g \<noteq> Inl f"
  using check_game_cond_no_fault by (auto simp: conclude_def bind_err_eq_Inl split: if_splits)

lemma strtok_from_nonempty: "tok \<noteq> [] \<Longrightarrow> strtok_from tok s \<noteq> []"
  by (induction s arbitrary: tok) auto

lemma strtok_all_Nil: "strtok_all s = [] \<longleftrightarrow> (\<forall>c\<in>set s. c = CHR '' '')"
  unfolding strtok_all_def by (induction s) (auto simp: strtok_from_nonempty)

lemma fgets_chars_append: "fgets_chars n inp = (l, rest) \<Longrightarrow> inp = l @ rest"
  by (induction n inp arbitrary: l rest rule: fgets_chars.induct) (auto split: if_splits prod.splits)

lemma gitm_round_fault:
  assumes wf: "wf_game g" and junk: "\<forall>k. NUL \<in> set (drop 19 (junk k))" and r: "gitm_round junk stdin g = Inl f"
  shows "f = NullPointer \<and> take 49 stdin = replicate 49 (CHR '' '')"
proof -
  obtain buf rst where b: "fgets (BUFFER_LEN - 1) stdin = Some (buf, rst)"
    using r by (cases "fgets (BUFFER_LEN - 1) stdin") (auto simp: gitm_round_def)
  obtain rc out1 w0 w1 where ip: "input_processing (cstr buf) = (rc, out1, w0, w1)" by (metis prod_cases4)
  have no: "play junk w0 w1 g \<noteq> Inl f'" for f'
    using command_inv(1) [OF wf] conclude_no_fault [OF junk]
    by (auto simp: play_def bind_err_eq_Inl split: sum.split)
  have long: "length (cstr buf) = 49" "long_line (cstr buf) rst = Inl f"
    using r b ip no by (auto simp: gitm_round_def Let_def bind_err_eq_Inl BUFFER_LEN_def split: if_splits)
  have s: "stdin = buf @ rst" using b by (auto simp: fgets_def dest: fgets_chars_append split: if_splits)
  have f: "f = NullPointer" "strtok_all (cstr buf) = []"
    using long(2) by (auto simp: long_line_def Let_def split: if_splits prod.splits)
  have "cstr buf = take 49 buf" using long(1) by (metis cstr_def takeWhile_eq_take)
  then have t: "take 49 stdin = cstr buf" using s long(1) by (metis append_take_drop_id length_take min.absorb_iff2 nle_le take_append take_all diff_is_0_eq' take_0 append_Nil2 length_append linorder_le_cases cstr_def length_takeWhile_le)
  have "cstr buf = replicate 49 (CHR '' '')"
    using f(2) long(1) by (metis replicate_eqI strtok_all_Nil)
  with t f(1) show ?thesis by simp
qed

section \<open>Boards\<close>

definition stones_at :: "char \<Rightarrow> (int \<times> int) list \<Rightarrow> string list" where
  "stones_at c ps = foldl (\<lambda>m (i, j). set_cell m i j c) start_map ps"

section \<open>The view\<close>

lemma length_view_chars: "length (view_chars m mist) = 49"
  by (simp add: view_chars_def Let_def length_concat o_def sum_list_replicate map_replicate_const)

lemma view_chars_no_NUL:
  assumes "wf_map m"
  shows "NUL \<notin> set (view_chars m mist)"
proof -
  have "view_char m i j \<noteq> NUL" for i j
  proof (cases "0 \<le> i \<and> i \<le> 18 \<and> 0 \<le> j \<and> j \<le> 18")
    case True
    then have "m ! nat i ! nat j \<in> {CHR ''.'', CHR ''#'', CHR ''o''}"
      using assms unfolding wf_map_def by (simp add: nat_less_iff)
    with True show ?thesis by (auto simp: view_char_def cell_def ROWS_def COLS_def)
  next
    case False
    then show ?thesis by (auto simp: view_char_def ROWS_def COLS_def)
  qed
  then show ?thesis by (force simp: view_chars_def Let_def)
qed

lemma nth_concat_rows:
  "\<forall>r\<in>set rs. length r = n \<Longrightarrow> a < length rs \<Longrightarrow> b < n \<Longrightarrow> concat rs ! (n * a + b) = rs ! a ! b"
proof (induction rs arbitrary: a)
  case Nil
  then show ?case by simp
next
  case (Cons r rs)
  then show ?case by (cases a) (auto simp: nth_append)
qed

lemma view_chars_nth:
  assumes "a < 7" "b < 7"
  shows "view_chars m mist ! (7 * a + b) = view_char m (19 - snd mist - 3 + int a) (fst mist - 4 + int b)"
proof -
  let ?f = "\<lambda>i. map (view_char m i) [fst mist - 1 - 3..fst mist - 1 + 3]"
  have "concat (map ?f [19 - snd mist - 3..19 - snd mist + 3]) ! (7 * a + b) = map ?f [19 - snd mist - 3..19 - snd mist + 3] ! a ! b"
    using assms by (intro nth_concat_rows) auto
  also have "\<dots> = view_char m (19 - snd mist - 3 + int a) (fst mist - 4 + int b)"
    using assms by (simp add: nth_upto)
  finally show ?thesis by (simp add: view_chars_def Let_def ROWS_def algebra_simps)
qed

end
