(* ===== verification/Gm_Diag.thy ===== *)
theory Gm_Diag
  imports Gm_Rules
begin

text \<open>
  Which diagonals the test for the end of the game covers: every falling diagonal but the main one, and
  the rising diagonals up to the long one. Five in a row on one of them are always found.
\<close>

section \<open>Diagonals in the buffer\<close>

definition five_rising :: "string list \<Rightarrow> char \<Rightarrow> nat \<Rightarrow> nat \<Rightarrow> bool" where
  "five_rising m c i j \<longleftrightarrow> i < 19 \<and> (\<forall>k<5. k \<le> i \<and> j + k < 19 \<and> m ! (i - k) ! (j + k) = c)"

text \<open>The colours of the points of a diagonal.\<close>

definition colours :: "string list \<Rightarrow> (int \<times> int) list \<Rightarrow> string" where
  "colours m ds = map (\<lambda>(y, x). cell m y x) ds"

definition on_board :: "int \<times> int \<Rightarrow> bool" where
  "on_board p \<longleftrightarrow> 0 \<le> fst p \<and> fst p \<le> 18 \<and> 0 \<le> snd p \<and> snd p \<le> 18"

lemma diagonals_on_board:
  "list_all (list_all on_board) (rising_from_left @ rising_from_bottom @ falling_from_top @ falling_from_left)"
  by code_simp

lemma cstr_loaded:
  assumes "wf_map m" "list_all on_board ds" "ds \<noteq> []"
  shows "\<exists>rest. cstr (load_diagonal m ds buf) = colours m ds @ rest"
proof -
  have "cell m y x \<noteq> NUL" if "(y, x) \<in> set ds" for y x
  proof -
    have "on_board (y, x)" using assms(2) that by (auto simp: list_all_iff)
    then have "m ! nat y ! nat x \<in> {CHR ''.'', CHR ''#'', CHR ''o''}"
      using assms(1) by (simp add: on_board_def wf_map_def nat_less_iff)
    then show ?thesis by (auto simp: cell_def)
  qed
  then have "\<forall>c\<in>set (colours m ds). c \<noteq> NUL" by (auto simp: colours_def)
  then have "takeWhile (\<lambda>c. c \<noteq> NUL) (colours m ds @ r) = colours m ds @ takeWhile (\<lambda>c. c \<noteq> NUL) r" for r
    by (intro takeWhile_append2) blast
  then show ?thesis by (simp add: load_diagonal_def Let_def cstr_def colours_def)
qed

lemma strstr_append: "strstr s n \<Longrightarrow> strstr (s @ r) n"
  unfolding strstr_iff by (metis append_assoc)

lemma check_diagonals_None:
  assumes "wf_map m" "list_all (list_all on_board) dss" "check_diagonals m dss buf = Inr None" "ds \<in> set dss"
    and "c \<in> {CHR ''#'', CHR ''o''}"
  shows "\<not> strstr (colours m ds) (replicate 5 c)"
  using assms(2-4)
proof (induction dss arbitrary: buf)
  case Nil
  then show ?case by simp
next
  case (Cons d dss)
  let ?b = "load_diagonal m d buf"
  have v: "verdict (cstr ?b) = None" and rest: "check_diagonals m dss ?b = Inr None"
    using Cons.prems(2) by (auto simp: Let_def split: if_splits option.splits)
  show ?case
  proof (cases "ds \<in> set dss")
    case True
    with Cons.IH [OF _ rest] Cons.prems(1) show ?thesis by simp
  next
    case False
    then have ds: "ds = d" using Cons.prems(3) by simp
    show ?thesis
    proof (cases "d = []")
      case True
      then show ?thesis by (simp add: ds colours_def numeral_eq_Suc)
    next
      case False
      then obtain r where "cstr ?b = colours m d @ r" using cstr_loaded [OF assms(1)] Cons.prems(1) by force
      then show ?thesis using v assms(5) strstr_append unfolding ds verdict_five by (metis insert_iff singletonD)
    qed
  qed
qed

lemma check_diagonals_result: "check_diagonals m dss buf = Inr (Some v) \<Longrightarrow> v = 1 \<or> v = 2"
  by (induction dss arbitrary: buf) (auto simp: Let_def dest: verdict_five(2) split: if_splits option.splits)

section \<open>The diagonals that are walked\<close>

lemma walked:
  "rising_from_left = map (\<lambda>s. map (\<lambda>x. (s - x, x)) [0..s]) [4..18]"
  "falling_from_top = map (\<lambda>d. map (\<lambda>k. (k, d + k)) [0..18 - d]) (rev [1..14])"
  "falling_from_left = map (\<lambda>d. map (\<lambda>k. (d + k, k)) [0..18 - d]) (rev [1..14])"
  by code_simp+

lemma colours_five:
  assumes "a + 5 \<le> length ds" "\<And>k. k < 5 \<Longrightarrow> (case ds ! (a + k) of (y, x) \<Rightarrow> cell m y x) = c"
  shows "strstr (colours m ds) (replicate 5 c)"
  unfolding strstr_five using assms by (intro exI [of _ a]) (auto simp: colours_def)

lemma five_on_rising:
  assumes "five_rising m c i j" "i + j \<le> 18"
  shows "\<exists>ds\<in>set rising_from_left. strstr (colours m ds) (replicate 5 c)"
proof -
  let ?s = "int i + int j"
  have f: "k \<le> i" "m ! (i - k) ! (j + k) = c" if "k < 5" for k using assms(1) that by (auto simp: five_rising_def)
  have i: "4 \<le> i" using f(1) [of 4] by simp
  have "strstr (colours m (map (\<lambda>x. (?s - x, x)) [0..?s])) (replicate 5 c)"
  proof (rule colours_five [of j])
    show "j + 5 \<le> length (map (\<lambda>x. (?s - x, x)) [0..?s])" using i by simp
    fix k :: nat assume k: "k < 5"
    have "nat (int i - int k) = i - k" "nat (int j + int k) = j + k" using f(1) [OF k] by auto
    then show "(case map (\<lambda>x. (?s - x, x)) [0..?s] ! (j + k) of (y, x) \<Rightarrow> cell m y x) = c"
      using f [OF k] i by (simp add: nth_upto cell_def)
  qed
  moreover have "map (\<lambda>x. (?s - x, x)) [0..?s] \<in> set rising_from_left"
    unfolding walked set_map set_upto by (rule imageI) (use i assms(2) in auto)
  ultimately show ?thesis by blast
qed

lemma five_on_falling:
  assumes "five m c i j 1 1" "i \<noteq> j"
  shows "\<exists>ds\<in>set (falling_from_top @ falling_from_left). strstr (colours m ds) (replicate 5 c)"
proof -
  have f: "i + k < 19" "j + k < 19" "m ! (i + k) ! (j + k) = c" if "k < 5" for k using assms(1) that by (auto simp: five_def)
  have b: "i \<le> 14" "j \<le> 14" using f [of 4] by auto
  have n: "nat (int a + int k) = a + k" for a k by simp
  show ?thesis
  proof (cases "i < j")
    case True
    let ?d = "int j - int i" and ?ds = "\<lambda>d. map (\<lambda>k. (k, d + k)) [0..18 - d]"
    have "strstr (colours m (?ds ?d)) (replicate 5 c)"
      using True b f by (intro colours_five [of i]) (auto simp: nth_upto cell_def n add.commute)
    moreover have "?ds ?d \<in> set falling_from_top" unfolding walked set_map set_rev set_upto by (rule imageI) (use True b in auto)
    ultimately show ?thesis by auto
  next
    case False
    let ?d = "int i - int j" and ?ds = "\<lambda>d. map (\<lambda>k. (d + k, k)) [0..18 - d]"
    have "strstr (colours m (?ds ?d)) (replicate 5 c)"
      using False b f by (intro colours_five [of j]) (auto simp: nth_upto cell_def n add.commute)
    moreover have "?ds ?d \<in> set falling_from_left" unfolding walked set_map set_rev set_upto by (rule imageI) (use False assms(2) b in auto)
    ultimately show ?thesis by auto
  qed
qed

text \<open>A line of five that the test looks at.\<close>

definition covered_five :: "string list \<Rightarrow> char \<Rightarrow> bool" where
  "covered_five m c \<longleftrightarrow> (\<exists>i j. five m c i j 0 1 \<or> five m c i j 1 0 \<or> (five m c i j 1 1 \<and> i \<noteq> j) \<or> (five_rising m c i j \<and> i + j \<le> 18))"

lemma covered_found:
  assumes wf: "wf_map m" and r: "check_game_cond junk m \<in> {Inr 0, Inr 3}" and c: "c \<in> {CHR ''#'', CHR ''o''}"
  shows "\<not> covered_five m c"
proof
  assume cov: "covered_five m c"
  have rows: "check_rows m = None"
    using r check_rows_five(2) [OF wf] by (cases "check_rows m") (fastforce simp: check_game_cond_def)+
  have cols: "check_columns m = None"
    using r rows check_columns_five(2) [of m] by (cases "check_columns m") (fastforce simp: check_game_cond_def)+
  let ?dss = "rising_from_left @ rising_from_bottom @ falling_from_top @ falling_from_left"
  have "check_diagonals m ?dss junk = Inr None"
    using r rows cols check_diagonals_result [of m ?dss junk] by (auto simp: check_game_cond_def bind_err_def split: option.splits sum.splits)
  note no = check_diagonals_None [OF wf diagonals_on_board this _ c]
  obtain i j where "(five m c i j 1 1 \<and> i \<noteq> j) \<or> (five_rising m c i j \<and> i + j \<le> 18)"
    using cov rows cols check_rows_five(1) [OF wf] check_columns_five(1) [of m] c unfolding covered_five_def by blast
  with five_on_rising [of m c i j] five_on_falling [of m c i j] no show False by auto
qed

lemma check_game_cond_result:
  assumes "wf_map m" "NUL \<in> set (drop 19 junk)"
  shows "check_game_cond junk m \<in> {Inr 0, Inr 1, Inr 2, Inr 3}"
proof (cases "check_game_cond junk m")
  case (Inl f)
  with check_game_cond_no_fault [OF assms(2), of m f] show ?thesis by simp
next
  case (Inr v)
  with check_rows_five(2) [OF assms(1), of v] check_columns_five(2) [of m v]
  show ?thesis by (auto simp: check_game_cond_def dest: check_diagonals_result split: option.splits if_splits)
qed

text \<open>Where a row or column decides, the buffer does not matter.\<close>

definition straight_five :: "string list \<Rightarrow> bool" where
  "straight_five m \<longleftrightarrow> (\<exists>c\<in>{CHR ''#'', CHR ''o''}. \<exists>i j. five m c i j 0 1 \<or> five m c i j 1 0)"

lemma straight_any_buffer:
  assumes "wf_map m" "straight_five m"
  shows "check_game_cond b m = check_game_cond b' m"
proof -
  have "check_rows m \<noteq> None \<or> check_columns m \<noteq> None"
    using assms(2) check_rows_five(1) [OF assms(1)] check_columns_five(1) [of m] unfolding straight_five_def by blast
  then show ?thesis by (auto simp: check_game_cond_def split: option.split)
qed

section \<open>Boards\<close>

lemma set_cell_wf:
  assumes "wf_map m" "0 \<le> i" "i \<le> 18" "0 \<le> j" "j \<le> 18" "c \<in> {CHR ''#'', CHR ''o''}"
  shows "wf_map (set_cell m i j c)"
  using assms by (auto simp: wf_map_def set_cell_def nth_list_update nat_less_iff)

lemma stones_at_wf:
  assumes "c \<in> {CHR ''#'', CHR ''o''}" "\<forall>(i, j)\<in>set ps. 0 \<le> i \<and> i \<le> 18 \<and> 0 \<le> j \<and> j \<le> 18"
  shows "wf_map (stones_at c ps)"
proof -
  have "wf_map m \<Longrightarrow> wf_map (foldl (\<lambda>m (i, j). set_cell m i j c) m ps)" for m
    using assms(2)
  proof (induction ps arbitrary: m)
    case Nil
    then show ?case by simp
  next
    case (Cons p ps)
    then have "wf_map (case p of (i, j) \<Rightarrow> set_cell m i j c)"
      using assms(1) by (cases p) (auto intro: set_cell_wf)
    with Cons show ?case by simp
  qed
  then show ?thesis using start_map_wf(1) by (simp add: stones_at_def)
qed

end
