(* ===== verification/Gm_Flaws.thy ===== *)
theory Gm_Flaws
  imports Gm_Diag
begin

text \<open>
  Which lines the test for the end of the game misses: those on the main diagonal and on the rising diagonals below the
  long one. A board is compared with another that has a black stone wherever the first has any stone: what
  the test does not find on the second it does not find on the first.
\<close>

section \<open>A board under another\<close>

definition stones :: "char set" where "stones = {CHR ''#'', CHR ''o''}"

text \<open>
  A buffer that is terminated behind the diagonals, has black stones where another has stones, and before its end a NUL only where the other has one.
\<close>

definition shadows :: "string \<Rightarrow> string \<Rightarrow> bool" where
  "shadows b b' \<longleftrightarrow> (\<forall>k<length b. (b ! k \<noteq> NUL \<and> Suc k < length b' \<longrightarrow> b' ! k \<noteq> NUL) \<and>
     (b ! k \<in> stones \<longrightarrow> Suc k < length b' \<and> b' ! k = CHR ''#''))"

definition shadowed_at :: "string list \<Rightarrow> string list \<Rightarrow> int \<times> int \<Rightarrow> bool" where
  "shadowed_at m m' p = (case p of (y, x) \<Rightarrow> cell m' y x \<noteq> NUL \<and> (cell m y x \<in> stones \<longrightarrow> cell m' y x = CHR ''#''))"

lemma cstr_prefix:
  assumes "n \<le> length b" "\<forall>k<n. b ! k \<noteq> NUL"
  shows "n \<le> length (cstr b)"
proof (rule ccontr)
  assume "\<not> n \<le> length (cstr b)"
  then have "length (takeWhile (\<lambda>c. c \<noteq> NUL) b) < length b" "length (takeWhile (\<lambda>c. c \<noteq> NUL) b) < n"
    using assms(1) by (simp_all add: cstr_def)
  with nth_length_takeWhile [of "\<lambda>c. c \<noteq> NUL" b] assms(2) show False by blast
qed

lemma cstr_nth: "k < length (cstr b) \<Longrightarrow> cstr b ! k = b ! k \<and> b ! k \<noteq> NUL \<and> k < length b"
  unfolding cstr_def
  by (metis (mono_tags, lifting) length_takeWhile_le nth_mem order_less_le_trans set_takeWhileD takeWhile_nth)

lemma shadows_five:
  assumes "shadows b b'" "c \<in> stones" "strstr (cstr b) (replicate 5 c)"
  shows "strstr (cstr b') (replicate 5 (CHR ''#''))"
proof -
  obtain j where j: "j + 5 \<le> length (cstr b)" "\<forall>k<5. cstr b ! (j + k) = c" using assms(3) by (auto simp: strstr_five)
  have black: "Suc (j + k) < length b' \<and> b' ! (j + k) = CHR ''#''" if "k < 5" for k
  proof -
    have "j + k < length (cstr b)" using j(1) that by simp
    then have "b ! (j + k) = c" "j + k < length b" using j(2) that cstr_nth [of "j + k" b] by auto
    then show ?thesis using assms(1,2) by (simp add: shadows_def)
  qed
  have "b' ! k \<noteq> NUL" if "k < j + 5" for k
    using assms(1) cstr_nth [of k b] j(1) black [of 4] that by (simp add: shadows_def)
  then have n: "j + 5 \<le> length (cstr b')" using black [of 4] by (intro cstr_prefix) auto
  then have "cstr b' ! (j + k) = CHR ''#''" if "k < 5" for k using cstr_nth [of "j + k" b'] black [OF that] that by simp
  with n show ?thesis by (auto simp: strstr_five intro!: exI [of _ j])
qed

lemma shadows_verdict: "shadows b b' \<Longrightarrow> verdict (cstr b') = None \<Longrightarrow> verdict (cstr b) = None"
  using shadows_five [of b b'] unfolding verdict_five stones_def by blast

lemma shadows_load:
  assumes "shadows b b'" "list_all (shadowed_at m m') ds" "length ds < length b'"
  shows "shadows (load_diagonal m ds b) (load_diagonal m' ds b')"
proof -
  have "k < length b \<Longrightarrow> b[0 := NUL] ! k = (if k = 0 then NUL else b ! k)" for k and b :: string by (cases b) auto
  then have upd: "shadows (b[0 := NUL]) (b'[0 := NUL])"
    using assms(1) by (auto simp: shadows_def stones_def)
  have "(load_diagonal m ds b ! k \<noteq> NUL \<and> Suc k < length b' \<longrightarrow> load_diagonal m' ds b' ! k \<noteq> NUL) \<and>
      (load_diagonal m ds b ! k \<in> stones \<longrightarrow> Suc k < length b' \<and> load_diagonal m' ds b' ! k = CHR ''#'')"
    if k: "k < length (load_diagonal m ds b)" for k
  proof (cases "k < length ds")
    case True
    then have "shadowed_at m m' (ds ! k)" using assms(2) by (simp add: list_all_length)
    with True assms(3) show ?thesis by (simp add: load_diagonal_def Let_def nth_append shadowed_at_def case_prod_beta)
  next
    case False
    with k have "k < length b" by (simp add: load_diagonal_def Let_def)
    with False upd assms(3) show ?thesis by (auto simp: load_diagonal_def Let_def nth_append shadows_def)
  qed
  moreover have "length (load_diagonal m' ds b') = length b'" using assms(3) by (simp add: load_diagonal_def Let_def)
  ultimately show ?thesis by (simp add: shadows_def)
qed

lemma shadows_diagonals:
  assumes "check_diagonals m' dss b' = Inr None" "shadows b b'"
    and "\<forall>ds\<in>set dss. list_all (shadowed_at m m') ds \<and> length ds < length b'"
  shows "check_diagonals m dss b \<in> {Inr None, Inl BufferOverrun}"
  using assms
proof (induction dss arbitrary: b b')
  case Nil
  then show ?case by simp
next
  case (Cons ds dss)
  let ?b = "load_diagonal m ds b" and ?b' = "load_diagonal m' ds b'"
  have s: "shadows ?b ?b'" using Cons.prems(2,3) by (intro shadows_load) simp_all
  have "length ?b' = length b'" using Cons.prems(3) by (simp add: load_diagonal_def Let_def)
  moreover have "verdict (cstr ?b') = None" "check_diagonals m' dss ?b' = Inr None"
    using Cons.prems(1) by (auto simp: Let_def split: if_splits option.splits)
  ultimately show ?case using shadows_verdict [OF s] Cons.IH [OF _ s] Cons.prems(3) by (auto simp: Let_def)
qed

section \<open>Stones on one diagonal\<close>

text \<open>The board with a black stone on each point of a set of points.\<close>

definition black_on :: "(nat \<Rightarrow> nat \<Rightarrow> bool) \<Rightarrow> string list" where
  "black_on P = map (\<lambda>i. map (\<lambda>j. if P i j then CHR ''#'' else CHR ''.'') [0..<19] @ [NUL]) [0..<19] @ [replicate 20 NUL]"

definition stones_only :: "(nat \<Rightarrow> nat \<Rightarrow> bool) \<Rightarrow> string list \<Rightarrow> bool" where
  "stones_only P m \<longleftrightarrow> (\<forall>i<19. \<forall>j<19. m ! i ! j \<noteq> CHR ''.'' \<longrightarrow> P i j)"

definition all_diagonals :: "(int \<times> int) list list" where
  "all_diagonals = rising_from_left @ rising_from_bottom @ falling_from_top @ falling_from_left"

lemma black_on_shadows:
  assumes "stones_only P m" "on_board p"
  shows "shadowed_at m (black_on P) p"
  using assms
  by (cases p) (auto simp: shadowed_at_def on_board_def black_on_def cell_def stones_only_def stones_def nth_append nat_less_iff)


text \<open>The diagonals that are not walked, each filled with stones, are not found.\<close>

definition missed :: "(nat \<Rightarrow> nat \<Rightarrow> bool) \<Rightarrow> bool" where
  "missed P \<longleftrightarrow> check_diagonals (black_on P) all_diagonals (replicate 19 (CHR ''.'') @ [NUL]) = Inr None"

lemma main_diagonal_missed: "missed (\<lambda>i j. i = j)"
  by code_simp

lemma low_diagonals_missed_1: "list_all (\<lambda>s. missed (\<lambda>i j. i + j = s)) [19..<22]"
  by code_simp

lemma low_diagonals_missed_2: "list_all (\<lambda>s. missed (\<lambda>i j. i + j = s)) [22..<25]"
  by code_simp

lemma low_diagonals_missed_3: "list_all (\<lambda>s. missed (\<lambda>i j. i + j = s)) [25..<29]"
  by code_simp

lemma low_diagonals_missed_4: "list_all (\<lambda>s. missed (\<lambda>i j. i + j = s)) [29..<33]"
  by code_simp

lemmas low_diagonals_missed = low_diagonals_missed_1 low_diagonals_missed_2 low_diagonals_missed_3 low_diagonals_missed_4

text \<open>The points of one diagonal: the main one, or a rising one below the long one on which five stones have room.\<close>

definition unwalked :: "(nat \<Rightarrow> nat \<Rightarrow> bool) \<Rightarrow> bool" where
  "unwalked P \<longleftrightarrow> P = (\<lambda>i j. i = j) \<or> (\<exists>s. 19 \<le> s \<and> s < 33 \<and> P = (\<lambda>i j. i + j = s))"

lemma unwalked_missed: "unwalked P \<Longrightarrow> missed P"
proof -
  have "[19..<33] = [19..<22] @ [22..<25] @ [25..<29] @ [29..<33::nat]" by (simp add: upt_rec)
  then have "list_all (\<lambda>s. missed (\<lambda>i j. i + j = s)) [19..<33]" using low_diagonals_missed by (simp only: list_all_append)
  then have "missed (\<lambda>i j. i + j = s)" if "19 \<le> s" "s < 33" for s
    using that by (simp only: list_all_iff set_upt atLeastLessThan_iff)
  with main_diagonal_missed show "unwalked P \<Longrightarrow> missed P" by (auto simp: unwalked_def)
qed

lemma unwalked_straight:
  assumes "unwalked P" "stones_only P m" "c \<in> stones"
  shows "\<not> five m c i j 0 1" "\<not> five m c i j 1 0"
proof -
  have off: "\<not> (P a b \<and> P a (Suc b))" "\<not> (P a b \<and> P (Suc a) b)" for a b using assms(1) by (auto simp: unwalked_def)
  have at: "P a b" if "a < 19" "b < 19" "m ! a ! b = c" for a b
    using assms(2,3) that by (auto simp: stones_only_def stones_def)
  show "\<not> five m c i j 0 1"
  proof
    assume f: "five m c i j 0 1"
    then have "i < 19 \<and> j < 19 \<and> m ! i ! j = c" "i < 19 \<and> Suc j < 19 \<and> m ! i ! Suc j = c"
      unfolding five_def by (auto dest: spec [of _ 0] spec [of _ 1])
    with at off(1) show False by blast
  qed
  show "\<not> five m c i j 1 0"
  proof
    assume f: "five m c i j 1 0"
    then have "i < 19 \<and> j < 19 \<and> m ! i ! j = c" "Suc i < 19 \<and> j < 19 \<and> m ! Suc i ! j = c"
      unfolding five_def by (auto dest: spec [of _ 0] spec [of _ 1])
    with at off(2) show False by blast
  qed
qed

lemma unwalked_board:
  assumes wf: "wf_map m" and P: "unwalked P" "stones_only P m" and junk: "NUL \<in> set (drop 19 junk)" "set junk \<inter> stones = {}"
  shows "check_game_cond junk m = Inr 0"
proof -
  have rows: "check_rows m = None" and cols: "check_columns m = None"
    using unwalked_straight [OF P] by (auto simp: check_rows_five(1) [OF wf] check_columns_five(1) stones_def)
  let ?b = "replicate 19 (CHR ''.'') @ [NUL]"
  have "shadows junk ?b" using junk(2) by (auto simp: shadows_def nth_append dest: nth_mem)
  moreover have "\<forall>ds\<in>set all_diagonals. list_all (shadowed_at m (black_on P)) ds \<and> length ds < length ?b"
    using diagonals_on_board diagonals_short black_on_shadows [OF P(2)] unfolding all_diagonals_def by (fastforce simp: list_all_iff)
  ultimately have "check_diagonals m all_diagonals junk \<in> {Inr None, Inl BufferOverrun}"
    using unwalked_missed [OF P(1)] unfolding missed_def by (rule shadows_diagonals [rotated])
  then have "check_diagonals m all_diagonals junk = Inr None"
    using check_diagonals_no_fault [OF diagonals_short junk(1), of m] unfolding all_diagonals_def by blast
  moreover have "tile_available m"
  proof -
    have "\<not> P 0 1" using P(1) by (auto simp: unwalked_def)
    moreover have "(0::nat) < 19" "(1::nat) < 19" by simp_all
    ultimately have "m ! 0 ! 1 = CHR ''.''" using P(2) unfolding stones_only_def by blast
    then show ?thesis unfolding tile_available_def
      by (intro bexI [of _ 0] bexI [of _ 1]) (simp_all add: cell_def)
  qed
  ultimately show ?thesis by (simp add: check_game_cond_def rows cols all_diagonals_def)
qed

section \<open>A win without a line\<close>

definition no_line :: "string list \<Rightarrow> bool" where
  "no_line m \<longleftrightarrow> (\<forall>c\<in>stones. \<forall>i j. \<not> five m c i j 0 1 \<and> \<not> five m c i j 1 0 \<and> \<not> five m c i j 1 1 \<and> \<not> five_rising m c i j)"

lemma black_on_nth: "i < 19 \<Longrightarrow> j < 19 \<Longrightarrow> black_on P ! i ! j = (if P i j then CHR ''#'' else CHR ''.'')"
  by (simp add: black_on_def nth_append)

lemma black_on_wf: "wf_map (black_on P)"
  unfolding wf_map_def
proof (intro conjI allI impI)
  show "black_on P ! i ! j \<in> {CHR ''.'', CHR ''#'', CHR ''o''}" if "i < 19" "j < 19" for i j
    using black_on_nth [OF that] by simp
qed (auto simp: black_on_def nth_append)

text \<open>Three stones on the long rising diagonal and two at the end of a short falling one, which is read over it.\<close>

definition scattered :: "string list" where
  "scattered = black_on (\<lambda>i j. (i, j) \<in> set [(13, 5), (12, 6), (11, 7), (3, 17), (4, 18)])"

lemma scattered_won: "check_game_cond (replicate 50 NUL) scattered = Inr 1"
  by code_simp

lemma scattered_no_line: "no_line scattered"
proof -
  let ?P = "\<lambda>i j. (i, j) \<in> set [(13, 5), (12, 6), (11, 7), (3, 17), (4, 18::nat)]"
  have P: "?P i j" if "i < 19" "j < 19" "scattered ! i ! j \<in> stones" for i j :: nat
    using that black_on_nth [of i j ?P] by (simp add: scattered_def stones_def split: if_splits)
  have f: "?P (i + k * di) (j + k * dj)" if "five scattered c i j di dj" "c \<in> stones" "k < 5" for c i j di dj k
    using that by (intro P) (auto simp: five_def)
  have r: "?P (i - k) (j + k)" if "five_rising scattered c i j" "c \<in> stones" "k < 5" for c i j k
    using that by (intro P) (auto simp: five_rising_def)
  have "\<not> five scattered c i j 0 1" "\<not> five scattered c i j 1 0" "\<not> five scattered c i j 1 1" "\<not> five_rising scattered c i j"
    if c: "c \<in> stones" for c i j
    using f [OF _ c, of i j 0 1 0] f [OF _ c, of i j 0 1 1] f [OF _ c, of i j 1 0 0] f [OF _ c, of i j 1 0 1]
      f [OF _ c, of i j 1 1 0] f [OF _ c, of i j 1 1 2] r [OF _ c, of i j 0] r [OF _ c, of i j 3]
    by auto
  then show ?thesis by (simp add: no_line_def)
qed

end
