(* ===== verification/Gm_Props.thy ===== *)
theory Gm_Props
  imports Gm_Flaws
begin

text \<open>The properties of the game \<open>gitm.c\<close>, with their witnesses, after a round evaluated in full.\<close>

section \<open>A first move\<close>

lemma one_stone: "check_game_cond (replicate 50 NUL) (game_map (moved ''A1'' start_game)) = Inr 0"
  by code_simp

lemma first_command:
  "command ''place'' ''A1'' start_game =
     Inr ([], Inr (False, (moved ''A1'' start_game)\<lparr>curr_player := 0, next_round := True\<rparr>))"
  by code_simp

lemma first_input:
  "fgets 49 (''place A1'' @ [NL]) = Some (''place A1'' @ [NL], [])"
  "input_processing (cstr (''place A1'' @ [NL])) = (0, [], ''place'', ''A1'')"
  "length (cstr (''place A1'' @ [NL])) = 9"
  by code_simp+

lemma first_move:
  "gitm_round (\<lambda>_. replicate 50 NUL) (''place A1'' @ [NL]) start_game = Inr ([], Inr (moved ''A1'' start_game, []))"
proof -
  let ?g = "(moved ''A1'' start_game)\<lparr>curr_player := 0, next_round := True\<rparr>"
  have "conclude (\<lambda>_. replicate 50 NUL) ?g = Inr ([], Inr (moved ''A1'' start_game))"
    using one_stone by (simp add: conclude_def moved_def start_game_def)
  then have "play (\<lambda>_. replicate 50 NUL) ''place'' ''A1'' start_game = Inr ([], Inr (moved ''A1'' start_game))"
    by (simp add: play_def first_command)
  then show ?thesis unfolding gitm_round_def BUFFER_LEN_def
    using first_input by (simp add: Let_def)
qed
section \<open>Properties\<close>

text \<open>C27: However long the game is played, the board stays a board of 19 by 19 points that are free,
  black or white, framed by NULs; the history stays within its buffer of 1500 characters; the mist
  stays centred on a point of the board.\<close>

theorem game_invariant:
  assumes "gm.run junks (start_game, stdin) = Some (g, rest)"
  shows "wf_map (game_map g) \<and> length (history g) < HISTORY_LEN \<and> curr_player g \<in> {0, 1} \<and>
    fst (mid_mist g) \<in> {1..19} \<and> snd (mid_mist g) \<in> {1..19}"
  using gm.run_inv [OF _ assms] start_game_wf by (simp add: wf_game_def HISTORY_LEN_def)

text \<open>C8: A round either leaves the game as it is or plays one legal move: the stone of the player to
  move goes to the free point named, the history gets its name, the mist moves, and it is the other
  player's turn.\<close>

theorem round_plays_one_move:
  assumes "wf_game g" and "gitm_round junk stdin g = Inr (out, Inr (g', rest))"
  shows "g' = g \<or> (\<exists>w. legal_move w g \<and> g' = moved w g)"
  using gitm_round_result [OF assms] .

theorem round_plays_one_move_witness:
  "moved ''A1'' start_game = start_game \<or> (\<exists>w. legal_move w start_game \<and> moved ''A1'' start_game = moved w start_game)"
  using round_plays_one_move [OF start_game_wf first_move] .

theorem game_invariant_witness: "wf_map (game_map (moved ''A1'' start_game)) \<and> length (history (moved ''A1'' start_game)) < HISTORY_LEN"
  using game_invariant [of "[\<lambda>_. replicate 50 NUL]" "''place A1'' @ [NL]" "moved ''A1'' start_game" "[]"] first_move
  by (simp add: gitm_step_def)

text \<open>C10: On a well-formed board a game is over in the row test or the column test exactly when some
  colour has five in a row horizontally or vertically, and the result names a colour that has.\<close>

theorem straight_lines_decided:
  assumes "wf_map m"
  shows "((check_rows m = None \<and> check_columns m = None) \<longleftrightarrow>
      \<not> (\<exists>c\<in>{CHR ''#'', CHR ''o''}. \<exists>i j. five m c i j 0 1 \<or> five m c i j 1 0)) \<and>
    (check_rows m = Some v \<or> (check_rows m = None \<and> check_columns m = Some v) \<longrightarrow> check_game_cond junk m = Inr v \<and>
      (\<exists>i j. v = 1 \<and> (five m (CHR ''#'') i j 0 1 \<or> five m (CHR ''#'') i j 1 0) \<or>
             v = 2 \<and> (five m (CHR ''o'') i j 0 1 \<or> five m (CHR ''o'') i j 1 0)))"
  using check_rows_five(1) [OF assms] check_columns_five(1) [of m] check_rows_five(2) [OF assms, of v]
    check_columns_five(2) [of m v]
  by (intro conjI) (blast, auto simp: check_game_cond_def)

theorem straight_lines_decided_witness:
  "(check_rows start_map = None \<and> check_columns start_map = None) \<longleftrightarrow>
     \<not> (\<exists>c\<in>{CHR ''#'', CHR ''o''}. \<exists>i j. five start_map c i j 0 1 \<or> five start_map c i j 1 0)"
  using straight_lines_decided [OF start_map_wf(1)] by blast

text \<open>C15: When a colour has five stones in a row horizontally, vertically, on a falling diagonal other than the main one, or on a rising
  diagonal up to the long one, every call of the test names a winner, whatever its uninitialised buffer holds (as long as a NUL is behind the diagonals).
  The game then ends with a winner, with one exception: \<open>main\<close> calls the test again for each possible result, each time with a buffer of its own, and plays on
  when the first call answers white and the second black. The game ends for certain when the two calls find the same contents in their buffers and when the row is horizontal or vertical.\<close>

theorem covered_lines_end_the_game:
  fixes g junk
  defines "m \<equiv> game_map g"
  assumes "wf_map m" and "c \<in> {CHR ''#'', CHR ''o''}" and "covered_five m c" and "\<forall>k. NUL \<in> set (drop 19 (junk k))"
  shows "(\<forall>k. check_game_cond (junk k) m \<in> {Inr 1, Inr 2}) \<and>
    (if check_game_cond (junk 0) m = Inr 2 \<and> check_game_cond (junk 1) m = Inr 1 then \<exists>g'. conclude junk g = Inr ([], Inr g')
     else \<exists>winner\<in>{''Black wins!'', ''White wins!''}. conclude junk g = Inr (farewell winner g, Inl 0)) \<and>
    (junk 0 = junk 1 \<or> straight_five m \<longrightarrow>
      (\<exists>winner\<in>{''Black wins!'', ''White wins!''}. conclude junk g = Inr (farewell winner g, Inl 0)))"
proof -
  have r: "check_game_cond (junk k) m = Inr 1 \<or> check_game_cond (junk k) m = Inr 2" for k
    using check_game_cond_result [OF assms(2), of "junk k"] covered_found [OF assms(2) _ assms(3), of "junk k"] assms(4,5) by blast
  have e: "if check_game_cond (junk 0) m = Inr 2 \<and> check_game_cond (junk 1) m = Inr 1 then \<exists>g'. conclude junk g = Inr ([], Inr g')
     else \<exists>winner\<in>{''Black wins!'', ''White wins!''}. conclude junk g = Inr (farewell winner g, Inl 0)"
  proof -
    have b: "conclude junk g = Inr (farewell ''Black wins!'' g, Inl 0)" if "check_game_cond (junk 0) m = Inr 1"
      using that by (simp add: conclude_def m_def del: bind_err_eq_Inr)
    have w: "conclude junk g = Inr (farewell ''White wins!'' g, Inl 0)" if "check_game_cond (junk 0) m = Inr 2" "check_game_cond (junk 1) m = Inr 2"
      using that by (simp add: conclude_def m_def del: bind_err_eq_Inr)
    have n: "\<exists>g'. conclude junk g = Inr ([], Inr g')" if "check_game_cond (junk 0) m = Inr 2" "check_game_cond (junk 1) m = Inr 1"
      using that r [of 2] unfolding conclude_def m_def by (elim disjE) (simp_all del: bind_err_eq_Inr)
    show ?thesis using r [of 0] r [of 1] b w n by auto
  qed
  have "check_game_cond (junk 0) m = check_game_cond (junk 1) m" if "junk 0 = junk 1 \<or> straight_five m"
    using that straight_any_buffer [OF assms(2)] by auto
  then have "\<not> (check_game_cond (junk 0) m = Inr 2 \<and> check_game_cond (junk 1) m = Inr 1)" if "junk 0 = junk 1 \<or> straight_five m"
    using that by auto
  with e have "\<exists>winner\<in>{''Black wins!'', ''White wins!''}. conclude junk g = Inr (farewell winner g, Inl 0)"
    if "junk 0 = junk 1 \<or> straight_five m" using that by presburger
  with e r show ?thesis by blast
qed

theorem covered_lines_end_the_game_witness:
  "\<exists>winner\<in>{''Black wins!'', ''White wins!''}. conclude (\<lambda>_. replicate 50 NUL)
     (start_game\<lparr>game_map := stones_at (CHR ''o'') [(6, 2), (5, 3), (4, 4), (3, 5), (2, 6)]\<rparr>) =
     Inr (farewell winner (start_game\<lparr>game_map := stones_at (CHR ''o'') [(6, 2), (5, 3), (4, 4), (3, 5), (2, 6)]\<rparr>), Inl 0)"
proof -
  let ?m = "stones_at (CHR ''o'') [(6, 2), (5, 3), (4, 4), (3, 5), (2, 6)]"
  let ?g = "start_game\<lparr>game_map := ?m\<rparr>"
  have wf: "wf_map (game_map ?g)" using stones_at_wf [of "CHR ''o''" "[(6, 2), (5, 3), (4, 4), (3, 5), (2, 6)]"] by simp
  have "?m ! 6 ! 2 = CHR ''o''" "?m ! 5 ! 3 = CHR ''o''" "?m ! 4 ! 4 = CHR ''o''" "?m ! 3 ! 5 = CHR ''o''" "?m ! 2 ! 6 = CHR ''o''"
    by code_simp+
  then have "five_rising ?m (CHR ''o'') 6 2" by (simp add: five_rising_def All_less_Suc eval_nat_numeral)
  then have "covered_five (game_map ?g) (CHR ''o'')" unfolding covered_five_def by fastforce
  from covered_lines_end_the_game [OF wf _ this, of "\<lambda>_. replicate 50 NUL"] show ?thesis by simp
qed

text \<open>The exception happens: white has five in a row on a falling diagonal, black four on a short rising one, and the second buffer
  happens to hold a black stone where that diagonal ends. The first call answers white, the second black, and the game goes on.\<close>

definition double_board :: "string list" where
  "double_board = foldl (\<lambda>m (i, j). set_cell m i j (CHR ''o'')) (stones_at (CHR ''#'') [(3, 1), (2, 2), (1, 3), (0, 4)])
     [(5, 8), (6, 9), (7, 10), (8, 11), (9, 12)]"

definition double_junk :: "nat \<Rightarrow> string" where
  "double_junk k = (if k = 1 then (replicate 50 NUL)[5 := CHR ''#''] else replicate 50 NUL)"

lemma double_answers: "check_game_cond (double_junk 0) double_board = Inr 2" "check_game_cond (double_junk 1) double_board = Inr 1"
  by code_simp+

theorem covered_win_missed:
  "\<exists>g'. conclude double_junk (start_game\<lparr>game_map := double_board\<rparr>) = Inr ([], Inr g')"
proof -
  have "double_junk 2 = double_junk 0" by (simp add: double_junk_def)
  then have "check_game_cond (double_junk 2) double_board = Inr 2" using double_answers(1) by simp
  with double_answers show ?thesis by (simp add: conclude_def del: bind_err_eq_Inr)
qed

text \<open>C38: The test for diagonals misses lines and invents others. On a board whose stones all lie on the main diagonal, or all on one rising
  diagonal below the long one, no call of the test finds a winner, however many of these stones are in a row, and \<open>main\<close> plays on; this when the buffers hold no stones
  and have a NUL behind the diagonals. On the other hand there is a board without five in a row in any direction that the test takes for a win of black,
  because a short diagonal is read together with what a longer one left behind it in the buffer.\<close>

theorem diagonal_test_flaws:
  fixes g
  defines "m \<equiv> game_map g"
  assumes "wf_map m" and "\<forall>k. NUL \<in> set (drop 19 (junk k)) \<and> set (junk k) \<inter> stones = {}"
    and "(\<forall>i<19. \<forall>j<19. m ! i ! j \<noteq> CHR ''.'' \<longrightarrow> i = j) \<or>
      (\<exists>s. 19 \<le> s \<and> s < 33 \<and> (\<forall>i<19. \<forall>j<19. m ! i ! j \<noteq> CHR ''.'' \<longrightarrow> i + j = s))"
  shows "(\<forall>k. check_game_cond (junk k) m = Inr 0) \<and>
    conclude junk g = Inr ([], Inr (if next_round g then g\<lparr>curr_player := (if curr_player g \<noteq> 0 then 0 else 1), next_round := False\<rparr> else g)) \<and>
    (\<exists>m'. wf_map m' \<and> no_line m' \<and> check_game_cond (replicate 50 NUL) m' = Inr 1)"
proof -
  obtain P where P: "unwalked P" "stones_only P m"
    using assms(4) unfolding unwalked_def stones_only_def by blast
  have r: "check_game_cond (junk k) m = Inr 0" for k using unwalked_board [OF assms(2) P] assms(3) by blast
  have "wf_map scattered \<and> no_line scattered" using black_on_wf scattered_no_line by (simp add: scattered_def)
  with r scattered_won show ?thesis by (auto simp: conclude_def m_def)
qed

theorem diagonal_test_flaws_witness:
  "five (black_on (\<lambda>i j. i = j)) (CHR ''#'') 3 3 1 1 \<and> check_game_cond (replicate 50 NUL) (black_on (\<lambda>i j. i = j)) = Inr 0 \<and>
   five_rising (black_on (\<lambda>i j. i + j = 25)) (CHR ''#'') 18 7 \<and> check_game_cond (replicate 50 NUL) (black_on (\<lambda>i j. i + j = 25)) = Inr 0"
proof -
  have f: "check_game_cond (replicate 50 NUL) (black_on P) = Inr 0"
    if "(\<forall>i<19. \<forall>j<19. black_on P ! i ! j \<noteq> CHR ''.'' \<longrightarrow> i = j) \<or>
      (\<exists>s. 19 \<le> s \<and> s < 33 \<and> (\<forall>i<19. \<forall>j<19. black_on P ! i ! j \<noteq> CHR ''.'' \<longrightarrow> i + j = s))" for P
    using diagonal_test_flaws [of "start_game\<lparr>game_map := black_on P\<rparr>" "\<lambda>_. replicate 50 NUL"] that black_on_wf by (simp add: stones_def)
  have "five (black_on (\<lambda>i j. i = j)) (CHR ''#'') 3 3 1 1" "five_rising (black_on (\<lambda>i j. i + j = 25)) (CHR ''#'') 18 7"
    by (auto simp: five_def five_rising_def black_on_nth)
  moreover have "check_game_cond (replicate 50 NUL) (black_on (\<lambda>i j. i = j)) = Inr 0" by (rule f) (simp add: black_on_nth)
  moreover have "check_game_cond (replicate 50 NUL) (black_on (\<lambda>i j. i + j = 25)) = Inr 0"
    by (rule f, rule disjI2, rule exI [of _ 25]) (simp add: black_on_nth)
  ultimately show ?thesis by blast
qed

text \<open>C35: Where the uninitialised buffer holds a NUL behind the diagonals, the only way a round can go
  wrong is a line that begins with 49 spaces, for which \<open>strtok\<close> returns NULL.\<close>

theorem round_faults_only_on_spaces:
  assumes "wf_game g" and "\<forall>k. NUL \<in> set (drop 19 (junk k))" and "gitm_round junk stdin g = Inl f"
  shows "f = NullPointer \<and> take 49 stdin = replicate 49 (CHR '' '')"
  using gitm_round_fault [OF assms] .

theorem round_faults_only_on_spaces_witness:
  "gitm_round (\<lambda>_. replicate 50 NUL) (replicate 60 (CHR '' '')) start_game = Inl NullPointer \<and>
   take 49 (replicate 60 (CHR '' '')) = replicate 49 (CHR '' '')"
proof -
  have r: "gitm_round (\<lambda>_. replicate 50 NUL) (replicate 60 (CHR '' '')) start_game = Inl NullPointer" by code_simp
  have j: "\<forall>k::nat. NUL \<in> set (drop 19 (replicate 50 NUL))" by simp
  from round_faults_only_on_spaces [OF start_game_wf j r] r show ?thesis by blast
qed

text \<open>At the end of the input every further round prints \<open>Invalid!\<close> and changes nothing, so the program
  never ends by itself.\<close>

theorem spins_at_end_of_input:
  "gm.run (replicate n junk) (g, []) = Some (g, []) \<and> gitm_round junk [] g = Inr ([''Invalid!'' @ [NL]], Inr (g, []))"
proof -
  have "gitm_round junk [] g = Inr ([''Invalid!'' @ [NL]], Inr (g, []))" by (simp add: gitm_round_def fgets_def)
  moreover from this have "gm.run (replicate n junk) (g, []) = Some (g, [])"
    by (induction n) (simp_all add: gitm_step_def)
  ultimately show ?thesis by simp
qed

text \<open>C36: The view prints the 49 points around the centre of the mist, row by row from the top, with an
  \<open>x\<close> for every point outside the board; its buffer of 50 characters is filled exactly.\<close>

theorem view_shows_neighbourhood:
  assumes "wf_map m" and "a < 7" and "b < 7"
  shows "view m mist = [[char_of (65 + (fst mist - 1))], show_int (snd mist) @ '','', view_chars m mist @ [NL]] \<and>
    length (view_chars m mist) + 1 = BUFFER_LEN \<and>
    view_chars m mist ! (7 * a + b) =
      (let i = 19 - snd mist + (int a - 3); j = fst mist - 1 + (int b - 3)
       in if 0 \<le> i \<and> i \<le> 18 \<and> 0 \<le> j \<and> j \<le> 18 then m ! nat i ! nat j else CHR ''x'')"
proof (intro conjI)
  have "cstr (view_chars m mist @ [NUL]) = view_chars m mist"
    using view_chars_no_NUL [OF assms(1), of mist] unfolding cstr_def by (subst takeWhile_append2) auto
  then show "view m mist = [[char_of (65 + (fst mist - 1))], show_int (snd mist) @ '','', view_chars m mist @ [NL]]"
    by (simp add: view_def)
  show "length (view_chars m mist) + 1 = BUFFER_LEN" by (simp add: length_view_chars BUFFER_LEN_def)
  show "view_chars m mist ! (7 * a + b) =
      (let i = 19 - snd mist + (int a - 3); j = fst mist - 1 + (int b - 3)
       in if 0 \<le> i \<and> i \<le> 18 \<and> 0 \<le> j \<and> j \<le> 18 then m ! nat i ! nat j else CHR ''x'')"
    using view_chars_nth [OF assms(2,3), of m mist]
    by (auto simp: view_char_def cell_def ROWS_def COLS_def Let_def algebra_simps)
qed

theorem view_shows_neighbourhood_witness:
  "view_chars start_map (10, 10) ! (7 * 3 + 3) = CHR ''.'' \<and> length (view_chars start_map (10, 10)) + 1 = BUFFER_LEN"
proof
  have "start_map ! 9 ! 9 = CHR ''.''" by code_simp
  then show "view_chars start_map (10, 10) ! (7 * 3 + 3) = CHR ''.''"
    using view_shows_neighbourhood [OF start_map_wf(1), of 3 3 "(10, 10)"] by simp
  show "length (view_chars start_map (10, 10)) + 1 = BUFFER_LEN"
    using view_shows_neighbourhood [OF start_map_wf(1), of 3 3 "(10, 10)"] by simp
qed

end
