(* ===== verification/Dh_Procs.thy ===== *)
theory Dh_Procs
  imports C_Io "HOL-Library.Signed_Division"
begin

text \<open>
  The procedures of the Dhrystone benchmark (\<open>dhrystone.c\<close> and the end of \<open>dhrystone_main.c\<close>), which the toolchain of the
  virtual machine brings along. Records live in a list of cells and are shared through pointers. A variable
  passed by reference is a value that the procedure returns changed, unless it is a
  field of a record or an array. Where a loop need not end, the result is an option: \<open>None\<close> is a loop that does not.
\<close>

section \<open>Results\<close>

type_synonym 'a result = "(fault + 'a) option"

definition and_then :: "'a result \<Rightarrow> ('a \<Rightarrow> 'b result) \<Rightarrow> 'b result" where
  "and_then r k = (case r of None \<Rightarrow> None | Some (Inl f) \<Rightarrow> Some (Inl f) | Some (Inr x) \<Rightarrow> k x)"

lemma and_then_simps [simp]:
  "and_then None k = None" "and_then (Some (Inl f)) k = Some (Inl f)" "and_then (Some (Inr x)) k = k x"
  by (simp_all add: and_then_def)

section \<open>Data\<close>

datatype Enumeration = Ident_1 | Ident_2 | Ident_3 | Ident_4 | Ident_5

text \<open>Only the first variant of the union is used. A \<open>Str_30\<close> is a buffer of 31 characters.\<close>

record Rec_Type =
  Ptr_Comp :: "nat option"   \<comment> \<open>\<open>None\<close>: the null pointer\<close>
  Discr :: Enumeration
  Enum_Comp :: Enumeration
  Int_Comp :: int
  Str_Comp :: string

record globals =
  cells :: "Rec_Type list"
  Ptr_Glob :: "nat option"
  Next_Ptr_Glob :: "nat option"
  Int_Glob :: int
  Bool_Glob :: int
  Ch_1_Glob :: char
  Ch_2_Glob :: char
  Arr_1_Glob :: "int list"
  Arr_2_Glob :: "int list list"

definition deref :: "nat option \<Rightarrow> globals \<Rightarrow> fault + nat" where
  "deref p g = (case p of None \<Rightarrow> Inl NullPointer | Some i \<Rightarrow> if i < length (cells g) then Inr i else Inl NullPointer)"

definition upd_cell :: "nat \<Rightarrow> (Rec_Type \<Rightarrow> Rec_Type) \<Rightarrow> globals \<Rightarrow> globals" where
  "upd_cell i f g = g\<lparr>cells := (cells g)[i := f (cells g ! i)]\<rparr>"

text \<open>Array elements and characters of a buffer, with the bounds that C leaves to the programmer.\<close>

definition elem :: "'a list \<Rightarrow> int \<Rightarrow> fault + 'a" where
  "elem xs i = (if 0 \<le> i \<and> i < int (length xs) then Inr (xs ! nat i) else Inl BufferOverrun)"

definition set_elem :: "'a list \<Rightarrow> int \<Rightarrow> 'a \<Rightarrow> fault + 'a list" where
  "set_elem xs i v = (if 0 \<le> i \<and> i < int (length xs) then Inr (xs[nat i := v]) else Inl BufferOverrun)"

definition elem2 :: "'a list list \<Rightarrow> int \<Rightarrow> int \<Rightarrow> fault + 'a" where
  "elem2 xss i j = bind_err (elem xss i) (\<lambda>xs. elem xs j)"

definition set_elem2 :: "'a list list \<Rightarrow> int \<Rightarrow> int \<Rightarrow> 'a \<Rightarrow> fault + 'a list list" where
  "set_elem2 xss i j v = bind_err (elem xss i) (\<lambda>xs. bind_err (set_elem xs j v) (\<lambda>ys. set_elem xss i ys))"

definition strcpy :: "string \<Rightarrow> string \<Rightarrow> fault + string" where
  "strcpy buf s = (if length s < length buf then Inr (s @ NUL # drop (Suc (length s)) buf) else Inl BufferOverrun)"

text \<open>\<open>strcmp(s, t) > 0\<close>.\<close>

fun after :: "string \<Rightarrow> string \<Rightarrow> bool" where
  "after [] t = False"
| "after (a # s) [] = True"
| "after (a # s) (b # t) = (if a = b then after s t else ord b < ord a)"

definition strcmp_pos :: "string \<Rightarrow> string \<Rightarrow> fault + bool" where
  "strcmp_pos s t = (if NUL \<in> set s \<and> NUL \<in> set t then Inr (after (cstr s) (cstr t)) else Inl BufferOverrun)"

section \<open>dhrystone.c\<close>

definition Func_3 :: "Enumeration \<Rightarrow> int" where
  "Func_3 v = (if v = Ident_3 then 1 else 0)"

definition Proc_6 :: "Enumeration \<Rightarrow> globals \<Rightarrow> Enumeration" where
  "Proc_6 v g =
     (let ref = v;
          ref = (if Func_3 v = 0 then Ident_4 else ref) in
      case v of
        Ident_1 \<Rightarrow> Ident_1
      | Ident_2 \<Rightarrow> if Int_Glob g > 100 then Ident_1 else Ident_4
      | Ident_3 \<Rightarrow> Ident_2
      | Ident_4 \<Rightarrow> ref
      | Ident_5 \<Rightarrow> Ident_3)"

definition Proc_7 :: "int \<Rightarrow> int \<Rightarrow> int" where
  "Proc_7 a b = (let Int_Loc = c_int (a + 2) in c_int (b + Int_Loc))"

primrec row_loop :: "int list \<Rightarrow> int \<Rightarrow> int list list \<Rightarrow> fault + int list list" where
  "row_loop [] loc arr2 = Inr arr2"
| "row_loop (j # js) loc arr2 = bind_err (set_elem2 arr2 loc j loc) (row_loop js loc)"

definition Proc_8 :: "int list \<Rightarrow> int list list \<Rightarrow> int \<Rightarrow> int \<Rightarrow> globals \<Rightarrow> fault + int list \<times> int list list \<times> globals" where
  "Proc_8 arr1 arr2 a b g =
     (let loc = c_int (a + 5) in
      bind_err (set_elem arr1 loc b) (\<lambda>arr1.
      bind_err (elem arr1 loc) (\<lambda>v.
      bind_err (set_elem arr1 (loc + 1) v) (\<lambda>arr1.
      bind_err (set_elem arr1 (loc + 30) loc) (\<lambda>arr1.
      bind_err (row_loop [loc..loc + 1] loc arr2) (\<lambda>arr2.
      bind_err (elem2 arr2 loc (loc - 1)) (\<lambda>v.
      bind_err (set_elem2 arr2 loc (loc - 1) (c_int (v + 1))) (\<lambda>arr2.
      bind_err (elem arr1 loc) (\<lambda>v.
      bind_err (set_elem2 arr2 (loc + 20) loc v) (\<lambda>arr2.
        Inr (arr1, arr2, g\<lparr>Int_Glob := 5\<rparr>)))))))))))"

definition Func_1 :: "char \<Rightarrow> char \<Rightarrow> globals \<Rightarrow> Enumeration \<times> globals" where
  "Func_1 c1 c2 g = (if c1 \<noteq> c2 then (Ident_1, g) else (Ident_2, g\<lparr>Ch_1_Glob := c1\<rparr>))"

partial_function (option) func2_loop ::
    "string \<Rightarrow> string \<Rightarrow> int \<Rightarrow> char option \<Rightarrow> globals \<Rightarrow> (fault + int \<times> char option \<times> globals) option" where
  "func2_loop s1 s2 loc ch g =
     (if loc \<le> 2 then
        (case bind_err (elem s1 loc) (\<lambda>a. bind_err (elem s2 (loc + 1)) (\<lambda>b. Inr (Func_1 a b g))) of
           Inl f \<Rightarrow> Some (Inl f)
         | Inr (v, g') \<Rightarrow>
             if v = Ident_1 then func2_loop s1 s2 (c_int (loc + 1)) (Some CHR ''A'') g' else func2_loop s1 s2 loc ch g')
      else Some (Inr (loc, ch, g)))"

definition Func_2 :: "string \<Rightarrow> string \<Rightarrow> globals \<Rightarrow> (int \<times> globals) result" where
  "Func_2 s1 s2 g =
     and_then (func2_loop s1 s2 2 None g) (\<lambda>(loc, ch, g).
       case ch of
         None \<Rightarrow> Some (Inl Uninitialised)
       | Some c \<Rightarrow>
           let loc = (if ord c \<ge> ord CHR ''W'' \<and> ord c < ord CHR ''Z'' then 7 else loc) in
           if c = CHR ''R'' then Some (Inr (1, g))
           else Some (bind_err (strcmp_pos s1 s2) (\<lambda>gt.
             Inr (if gt then (1, g\<lparr>Int_Glob := c_int (loc + 7)\<rparr>) else (0, g)))))"

section \<open>The procedures of dhrystone_main.c\<close>

text \<open>\<open>Proc_3\<close> gets the address of the field \<open>Ptr_Comp\<close> of a cell.\<close>

definition Proc_3 :: "nat \<Rightarrow> globals \<Rightarrow> fault + globals" where
  "Proc_3 r g =
     (let g1 = (if Ptr_Glob g \<noteq> None
                then bind_err (deref (Ptr_Glob g) g) (\<lambda>p. Inr (upd_cell r (\<lambda>c. c\<lparr>Ptr_Comp := Ptr_Comp (cells g ! p)\<rparr>) g))
                else Inr g) in
      bind_err g1 (\<lambda>g.
      bind_err (deref (Ptr_Glob g) g) (\<lambda>p.
        Inr (upd_cell p (\<lambda>c. c\<lparr>Int_Comp := Proc_7 10 (Int_Glob g)\<rparr>) g))))"

definition Proc_1 :: "nat option \<Rightarrow> globals \<Rightarrow> fault + globals" where
  "Proc_1 ptr g =
     bind_err (deref ptr g) (\<lambda>p.
     bind_err (deref (Ptr_Comp (cells g ! p)) g) (\<lambda>n.
     bind_err (deref (Ptr_Glob g) g) (\<lambda>gl.
       let g = upd_cell n (\<lambda>_. cells g ! gl) g;
           g = upd_cell p (\<lambda>c. c\<lparr>Int_Comp := 5\<rparr>) g;
           g = upd_cell n (\<lambda>c. c\<lparr>Int_Comp := Int_Comp (cells g ! p)\<rparr>) g;
           g = upd_cell n (\<lambda>c. c\<lparr>Ptr_Comp := Ptr_Comp (cells g ! p)\<rparr>) g in
       bind_err (Proc_3 n g) (\<lambda>g.
         if Discr (cells g ! n) = Ident_1 then
           let g = upd_cell n (\<lambda>c. c\<lparr>Int_Comp := 6\<rparr>) g;
               g = upd_cell n (\<lambda>c. c\<lparr>Enum_Comp := Proc_6 (Enum_Comp (cells g ! p)) g\<rparr>) g in
           bind_err (deref (Ptr_Glob g) g) (\<lambda>gl.
             let g = upd_cell n (\<lambda>c. c\<lparr>Ptr_Comp := Ptr_Comp (cells g ! gl)\<rparr>) g in
             Inr (upd_cell n (\<lambda>c. c\<lparr>Int_Comp := Proc_7 (Int_Comp (cells g ! n)) 10\<rparr>) g))
         else
           bind_err (deref (Ptr_Comp (cells g ! p)) g) (\<lambda>m. Inr (upd_cell p (\<lambda>_. cells g ! m) g))))))"

partial_function (option) proc2_loop :: "int \<Rightarrow> int \<Rightarrow> Enumeration option \<Rightarrow> globals \<Rightarrow> (fault + int) option" where
  "proc2_loop loc ref enum g =
     (let (loc, ref, enum) =
            (if Ch_1_Glob g = CHR ''A'' then (c_int (loc - 1), c_int (c_int (loc - 1) - Int_Glob g), Some Ident_1) else (loc, ref, enum)) in
      case enum of
        None \<Rightarrow> Some (Inl Uninitialised)
      | Some v \<Rightarrow> if v \<noteq> Ident_1 then proc2_loop loc ref enum g else Some (Inr ref))"

definition Proc_2 :: "int \<Rightarrow> globals \<Rightarrow> int result" where
  "Proc_2 ref g = proc2_loop (c_int (ref + 10)) ref None g"

definition Proc_4 :: "globals \<Rightarrow> globals" where
  "Proc_4 g =
     (let Bool_Loc = (if Ch_1_Glob g = CHR ''A'' then 1 else 0) in
      g\<lparr>Bool_Glob := Bool_Loc OR Bool_Glob g, Ch_2_Glob := CHR ''B''\<rparr>)"

definition Proc_5 :: "globals \<Rightarrow> globals" where
  "Proc_5 g = g\<lparr>Ch_1_Glob := CHR ''A'', Bool_Glob := 0\<rparr>"

end
