(* ===== verification/Dh_Main.thy ===== *)
theory Dh_Main
  imports Dh_Procs
begin

text \<open>
  \<open>main\<close> of \<open>dhrystone_main.c\<close>: its local variables, the initialisation, one run through the benchmark, the loop over the
  runs, and the loop that repeats everything with ten times as many runs while the measured time is too small.
  What the timer reads, \<open>HZ\<close>, and the contents of memory before its first use are arguments. A \<open>long\<close> has 32 bits, as on the
  target of the toolchain, and a \<open>char\<close> is unsigned. \<open>debug_printf\<close> prints nothing.
\<close>

section \<open>State\<close>

record locals =
  Int_1_Loc :: int
  Int_2_Loc :: int
  Int_3_Loc :: "int option"   \<comment> \<open>\<open>None\<close>: not assigned yet\<close>
  Enum_Loc :: Enumeration
  Str_1_Loc :: string
  Str_2_Loc :: string

definition NUMBER_OF_RUNS :: int where "NUMBER_OF_RUNS = 1000"
definition Mic_secs_Per_Second :: int where "Mic_secs_Per_Second = 1000000"

definition Too_Small_Time :: "int \<Rightarrow> int" where
  "Too_Small_Time HZ = 2 * HZ"

definition some_string :: string where "some_string = ''DHRYSTONE PROGRAM, SOME STRING''"
definition first_string :: string where "first_string = ''DHRYSTONE PROGRAM, 1'ST STRING''"
definition second_string :: string where "second_string = ''DHRYSTONE PROGRAM, 2'ND STRING''"
definition third_string :: string where "third_string = ''DHRYSTONE PROGRAM, 3'RD STRING''"

text \<open>Global variables start as zero.\<close>

definition zero_globals :: globals where
  "zero_globals = \<lparr>cells = [], Ptr_Glob = None, Next_Ptr_Glob = None, Int_Glob = 0, Bool_Glob = 0, Ch_1_Glob = NUL, Ch_2_Glob = NUL,
     Arr_1_Glob = replicate 50 0, Arr_2_Glob = replicate 50 (replicate 50 0)\<rparr>"

definition alloca :: "Rec_Type \<Rightarrow> globals \<Rightarrow> nat \<times> globals" where
  "alloca junk g = (length (cells g), g\<lparr>cells := cells g @ [junk]\<rparr>)"

definition dh_init :: "Rec_Type \<Rightarrow> Rec_Type \<Rightarrow> locals \<Rightarrow> fault + locals \<times> globals" where
  "dh_init junk1 junk2 l =
     (let (n, g) = alloca junk1 zero_globals;
          g = g\<lparr>Next_Ptr_Glob := Some n\<rparr>;
          (p, g) = alloca junk2 g;
          g = g\<lparr>Ptr_Glob := Some p\<rparr>;
          g = upd_cell p (\<lambda>c. c\<lparr>Ptr_Comp := Next_Ptr_Glob g, Discr := Ident_1, Enum_Comp := Ident_3, Int_Comp := 40\<rparr>) g in
      bind_err (strcpy (Str_Comp (cells g ! p)) some_string) (\<lambda>b.
      bind_err (strcpy (Str_1_Loc l) first_string) (\<lambda>b1.
      bind_err (set_elem2 (Arr_2_Glob g) 8 7 10) (\<lambda>arr2.
        Inr (l\<lparr>Str_1_Loc := b1\<rparr>, (upd_cell p (\<lambda>c. c\<lparr>Str_Comp := b\<rparr>) g)\<lparr>Arr_2_Glob := arr2\<rparr>)))))"

section \<open>One run\<close>

partial_function (option) int_loop :: "int \<Rightarrow> int \<Rightarrow> int option \<Rightarrow> (int \<times> int option) option" where
  "int_loop i1 i2 i3 =
     (if i1 < i2 then
        let i3 = c_int (c_int (5 * i1) - i2);
            i3 = Proc_7 i1 i2
        in int_loop (c_int (i1 + 1)) i2 (Some i3)
      else Some (i1, i3))"

text \<open>The loop over the characters, with the code of \<open>Ch_Index\<close>.\<close>

definition ch_body :: "int \<Rightarrow> int \<Rightarrow> locals \<Rightarrow> globals \<Rightarrow> fault + locals \<times> globals" where
  "ch_body run c l g =
     (let (v, g) = Func_1 (char_of c) CHR ''C'' g in
      if Enum_Loc l = v then
        let l = l\<lparr>Enum_Loc := Proc_6 Ident_1 g\<rparr> in
        bind_err (strcpy (Str_2_Loc l) third_string) (\<lambda>b. Inr (l\<lparr>Str_2_Loc := b, Int_2_Loc := run\<rparr>, g\<lparr>Int_Glob := run\<rparr>))
      else Inr (l, g))"

partial_function (option) ch_loop :: "int \<Rightarrow> int \<Rightarrow> locals \<Rightarrow> globals \<Rightarrow> (fault + locals \<times> globals) option" where
  "ch_loop run c l g =
     (if c \<le> ord (Ch_2_Glob g) then
        (case ch_body run c l g of
           Inl f \<Rightarrow> Some (Inl f)
         | Inr (l', g') \<Rightarrow> ch_loop run ((c + 1) mod 256) l' g')
      else Some (Inr (l, g)))"

definition dh_run :: "int \<Rightarrow> locals \<times> globals \<Rightarrow> (locals \<times> globals) result" where
  "dh_run run s =
     (let (l, g) = s;
          g = Proc_4 (Proc_5 g);
          l = l\<lparr>Int_1_Loc := 2, Int_2_Loc := 3\<rparr> in
      and_then (Some (strcpy (Str_2_Loc l) second_string)) (\<lambda>b.
      let l = l\<lparr>Str_2_Loc := b, Enum_Loc := Ident_2\<rparr> in
      and_then (Func_2 (Str_1_Loc l) (Str_2_Loc l) g) (\<lambda>(v, g).
      let g = g\<lparr>Bool_Glob := (if v = 0 then 1 else 0)\<rparr> in
      case int_loop (Int_1_Loc l) (Int_2_Loc l) (Int_3_Loc l) of
        None \<Rightarrow> None
      | Some (i1, None) \<Rightarrow> Some (Inl Uninitialised)
      | Some (i1, Some i3) \<Rightarrow>
      and_then (Some (Proc_8 (Arr_1_Glob g) (Arr_2_Glob g) i1 i3 g)) (\<lambda>(arr1, arr2, g).
      let g = g\<lparr>Arr_1_Glob := arr1, Arr_2_Glob := arr2\<rparr>;
          l = l\<lparr>Int_1_Loc := i1, Int_3_Loc := Some i3\<rparr> in
      and_then (Some (Proc_1 (Ptr_Glob g) g)) (\<lambda>g.
      and_then (ch_loop run (ord CHR ''A'') l g) (\<lambda>(l, g).
      let i2 = c_int (Int_2_Loc l * Int_1_Loc l) in
      if i3 = 0 then Some (Inl DivisionByZero)
      else
        let i1 = c_int (i2 sdiv i3);
            i2 = c_int (c_int (7 * c_int (i2 - i3)) - i1) in
        and_then (Proc_2 i1 g) (\<lambda>i1.
          Some (Inr (l\<lparr>Int_1_Loc := i1, Int_2_Loc := i2\<rparr>, g)))))))))"

section \<open>The loops of main\<close>

text \<open>\<open>dh_runs n i s\<close>: the \<open>n\<close> runs from \<open>Run_Index = i\<close> on.\<close>

primrec dh_runs :: "nat \<Rightarrow> int \<Rightarrow> locals \<times> globals \<Rightarrow> (locals \<times> globals) result" where
  "dh_runs 0 i s = Some (Inr s)"
| "dh_runs (Suc n) i s = and_then (dh_run i s) (dh_runs n (i + 1))"

text \<open>\<open>clock k\<close>: what the timer reads before and after try \<open>k\<close>.\<close>

partial_function (option) dh_tries ::
    "int \<Rightarrow> (nat \<Rightarrow> int \<times> int) \<Rightarrow> nat \<Rightarrow> int \<Rightarrow> locals \<times> globals \<Rightarrow> effect list \<Rightarrow> (fault + effect list \<times> int \<times> int \<times> locals \<times> globals) option" where
  "dh_tries HZ clock k runs s out =
     (case dh_runs (nat runs) 1 s of
        None \<Rightarrow> None
      | Some (Inl f) \<Rightarrow> Some (Inl f)
      | Some (Inr s') \<Rightarrow>
          let User_Time = c_int (snd (clock k) - fst (clock k)) in
          if User_Time < Too_Small_Time HZ
          then dh_tries HZ clock (Suc k) (c_int (runs * 10)) s'
                 (out @ [Print (''Measured time too small to obtain meaningful results'' @ [NL]), Print [NL]])
          else Some (Inr (out, runs, User_Time, s')))"

definition dh_report :: "int \<Rightarrow> int \<Rightarrow> int \<Rightarrow> fault + effect list" where
  "dh_report HZ runs User_Time =
     (if runs = 0 \<or> HZ = 0 \<or> User_Time = 0 then Inl DivisionByZero
      else
        let Microseconds = c_int (c_int (c_int (User_Time sdiv runs) * Mic_secs_Per_Second) sdiv HZ);
            Dhrystones_Per_Second = c_int (c_int (HZ * runs) sdiv User_Time) in
        Inr [Print (''Microseconds for one run through Dhrystone: '' @ show_int Microseconds @ [NL]),
             Print (''Dhrystones per Second:                      '' @ show_int Dhrystones_Per_Second @ [NL])])"

definition dh_main :: "int \<Rightarrow> (nat \<Rightarrow> int \<times> int) \<Rightarrow> Rec_Type \<Rightarrow> Rec_Type \<Rightarrow> locals \<Rightarrow> (effect list \<times> locals \<times> globals) result" where
  "dh_main HZ clock junk1 junk2 l =
     and_then (Some (dh_init junk1 junk2 l)) (\<lambda>s.
     and_then (dh_tries HZ clock 0 NUMBER_OF_RUNS s []) (\<lambda>(out, runs, User_Time, s').
     and_then (Some (dh_report HZ runs User_Time)) (\<lambda>rep. Some (Inr (out @ rep, s')))))"

end
