(* ===== verification/Dh_Props.thy ===== *)
theory Dh_Props
  imports Dh_Main
begin

text \<open>
  The values that \<open>main\<close> of the benchmark announces for its variables (\<open>should be\<close>), and the loops that need not end.
\<close>

section \<open>Loops that end, and one that may not\<close>

lemma func2_loop_two:
  assumes "3 < length s1" "3 < length s2"
  shows "func2_loop s1 s2 2 ch g =
    (if s1 ! 2 \<noteq> s2 ! 3 then Some (Inr (3, Some CHR ''A'', g)) else func2_loop s1 s2 2 ch (g\<lparr>Ch_1_Glob := s1 ! 2\<rparr>))"
  using assms wraps_exact(1) [of 3]
  by (subst func2_loop.simps) (simp add: elem_def Func_1_def func2_loop.simps [of s1 s2 3])

lemma func2_loop_spins:
  assumes "func2_loop s1 s2 loc ch g = Some r"
  shows "loc = 2 \<and> 3 < length s1 \<and> 3 < length s2 \<longrightarrow> s1 ! 2 \<noteq> s2 ! 3"
proof (rule func2_loop.raw_induct [where P = "\<lambda>s1 s2 loc ch g r. loc = 2 \<and> 3 < length s1 \<and> 3 < length s2 \<longrightarrow> s1 ! 2 \<noteq> s2 ! 3", OF _ assms])
  fix f and s1 s2 :: string and loc :: int and ch g r
  assume IH: "\<And>s1 s2 loc ch g r. f s1 s2 loc ch g = Some r \<Longrightarrow> loc = 2 \<and> 3 < length s1 \<and> 3 < length s2 \<longrightarrow> s1 ! 2 \<noteq> s2 ! 3"
    and body: "(if loc \<le> 2 then
        (case bind_err (elem s1 loc) (\<lambda>a. bind_err (elem s2 (loc + 1)) (\<lambda>b. Inr (Func_1 a b g))) of
           Inl f \<Rightarrow> Some (Inl f)
         | Inr (v, g') \<Rightarrow> if v = Ident_1 then f s1 s2 (c_int (loc + 1)) (Some CHR ''A'') g' else f s1 s2 loc ch g')
      else Some (Inr (loc, ch, g))) = Some r"
  show "loc = 2 \<and> 3 < length s1 \<and> 3 < length s2 \<longrightarrow> s1 ! 2 \<noteq> s2 ! 3"
  proof (intro impI notI)
    assume l: "loc = 2 \<and> 3 < length s1 \<and> 3 < length s2" and eq: "s1 ! 2 = s2 ! 3"
    then have "f s1 s2 2 ch (g\<lparr>Ch_1_Glob := s1 ! 2\<rparr>) = Some r" using body by (simp add: elem_def Func_1_def)
    from IH [OF this] l eq show False by simp
  qed
qed

lemma int_loop_once: "int_loop 2 3 i3 = Some (3, Some 7)"
proof -
  have "c_int 3 = 3" "c_int 4 = 4" "c_int 7 = 7" by (rule wraps_exact; simp)+
  then show ?thesis
    by (subst int_loop.simps) (simp add: Proc_7_def int_loop.simps [of 3])
qed

lemma proc2_A:
  assumes "Ch_1_Glob g = CHR ''A''"
  shows "Proc_2 ref g = Some (Inr (c_int (c_int (c_int (ref + 10) - 1) - Int_Glob g)))"
  unfolding Proc_2_def by (subst proc2_loop.simps) (simp add: assms)

section \<open>What the procedures do in a run\<close>

lemma Func_2_value:
  assumes "3 < length s1" "3 < length s2" "s1 ! 2 \<noteq> s2 ! 3" "NUL \<in> set s1" "NUL \<in> set s2"
  shows "Func_2 s1 s2 g =
    Some (Inr (if after (cstr s1) (cstr s2) then (1, g\<lparr>Int_Glob := 10\<rparr>) else (0, g)))"
proof -
  have "c_int 10 = 10" by (rule wraps_exact) simp_all
  moreover have "\<not> ord CHR ''W'' \<le> ord CHR ''A''" by code_simp
  ultimately show ?thesis
    using assms by (simp add: Func_2_def func2_loop_two strcmp_pos_def)
qed

lemma strings_fit: "length first_string = 30" "length second_string = 30" "length some_string = 30" "length third_string = 30"
  by code_simp+

lemma strcpy_full: "length b = 31 \<Longrightarrow> length s = 30 \<Longrightarrow> strcpy b s = Inr (s @ [NUL])"
  by (simp add: strcpy_def)

lemma Func_2_strings: "Func_2 (first_string @ [NUL]) (second_string @ [NUL]) g = Some (Inr (0, g))"
proof -
  have "\<not> after (cstr (first_string @ [NUL])) (cstr (second_string @ [NUL]))"
    "(first_string @ [NUL]) ! 2 \<noteq> (second_string @ [NUL]) ! 3" by code_simp+
  then show ?thesis by (subst Func_2_value) (simp_all add: strings_fit)
qed

lemma small_ints: "c_int 5 = 5" "c_int 6 = 6" "c_int 7 = 7" "c_int 8 = 8" "c_int 9 = 9" "c_int 12 = 12" "c_int 17 = 17" "c_int 18 = 18"
  "c_int 1 = 1" "c_int 2 = 2" "c_int 14 = 14" "c_int 13 = 13" "c_int 11 = 11" "c_int 10 = 10"
  by (rule wraps_exact; simp)+

lemma Proc_7_values: "Proc_7 10 5 = 17" "Proc_7 6 10 = 18"
  by (simp_all add: Proc_7_def small_ints)

lemma Proc_1_effect:
  assumes "cells g = [cn, cp]" "Ptr_Glob g = Some 1" "Int_Glob g = 5"
    and cp: "Ptr_Comp cp = Some 0" "Discr cp = Ident_1" "Enum_Comp cp = Ident_3"
  shows "Proc_1 (Some 1) g =
    Inr (g\<lparr>cells := [cp\<lparr>Ptr_Comp := Some 0, Enum_Comp := Ident_2, Int_Comp := 18\<rparr>, cp\<lparr>Int_Comp := 17\<rparr>]\<rparr>)"
  using assms by (simp add: Proc_1_def Proc_3_def deref_def upd_cell_def Let_def Proc_7_values Proc_6_def)

lemma Proc_8_effect:
  assumes "length arr1 = 50" "length arr2 = 50" "\<forall>row\<in>set arr2. length row = 50"
  shows "\<exists>arr1' arr2'. Proc_8 arr1 arr2 3 7 g = Inr (arr1', arr2', g\<lparr>Int_Glob := 5\<rparr>) \<and>
    length arr1' = 50 \<and> length arr2' = 50 \<and> (\<forall>row\<in>set arr2'. length row = 50) \<and>
    arr1' ! 8 = 7 \<and> arr2' ! 8 ! 7 = c_int (arr2 ! 8 ! 7 + 1)"
proof -
  have rows: "length (arr2 ! i) = 50" if "i < 50" for i using assms that by simp
  let ?row = "(arr2 ! 8)[8 := 8, 9 := 8, 7 := c_int (arr2 ! 8 ! 7 + 1)]"
  let ?arr2 = "arr2[8 := ?row, 28 := (arr2 ! 28)[8 := 7]]"
  have "Proc_8 arr1 arr2 3 7 g = Inr (arr1[8 := 7, 9 := 7, 38 := 8], ?arr2, g\<lparr>Int_Glob := 5\<rparr>)"
    using assms rows [of 8] rows [of 28]
    by (simp add: Proc_8_def Let_def small_ints set_elem_def elem_def set_elem2_def elem2_def)
  moreover have "\<forall>row\<in>set ?arr2. length row = 50"
    using assms(3) rows [of 8] rows [of 28] by (intro ball_update) simp_all
  ultimately show ?thesis using assms rows [of 8] by simp
qed

lemma ch_loop_twice:
  assumes "Ch_2_Glob g = CHR ''B''" "Enum_Loc l = Ident_2"
  shows "ch_loop run (ord CHR ''A'') l g = Some (Inr (l, g))"
proof -
  have codes: "ord CHR ''A'' = 65" "ord CHR ''B'' = 66" by code_simp+
  have chars: "char_of (65::int) \<noteq> CHR ''C''" "char_of (66::int) \<noteq> CHR ''C''" by code_simp+
  have body: "ch_body run c l g = Inr (l, g)" if "char_of c \<noteq> CHR ''C''" for c
    using that assms(2) by (simp add: ch_body_def Func_1_def)
  show ?thesis
    unfolding codes
    by (subst ch_loop.simps, simp add: assms(1) codes body chars,
        subst ch_loop.simps, simp add: assms(1) codes body chars,
        subst ch_loop.simps, simp add: assms(1) codes)
qed

section \<open>A run\<close>

text \<open>What a run relies on; \<open>v\<close> is the value of \<open>Arr_2_Glob[8][7]\<close>.\<close>

definition dh_ready :: "int \<Rightarrow> locals \<times> globals \<Rightarrow> bool" where
  "dh_ready v s \<longleftrightarrow>
     (let (l, g) = s; c = cells g ! 1 in
      length (cells g) = 2 \<and> Ptr_Glob g = Some 1 \<and> Next_Ptr_Glob g = Some 0 \<and>
      Ptr_Comp c = Some 0 \<and> Discr c = Ident_1 \<and> Enum_Comp c = Ident_3 \<and> Str_Comp c = some_string @ [NUL] \<and>
      length (Arr_1_Glob g) = 50 \<and> length (Arr_2_Glob g) = 50 \<and> (\<forall>row\<in>set (Arr_2_Glob g). length row = 50) \<and>
      Arr_2_Glob g ! 8 ! 7 = v \<and> Str_1_Loc l = first_string @ [NUL] \<and> length (Str_2_Loc l) = 31)"

text \<open>The values that \<open>main\<close> announces after its runs, but for \<open>Arr_2_Glob[8][7]\<close>.\<close>

definition as_documented :: "locals \<times> globals \<Rightarrow> bool" where
  "as_documented s \<longleftrightarrow>
     (let (l, g) = s; p = cells g ! 1; n = cells g ! 0 in
      Int_Glob g = 5 \<and> Bool_Glob g = 1 \<and> Ch_1_Glob g = CHR ''A'' \<and> Ch_2_Glob g = CHR ''B'' \<and> Arr_1_Glob g ! 8 = 7 \<and>
      Ptr_Glob g = Some 1 \<and> Discr p = Ident_1 \<and> Enum_Comp p = Ident_3 \<and> Int_Comp p = 17 \<and> cstr (Str_Comp p) = some_string \<and>
      Next_Ptr_Glob g = Some 0 \<and> Ptr_Comp n = Ptr_Comp p \<and> Discr n = Ident_1 \<and> Enum_Comp n = Ident_2 \<and> Int_Comp n = 18 \<and>
      cstr (Str_Comp n) = some_string \<and>
      Int_1_Loc l = 5 \<and> Int_2_Loc l = 13 \<and> Int_3_Loc l = Some 7 \<and> Enum_Loc l = Ident_2 \<and>
      cstr (Str_1_Loc l) = first_string \<and> cstr (Str_2_Loc l) = second_string)"

lemma cstr_strings: "cstr (some_string @ [NUL]) = some_string" "cstr (first_string @ [NUL]) = first_string"
  "cstr (second_string @ [NUL]) = second_string"
  by code_simp+

lemma two_cells: "length xs = 2 \<Longrightarrow> xs = [xs ! 0, xs ! 1]"
  by (cases xs; cases "tl xs") auto

lemma dh_run_ok:
  assumes "dh_ready v s"
  shows "\<exists>s'. dh_run i s = Some (Inr s') \<and> dh_ready (c_int (v + 1)) s' \<and> as_documented s'"
proof -
  obtain l g where s: "s = (l, g)" by (cases s)
  define c where "c = cells g ! 1"
  have r: "length (cells g) = 2" "Ptr_Glob g = Some 1" "Next_Ptr_Glob g = Some 0" "Ptr_Comp c = Some 0" "Discr c = Ident_1"
    "Enum_Comp c = Ident_3" "Str_Comp c = some_string @ [NUL]" "length (Arr_1_Glob g) = 50" "length (Arr_2_Glob g) = 50"
    "\<forall>row\<in>set (Arr_2_Glob g). length row = 50" "Arr_2_Glob g ! 8 ! 7 = v" "Str_1_Loc l = first_string @ [NUL]" "length (Str_2_Loc l) = 31"
    using assms by (simp_all add: dh_ready_def s c_def Let_def)
  define g1 where "g1 = (Proc_4 (Proc_5 g))\<lparr>Bool_Glob := 1\<rparr>"
  have g1: "cells g1 = cells g" "Ptr_Glob g1 = Some 1" "Next_Ptr_Glob g1 = Some 0" "Arr_1_Glob g1 = Arr_1_Glob g" "Arr_2_Glob g1 = Arr_2_Glob g"
    "Ch_1_Glob g1 = CHR ''A''" "Ch_2_Glob g1 = CHR ''B''" "Bool_Glob g1 = 1"
    using r(2,3) by (simp_all add: g1_def Proc_4_def Proc_5_def Let_def)
  obtain arr1 arr2 where p8: "Proc_8 (Arr_1_Glob g1) (Arr_2_Glob g1) 3 7 g1 = Inr (arr1, arr2, g1\<lparr>Int_Glob := 5\<rparr>)"
    "length arr1 = 50" "length arr2 = 50" "\<forall>row\<in>set arr2. length row = 50" "arr1 ! 8 = 7" "arr2 ! 8 ! 7 = c_int (v + 1)"
    using Proc_8_effect [of "Arr_1_Glob g1" "Arr_2_Glob g1" g1] r(8-11) by (auto simp: g1)
  define g2 where "g2 = g1\<lparr>Int_Glob := 5, Arr_1_Glob := arr1, Arr_2_Glob := arr2\<rparr>"
  define g3 where "g3 = g2\<lparr>cells := [c\<lparr>Ptr_Comp := Some 0, Enum_Comp := Ident_2, Int_Comp := 18\<rparr>, c\<lparr>Int_Comp := 17\<rparr>]\<rparr>"
  have p1: "Proc_1 (Some 1) g2 = Inr g3"
    unfolding g3_def using two_cells [OF r(1)] r(4-6)
    by (intro Proc_1_effect [where cn = "cells g ! 0"]) (simp_all add: g2_def g1 c_def)
  let ?l = "l\<lparr>Int_2_Loc := 3, Str_2_Loc := second_string @ [NUL], Enum_Loc := Ident_2, Int_1_Loc := 3, Int_3_Loc := Some 7\<rparr>"
  have ch: "ch_loop i (ord CHR ''A'') ?l g3 = Some (Inr (?l, g3))"
    by (rule ch_loop_twice) (simp_all add: g3_def g2_def g1)
  have p2: "Proc_2 1 g3 = Some (Inr 5)"
    using g1 by (subst proc2_A) (simp_all add: g3_def g2_def small_ints)
  have ar: "(9::int) sdiv 7 = 1" by (simp add: signed_divide_int_def)
  let ?s' = "(?l\<lparr>Int_1_Loc := 5, Int_2_Loc := 13\<rparr>, g3)"
  have arr: "Arr_1_Glob (Proc_4 (Proc_5 g)) = Arr_1_Glob g" "Arr_2_Glob (Proc_4 (Proc_5 g)) = Arr_2_Glob g"
    using g1(4,5) by (simp_all add: g1_def)
  have rest: "Proc_1 (Ptr_Glob g1) g2 = Inr g3" using p1 g1(2) by simp
  have "dh_run i s = Some (Inr ?s')"
    unfolding dh_run_def s Let_def
    using p8(1) rest ch p2 r(12,13) ar
    by (simp add: strcpy_full strings_fit Func_2_strings int_loop_once small_ints arr g1(4,5) flip: g1_def g2_def)
  moreover have "dh_ready (c_int (v + 1)) ?s'" "as_documented ?s'"
    using p8 r g1 by (simp_all add: dh_ready_def as_documented_def g3_def g2_def cstr_strings strings_fit)
  ultimately show ?thesis by blast
qed

section \<open>All runs\<close>

lemma c_int_absorb: "c_int (c_int x + y) = c_int (x + y)"
proof -
  have "take_bit 32 (signed_take_bit 31 x + y) = take_bit 32 (x + y)"
    by (subst (1 2) take_bit_add [symmetric]) (simp add: take_bit_signed_take_bit)
  then show ?thesis by (simp add: c_int_def signed_take_bit_eq_iff_take_bit_eq)
qed

lemma dh_runs_ok:
  assumes "dh_ready v s"
  shows "\<exists>s'. dh_runs (Suc n) i s = Some (Inr s') \<and> dh_ready (c_int (v + int (Suc n))) s' \<and> as_documented s'"
  using assms
proof (induction n arbitrary: v i s)
  case 0
  with dh_run_ok [of v s i] show ?case by auto
next
  case (Suc n)
  obtain s1 where 1: "dh_run i s = Some (Inr s1)" "dh_ready (c_int (v + 1)) s1" using dh_run_ok [OF Suc.prems] by blast
  from Suc.IH [OF 1(2), of "i + 1"] 1(1) show ?case
    by (auto simp: c_int_absorb add.assoc simp del: dh_runs.simps(2) simp: dh_runs.simps(2) [of "Suc n"])
qed

lemma dh_init_ready:
  assumes "length (Str_Comp junk2) = 31" "length (Str_1_Loc l) = 31" "length (Str_2_Loc l) = 31"
  shows "\<exists>s. dh_init junk1 junk2 l = Inr s \<and> dh_ready 10 s"
  using assms
  by (auto simp: dh_init_def zero_globals_def alloca_def upd_cell_def Let_def strcpy_full strings_fit set_elem2_def set_elem_def elem_def
      dh_ready_def dest!: set_update_subset_insert [THEN subsetD])

section \<open>Repeated tries\<close>

definition elapsed :: "(nat \<Rightarrow> int \<times> int) \<Rightarrow> nat \<Rightarrow> int" where
  "elapsed clock k = c_int (snd (clock k) - fst (clock k))"

definition too_small :: "effect list" where
  "too_small = [Print (''Measured time too small to obtain meaningful results'' @ [NL]), Print [NL]]"

lemma dh_tries_step:
  assumes "dh_ready v s" "0 < runs"
  shows "\<exists>s'. dh_ready (c_int (v + runs)) s' \<and> as_documented s' \<and> dh_tries HZ clock k runs s out =
    (if elapsed clock k < Too_Small_Time HZ then dh_tries HZ clock (Suc k) (c_int (runs * 10)) s' (out @ too_small)
     else Some (Inr (out, runs, elapsed clock k, s')))"
proof -
  obtain n where n: "nat runs = Suc n" using assms(2) by (metis gr0_implies_Suc zero_less_nat_eq)
  then have "int (Suc n) = runs" using assms(2) by linarith
  with dh_runs_ok [OF assms(1), of n 1] n
  obtain s' where s': "dh_runs (nat runs) 1 s = Some (Inr s')" "dh_ready (c_int (v + runs)) s'" "as_documented s'" by auto
  have "dh_tries HZ clock k runs s out =
    (if elapsed clock k < Too_Small_Time HZ then dh_tries HZ clock (Suc k) (c_int (runs * 10)) s' (out @ too_small)
     else Some (Inr (out, runs, elapsed clock k, s')))"
    by (subst dh_tries.simps) (simp add: s'(1) elapsed_def too_small_def Let_def)
  with s'(2,3) show ?thesis by blast
qed

lemma dh_tries_ok:
  assumes "dh_ready v s" "0 < runs" "runs * 10 ^ d < 2 ^ 31"
    and "\<forall>i<d. elapsed clock (k + i) < Too_Small_Time HZ" "Too_Small_Time HZ \<le> elapsed clock (k + d)"
  shows "\<exists>s'. dh_tries HZ clock k runs s out = Some (Inr (out @ concat (replicate d too_small), runs * 10 ^ d, elapsed clock (k + d), s')) \<and>
    as_documented s' \<and> dh_ready (c_int (v + (\<Sum>i\<le>d. runs * 10 ^ i))) s'"
  using assms
proof (induction d arbitrary: k runs v s out)
  case 0
  from dh_tries_step [OF "0.prems"(1,2), of HZ clock k out] "0.prems"(5) show ?case by auto
next
  case (Suc d)
  obtain s1 where 1: "dh_ready (c_int (v + runs)) s1"
    "dh_tries HZ clock k runs s out = dh_tries HZ clock (Suc k) (c_int (runs * 10)) s1 (out @ too_small)"
    using dh_tries_step [OF Suc.prems(1,2), of HZ clock k out] Suc.prems(4) by auto
  have "runs * 10 \<le> runs * 10 ^ Suc d" using Suc.prems(2) by simp
  then have ten: "c_int (runs * 10) = runs * 10" using Suc.prems(2,3) by (intro wraps_exact) linarith+
  have "\<exists>s'. dh_tries HZ clock (Suc k) (runs * 10) s1 (out @ too_small) =
      Some (Inr ((out @ too_small) @ concat (replicate d too_small), runs * 10 * 10 ^ d, elapsed clock (Suc k + d), s')) \<and>
    as_documented s' \<and> dh_ready (c_int (c_int (v + runs) + (\<Sum>i\<le>d. runs * 10 * 10 ^ i))) s'"
    using Suc.prems by (intro Suc.IH [OF 1(1)]) (auto simp: mult.assoc)
  moreover have sum: "v + runs + (\<Sum>i\<le>d. runs * 10 * 10 ^ i) = v + (\<Sum>i\<le>Suc d. runs * 10 ^ i)"
    by (simp add: sum.atMost_Suc_shift mult.assoc del: sum.atMost_Suc)
  ultimately show ?case unfolding 1(2) ten c_int_absorb sum by (auto simp: mult.assoc simp del: sum.atMost_Suc)
qed

section \<open>The benchmark\<close>

text \<open>C14: Whatever the memory holds before, every variable of the benchmark has the value that \<open>main\<close> announces for it when the runs
  are over, and \<open>main\<close> ends once a measurement is long enough. \<open>Arr_2_Glob[8][7]\<close> counts the runs
  of all tries, so it has the announced value \<open>Number_Of_Runs + 10\<close> exactly when the first try is long enough.\<close>

theorem dhrystone_results:
  assumes "length (Str_Comp junk2) = 31" and "length (Str_1_Loc l) = 31" and "length (Str_2_Loc l) = 31" and "0 < HZ" and "k \<le> 6"
    and "\<forall>i<k. elapsed clock i < Too_Small_Time HZ" and "Too_Small_Time HZ \<le> elapsed clock k"
  shows "\<exists>out l' g'. dh_main HZ clock junk1 junk2 l = Some (Inr (out, l', g')) \<and> as_documented (l', g') \<and>
    Arr_2_Glob g' ! 8 ! 7 = 10 + (\<Sum>i\<le>k. NUMBER_OF_RUNS * 10 ^ i) \<and>
    (Arr_2_Glob g' ! 8 ! 7 = NUMBER_OF_RUNS * 10 ^ k + 10 \<longleftrightarrow> k = 0)"
proof -
  obtain s where s: "dh_init junk1 junk2 l = Inr s" "dh_ready 10 s" using dh_init_ready [OF assms(1-3)] by blast
  have p: "(10::int) ^ k \<le> 10 ^ 6" using assms(5) by (intro power_increasing) simp_all
  then have b: "NUMBER_OF_RUNS * 10 ^ k < 2 ^ 31" "0 < NUMBER_OF_RUNS" by (simp_all add: NUMBER_OF_RUNS_def)
  obtain s' where t: "dh_tries HZ clock 0 NUMBER_OF_RUNS s [] =
      Some (Inr (concat (replicate k too_small), NUMBER_OF_RUNS * 10 ^ k, elapsed clock k, s'))" "as_documented s'"
    "dh_ready (c_int (10 + (\<Sum>i\<le>k. NUMBER_OF_RUNS * 10 ^ i))) s'"
    using dh_tries_ok [OF s(2) b(2,1), of clock 0 HZ "[]"] assms(6,7) by auto
  have "(\<Sum>i\<le>k. NUMBER_OF_RUNS * 10 ^ i) \<le> (\<Sum>i\<le>6. NUMBER_OF_RUNS * 10 ^ i)"
    using assms(5) by (intro sum_mono2) (auto simp: NUMBER_OF_RUNS_def)
  also have "\<dots> < 2 ^ 31 - 10" by (simp add: NUMBER_OF_RUNS_def eval_nat_numeral)
  finally have "c_int (10 + (\<Sum>i\<le>k. NUMBER_OF_RUNS * 10 ^ i)) = 10 + (\<Sum>i\<le>k. NUMBER_OF_RUNS * 10 ^ i)"
    using sum_nonneg [of "{..k}" "\<lambda>i. NUMBER_OF_RUNS * 10 ^ i"] b(2) by (intro wraps_exact) auto
  then have v: "Arr_2_Glob (snd s') ! 8 ! 7 = 10 + (\<Sum>i\<le>k. NUMBER_OF_RUNS * 10 ^ i)"
    using t(3) by (simp add: dh_ready_def Let_def case_prod_beta)
  have once: "(\<Sum>i\<le>k. NUMBER_OF_RUNS * 10 ^ i) = NUMBER_OF_RUNS * 10 ^ k \<longleftrightarrow> k = 0"
  proof (cases k)
    case (Suc j)
    have "0 < (\<Sum>i\<le>j. NUMBER_OF_RUNS * 10 ^ i)" by (intro sum_pos) (auto simp: NUMBER_OF_RUNS_def)
    with Suc show ?thesis by simp
  qed simp
  have "0 < elapsed clock k" using assms(4,7) by (simp add: Too_Small_Time_def)
  then obtain rep where "dh_report HZ (NUMBER_OF_RUNS * 10 ^ k) (elapsed clock k) = Inr rep"
    using assms(4) b(2) by (simp add: dh_report_def Let_def)
  then have "dh_main HZ clock junk1 junk2 l = Some (Inr (concat (replicate k too_small) @ rep, fst s', snd s'))"
    using s(1) t(1) by (simp add: dh_main_def)
  with t(2) v once show ?thesis by (metis add.commute add_right_cancel prod.collapse)
qed

definition demo_rec :: Rec_Type where
  "demo_rec = \<lparr>Ptr_Comp = None, Discr = Ident_5, Enum_Comp = Ident_5, Int_Comp = 0, Str_Comp = replicate 31 NUL\<rparr>"

definition demo_locals :: locals where
  "demo_locals = \<lparr>Int_1_Loc = 0, Int_2_Loc = 0, Int_3_Loc = None, Enum_Loc = Ident_5, Str_1_Loc = replicate 31 NUL, Str_2_Loc = replicate 31 NUL\<rparr>"

definition demo_clock :: "nat \<Rightarrow> int \<times> int" where
  "demo_clock k = (if k = 0 then (0, 50) else (100, 600))"

theorem dhrystone_results_witness:
  "\<exists>out l' g'. dh_main 100 demo_clock demo_rec demo_rec demo_locals = Some (Inr (out, l', g')) \<and> as_documented (l', g') \<and>
    Arr_2_Glob g' ! 8 ! 7 = 11010"
proof -
  have "c_int 50 = 50" "c_int 500 = 500" by (rule wraps_exact; simp)+
  then have t: "\<forall>i<1. elapsed demo_clock i < Too_Small_Time 100" "Too_Small_Time 100 \<le> elapsed demo_clock 1"
    by (simp_all add: elapsed_def demo_clock_def Too_Small_Time_def)
  have "length (Str_Comp demo_rec) = 31" "length (Str_1_Loc demo_locals) = 31" "length (Str_2_Loc demo_locals) = 31"
    by (simp_all add: demo_rec_def demo_locals_def)
  from dhrystone_results [OF this _ _ t, of demo_rec] show ?thesis by (auto simp: NUMBER_OF_RUNS_def)
qed

text \<open>The time of one run is divided by the number of runs before it is scaled, and is 0 when it is less than a tick.\<close>

lemma report_truncates:
  assumes "0 < HZ" "0 < t" "t < runs"
  shows "\<exists>d. dh_report HZ runs t = Inr [Print (''Microseconds for one run through Dhrystone: 0'' @ [NL]), d]"
proof -
  have "t sdiv runs = 0" using assms by (simp add: signed_divide_int_def sgn_if)
  moreover have "c_int 0 = 0" by (rule wraps_exact) simp_all
  moreover have "(0::int) sdiv HZ = 0" by (simp add: signed_divide_int_def)
  moreover have "show_int 0 = ''0''" by code_simp
  ultimately show ?thesis using assms by (simp add: dh_report_def Let_def)
qed

text \<open>C39: The loop of \<open>Func_2\<close> does not end exactly when the third character of the first string is the fourth of
  the second; otherwise the function says whether the first string is the greater one.\<close>

theorem func_2_ends_iff:
  assumes "length s1 = 31" and "length s2 = 31" and "NUL \<in> set s1" and "NUL \<in> set s2"
  shows "Func_2 s1 s2 g =
    (if s1 ! 2 = s2 ! 3 then None
     else Some (Inr (if after (cstr s1) (cstr s2) then (1, g\<lparr>Int_Glob := 10\<rparr>) else (0, g))))"
proof (cases "s1 ! 2 = s2 ! 3")
  case True
  then have "func2_loop s1 s2 2 None g = None"
    using func2_loop_spins [of s1 s2 2 None g] assms(1,2) by (cases "func2_loop s1 s2 2 None g") simp_all
  with True show ?thesis by (simp add: Func_2_def)
next
  case False
  with assms show ?thesis by (simp add: Func_2_value)
qed

theorem func_2_ends_iff_witness:
  "Func_2 (replicate 30 CHR ''A'' @ [NUL]) (replicate 30 CHR ''A'' @ [NUL]) zero_globals = None \<and>
   Func_2 (''ABBA'' @ replicate 27 NUL) (''AAAA'' @ replicate 27 NUL) zero_globals = Some (Inr (1, zero_globals\<lparr>Int_Glob := 10\<rparr>))"
proof -
  have "after (cstr (''ABBA'' @ replicate 27 NUL)) (cstr (''AAAA'' @ replicate 27 NUL))" by code_simp
  then show ?thesis
    using func_2_ends_iff [of "replicate 30 CHR ''A'' @ [NUL]" "replicate 30 CHR ''A'' @ [NUL]" zero_globals]
      func_2_ends_iff [of "''ABBA'' @ replicate 27 NUL" "''AAAA'' @ replicate 27 NUL" zero_globals]
    by (simp add: nth_append)
qed

end
