(* ===== verification/Sc_Trials.thy ===== *)
theory Sc_Trials
  imports Ex_Handle
begin

text \<open>
  The trial programs that lie beside the exchange, the earlier trader and the game (the files \<open>test.c\<close>): an earlier message reader, an array of
  elements with a comparison, and three short programs. The trial program of the virtual machine holds a copy
  of \<open>mem_read\<close> and prints one byte of an empty memory.
\<close>

section \<open>The earlier message reader\<close>

text \<open>
  The words are copied into the strings of \<open>market_argv\<close>, which hold \<open>cap\<close> characters with their terminator each. The sixth word is still copied before
  the message is refused.
\<close>

fun copy_words :: "nat \<Rightarrow> nat \<Rightarrow> string list \<Rightarrow> string list \<Rightarrow> fault + nat \<times> string list" where
  "copy_words cap n [] argv = Inr (n, argv)"
| "copy_words cap n (w # ws) argv =
     (if n \<ge> length argv \<or> length w \<ge> cap then Inl BufferOverrun
      else if Suc n > 5 then Inr (Suc n, argv[n := w]) else copy_words cap (Suc n) ws (argv[n := w]))"

definition wrong_number :: "string \<Rightarrow> nat \<Rightarrow> effect" where
  "wrong_number what n = Print (what @ '' - wrong number of arguments: '' @ show_int (int n) @ [NL])"

definition trial_read_message :: "nat \<Rightarrow> string \<Rightarrow> string list \<Rightarrow> fault + message_state \<times> string list \<times> effect list" where
  "trial_read_message cap message market_argv =
     (let message = cut_at CHR '';'' message in
      if message = [] then Inr (INVALID_MESSAGE, market_argv, [Print (''Null input'' @ [NL])])
      else if hd message = CHR '' '' \<or> last message = CHR '' ''
      then Inr (INVALID_MESSAGE, market_argv, [Print (''Invalid - leading/end'' @ [NL])])
      else if double_space message
      then Inr (INVALID_MESSAGE, market_argv, [Print (''Invalid - consecutive whitespaces'' @ [NL])])
      else
        bind_err (copy_words cap 0 (strtok_all message) market_argv) (\<lambda>(arg_count, argv).
          if arg_count > 5 then Inr (INVALID_MESSAGE, argv, [])
          else if length argv < 5 then Inl BufferOverrun
          else
            let hello = Print (''in function - '' @ argv ! 0 @ '' '' @ argv ! 1 @ '' '' @ argv ! 2 @ '' '' @ argv ! 3 @ '' '' @ argv ! 4 @ [NL]) in
            if argv ! 0 = ''SELL'' \<or> argv ! 0 = ''BUY'' then
              if arg_count \<noteq> 5 then Inr (INVALID_MESSAGE, argv, [hello, wrong_number ''Order'' arg_count])
              else Inr (ORDER_RECEIVED, argv, [hello])
            else if argv ! 0 = ''AMEND'' then
              if arg_count \<noteq> 4 then Inr (INVALID_MESSAGE, argv, [hello, wrong_number ''Amend'' arg_count])
              else Inr (AMEND_REQUEST, argv, [hello])
            else if argv ! 0 = ''CANCEL'' then
              if arg_count \<noteq> 2 then Inr (INVALID_MESSAGE, argv, [hello, wrong_number ''Cancel'' arg_count])
              else Inr (CANCEL_REQUEST, argv, [hello])
            else Inr (INVALID_MESSAGE, argv, [hello])))"

section \<open>Elements\<close>

record test_element =
  element_id :: int

text \<open>The array has room for ten pointers; \<open>element_count\<close> is the length of the list.\<close>

record test_array =
  elements :: "test_element list"

definition create_array :: test_array where
  "create_array = \<lparr>elements = []\<rparr>"

definition create_element :: "int \<Rightarrow> test_element" where
  "create_element i = \<lparr>element_id = i\<rparr>"

definition add_element :: "test_array \<Rightarrow> test_element \<Rightarrow> fault + effect list \<times> test_array" where
  "add_element arr x =
     (if length (elements arr) \<ge> 10 then Inl BufferOverrun
      else Inr ([Print (show_int (element_id x) @ [NL])], arr\<lparr>elements := elements arr @ [x]\<rparr>))"

definition reverse :: "test_element \<Rightarrow> test_element \<Rightarrow> int" where
  "reverse a b = (if element_id a < element_id b then 1 else if element_id a > element_id b then - 1 else 0)"

section \<open>The programs\<close>

text \<open>\<open>private_exchange/test.c\<close>: the positions of three products.\<close>

definition trial_bank :: "int list" where
  "trial_bank = (let bank = replicate 3 0; amount = 40000; quantity = 10000 in bank[0 := 1, 1 := 2, 2 := c_int (amount * quantity)])"

definition trial_main :: "effect list" where
  "trial_main = [Print (show_int (trial_bank ! 2) @ [NL])]"

text \<open>
  \<open>auto_trader/test.c\<close> prints the file of products. Where \<open>fgets\<close> finds no further line, \<open>buffer\<close> keeps the one before.
  \<open>BUFFER_READ\<close>, which the headers do not define, is 40 as everywhere else. An array of no line is undefined.
\<close>

fun trial_lines :: "nat \<Rightarrow> string \<Rightarrow> string \<Rightarrow> string list" where
  "trial_lines 0 buf inp = []"
| "trial_lines (Suc n) buf inp =
     (let (buf, inp) = (case fgets (BUFFER_READ - 1) inp of None \<Rightarrow> (buf, inp) | Some (l, rest) \<Rightarrow> (cut_at NL (cstr l), rest))
      in buf # trial_lines n buf inp)"

definition products_main :: "string option \<Rightarrow> effect list \<times> (fault + int)" where
  "products_main file =
     (case file of
        None \<Rightarrow> ([], Inr (- 1))
      | Some inp \<Rightarrow>
          let (buf, inp) = (case fgets (BUFFER_READ - 1) inp of None \<Rightarrow> ([], inp) | Some (l, rest) \<Rightarrow> (cut_at NL (cstr l), rest));
              numLines = atoi buf in
          if numLines \<le> 0 then ([], Inl BufferOverrun)
          else
            let ls = trial_lines (nat numLines) buf inp in
            (Print (show_int numLines @ [NL]) # map (\<lambda>l. Print (l @ [NL])) ls, Inr 0))"

text \<open>\<open>go-in-the-mist/test.c\<close> prints the length of a long text.\<close>

definition long_text :: string where
  "long_text = concat (replicate 442 ''very'') @ ''longstring''"

definition length_main :: "effect list" where
  "length_main = [Print (show_int (int (length long_text)) @ [NL])]"

text \<open>\<open>vm-riskxvii/test.c\<close> prints one byte of a memory of zeros.\<close>

definition byte_main :: "effect list" where
  "byte_main = (let memory = replicate (2 ^ 16) 0 in [Print (hex_digits (memory ! 0xbfff) @ [NL])])"

end
