(* ===== verification/Sc_Props.thy ===== *)
theory Sc_Props
  imports Sc_Trials Ex_Main
begin

text \<open>Properties of the trial programs.\<close>

section \<open>The earlier message reader\<close>

lemma copy_words_eq:
  assumes "length argv = 6" "n \<le> 5" "\<forall>w\<in>set ws. length w < cap"
  shows "copy_words cap n ws argv =
    Inr (n + length (take (6 - n) ws), take n argv @ take (6 - n) ws @ drop (n + length (take (6 - n) ws)) argv)"
  using assms
proof (induction cap n ws argv rule: copy_words.induct)
  case (2 cap n w ws argv)
  have n: "n < length argv" using "2.prems" by simp
  have upd: "take (Suc n) (argv[n := w]) = take n argv @ [w]" using n by (simp add: take_Suc_conv_app_nth)
  have drop: "drop (Suc n + k) (argv[n := w]) = drop (Suc n + k) argv" for k by simp
  have six: "6 - n = Suc (5 - n)" using "2.prems"(2) by simp
  show ?case
  proof (cases "n = 5")
    case True
    with "2.prems" upd n show ?thesis by (simp add: upd_conv_take_nth_drop)
  next
    case False
    with "2.prems" n have "copy_words cap n (w # ws) argv = copy_words cap (Suc n) ws (argv[n := w])" by auto
    also have "\<dots> = Inr (Suc n + length (take (5 - n) ws), (take n argv @ [w]) @ take (5 - n) ws @ drop (Suc n + length (take (5 - n) ws)) argv)"
      using 2 False n upd drop by simp
    finally show ?thesis by (simp add: six)
  qed
qed simp

lemma copy_all:
  assumes "length argv = 6" "\<forall>w\<in>set ws. length w < cap"
  shows "copy_words cap 0 ws argv = Inr (length (take 6 ws), take 6 ws @ drop (length (take 6 ws)) argv)"
  using copy_words_eq [OF assms(1) _ assms(2), of 0] by simp

text \<open>C40: With six strings that are long enough for its words, the earlier reader accepts what the reader of the exchange accepts, and
  leaves the same words behind; it only does not look whether the product of an order is known.\<close>

theorem readers_agree:
  assumes "length argv = COMMAND_ARGC" and "\<forall>w\<in>set (strtok_all (cut_at CHR '';'' m)). length w < cap"
  shows "\<exists>st argv' out out'. trial_read_message cap m argv = Inr (st, argv', out) \<and>
    read_message (cut_at CHR '';'' m) argv ps =
      (if st = ORDER_RECEIVED \<and> argv' ! 2 \<notin> set ps then INVALID_MESSAGE else st, argv', out')"
proof -
  let ?m = "cut_at CHR '';'' m"
  let ?n = "length (take 6 (strtok_all ?m))" and ?argv = "take 6 (strtok_all ?m) @ drop (length (take 6 (strtok_all ?m))) argv"
  have six: "length argv = 6" using assms(1) by (simp add: COMMAND_ARGC_def)
  note copy = copy_all [OF six assms(2)]
  have find: "List.find (\<lambda>x. p = x) ps \<noteq> None \<longleftrightarrow> p \<in> set ps" for p
    by (auto simp: find_None_iff)
  show ?thesis
  proof (cases "spacing_ok ?m")
    case False
    then consider "?m = []" | "?m \<noteq> []" "hd ?m = CHR '' '' \<or> last ?m = CHR '' ''"
      | "?m \<noteq> []" "\<not> (hd ?m = CHR '' '' \<or> last ?m = CHR '' '')" "double_space ?m"
      by (auto simp: spacing_ok_def)
    then show ?thesis
      by cases (simp_all add: trial_read_message_def read_message_def Let_def)
  next
    case True
    then have ok: "?m \<noteq> []" "\<not> (hd ?m = CHR '' '' \<or> last ?m = CHR '' '')" "\<not> double_space ?m" by (simp_all add: spacing_ok_def)
    have len: "\<not> length ?argv < 5" using six by simp
    show ?thesis
      unfolding trial_read_message_def read_message_def Let_def copy bind_err_simps prod.case if_not_P [OF ok(1)] if_not_P [OF ok(2)] if_not_P [OF ok(3)]
        if_not_P [OF len] find
      by (auto split: if_split)
  qed
qed

theorem readers_agree_witness:
  "\<exists>argv' out out'. trial_read_message 10 ''BUY 0 GPU 8 800;'' (replicate 6 []) = Inr (ORDER_RECEIVED, argv', out) \<and>
    read_message ''BUY 0 GPU 8 800'' (replicate 6 []) [''Router''] = (INVALID_MESSAGE, argv', out')"
proof -
  have cut: "cut_at CHR '';'' ''BUY 0 GPU 8 800;'' = ''BUY 0 GPU 8 800''" by code_simp
  have "\<forall>w\<in>set (strtok_all (cut_at CHR '';'' ''BUY 0 GPU 8 800;'')). length w < 10" by code_simp
  moreover have "length (replicate 6 []) = COMMAND_ARGC" by (simp add: COMMAND_ARGC_def)
  ultimately obtain st argv' out out' where t: "trial_read_message 10 ''BUY 0 GPU 8 800;'' (replicate 6 []) = Inr (st, argv', out)"
    "read_message ''BUY 0 GPU 8 800'' (replicate 6 []) [''Router''] =
      (if st = ORDER_RECEIVED \<and> argv' ! 2 \<notin> set [''Router''] then INVALID_MESSAGE else st, argv', out')"
    using readers_agree [of "replicate 6 []" "''BUY 0 GPU 8 800;''" 10 "[''Router'']"] unfolding cut by blast
  have "case trial_read_message 10 ''BUY 0 GPU 8 800;'' (replicate 6 []) of Inl _ \<Rightarrow> False | Inr (st, argv', out) \<Rightarrow> st = ORDER_RECEIVED \<and> argv' ! 2 = ''GPU''"
    by code_simp
  then show ?thesis using t by auto
qed

section \<open>The file of products\<close>

definition file_text :: "string list \<Rightarrow> string" where
  "file_text ls = concat (map (\<lambda>l. l @ [NL]) ls)"

definition is_line :: "string \<Rightarrow> bool" where
  "is_line l \<longleftrightarrow> NL \<notin> set l \<and> NUL \<notin> set l \<and> length l < BUFFER_READ - 1"

lemma fgets_line:
  assumes "is_line l"
  shows "fgets (BUFFER_READ - 1) (l @ NL # rest) = Some (l @ [NL], rest)" "cut_at NL (cstr (l @ [NL])) = l"
proof -
  have "fgets_chars n (l @ NL # rest) = (l @ [NL], rest)" if "NL \<notin> set l" "length l < n" for n
    using that
  proof (induction l arbitrary: n)
    case Nil
    then show ?case by (cases n) simp_all
  next
    case (Cons a l)
    then obtain k where "n = Suc k" "length l < k" by (cases n) auto
    with Cons show ?case by auto
  qed
  then show "fgets (BUFFER_READ - 1) (l @ NL # rest) = Some (l @ [NL], rest)" using assms by (simp add: fgets_def is_line_def)
  have "cstr (l @ [NL]) = l @ [NL]" using assms by (auto simp: cstr_def is_line_def takeWhile_eq_all_conv)
  moreover have "takeWhile (\<lambda>x. x \<noteq> NL) (l @ [NL]) = l"
    using assms by (subst takeWhile_append2) (auto simp: is_line_def)
  ultimately show "cut_at NL (cstr (l @ [NL])) = l" by (simp add: cut_at_def)
qed

lemma trial_lines_file: "\<forall>l\<in>set ls. is_line l \<Longrightarrow> trial_lines (length ls) buf (file_text ls) = ls"
proof (induction ls arbitrary: buf)
  case Nil
  then show ?case by simp
next
  case (Cons l ls)
  have "file_text (l # ls) = l @ NL # file_text ls" by (simp add: file_text_def)
  with Cons fgets_line(1) [of l "file_text ls"] fgets_line(2) [of l] show ?case by simp
qed

text \<open>A file with the number of its lines in front is printed as it is.\<close>

theorem products_printed_back:
  assumes "ls \<noteq> []" and "int (length ls) < 2 ^ 31" and "\<forall>l\<in>set (show_int (int (length ls)) # ls). is_line l"
  shows "products_main (Some (file_text (show_int (int (length ls)) # ls))) =
    (map (\<lambda>l. Print (l @ [NL])) (show_int (int (length ls)) # ls), Inr 0)"
proof -
  let ?n = "show_int (int (length ls))"
  have "file_text (?n # ls) = ?n @ NL # file_text ls" by (simp add: file_text_def)
  moreover have "atoi ?n = int (length ls)" using assms(2) by (intro atoi_show_int) simp_all
  moreover have "is_line ?n" "\<forall>l\<in>set ls. is_line l" using assms(3) by simp_all
  ultimately show ?thesis
    using assms(1) fgets_line(1) [of ?n "file_text ls"] fgets_line(2) [of ?n] trial_lines_file [of ls ?n] by (simp add: products_main_def)
qed

theorem products_printed_back_witness:
  "products_main (Some (file_text [''2'', ''GPU'', ''Router''])) =
    ([Print (''2'' @ [NL]), Print (''GPU'' @ [NL]), Print (''Router'' @ [NL])], Inr 0)"
proof -
  have n: "show_int (int (length [''GPU'', ''Router''])) = ''2''" by code_simp
  have "\<forall>l\<in>set [''2'', ''GPU'', ''Router'']. is_line l" by code_simp
  then show ?thesis using products_printed_back [where ls = "[''GPU'', ''Router'']", unfolded n] by simp
qed

section \<open>Elements\<close>

text \<open>The comparison is that of descending ids, and ten elements fit.\<close>

lemma reverse_order: "reverse a b = - reverse b a" "reverse a b < 0 \<Longrightarrow> reverse b c < 0 \<Longrightarrow> reverse a c < 0"
  by (auto simp: reverse_def split: if_splits)

lemma add_element_room: "(\<exists>out arr'. add_element arr x = Inr (out, arr') \<and> last (elements arr') = x) \<longleftrightarrow> length (elements arr) < 10"
  by (auto simp: add_element_def)

end
