(* ===== verification/Spec2Isabelle.thy ===== *)
theory Spec2Isabelle
  imports Vm_Props Ex_Release Ex_Text Sy_Props Gm_Props Dh_Props Sc_Props
begin

text \<open>
  A verification library for three C programs: a RISC-V virtual machine
  (\<open>src/vm-riskxvii/vm_riskxvii.c\<close>), a stock exchange with its trading programs
  (\<open>src/private_exchange\<close>), and the board game Go in the Mist
  (\<open>src/go_in_the_mist/go-in-the-mist/gitm.c\<close>); and for the programs beside them, a benchmark of the toolchain and the trial programs.

  \<^bold>\<open>Shared theories.\<close> \<open>Prelude\<close> has the fact collections, error results
  (\<open>bind_err\<close>) and the locales \<open>stepping\<close> and \<open>total_stepping\<close>: a machine that takes one input per
  step, with an invariant, and the lemmas on its runs; they are interpreted for the event loop of the exchange
  (\<open>exl\<close>), the auto-trader (\<open>au\<close>), the system of both (\<open>sys\<close>) and the game (\<open>gm\<close>). \<open>C_Text\<close> models the character and string functions of the
  C library that the programs call (\<open>printf\<close>'s decimal and hexadecimal output, \<open>atoi\<close>, \<open>strtok\<close>,
  \<open>strcspn\<close>) with their round trips, and signed arithmetic that wraps. \<open>C_Io\<close> models effects, faults, \<open>fgets\<close>, and the fixed buffers that messages are
  read into, cut and split in place.

  \<^bold>\<open>The virtual machine.\<close> \<open>Vm_Machine\<close>: constants, state (memory as a function on addresses, 33
  registers of 32 bits, input and output), \<open>sign_extend\<close>, \<open>mem_read\<close>, \<open>mem_write\<close>, \<open>reg_write\<close>. \<open>Vm_Exec\<close>: one
  definition per case of the switch in \<open>main\<close>, fetch, dispatch and loader. \<open>Vm_Decode\<close>: the
  immediates at the level of bits. \<open>Vm_Spec\<close>: RV32I as the abstract specification. \<open>Vm_Props\<close>: the interpreter
  refines RV32I on the conforming instructions and states; the exact effect of stores and the exact conditions under
  which offsets and immediates are right; register and frame invariants; the loader; instructions without
  a case. \<open>vm_run\<close> takes a bound on the iterations and reports the state when the bound is used up, so no
  result depends on a bound that is too small (\<open>vm_halt_stable\<close>).

  \<^bold>\<open>The exchange.\<close> \<open>main\<close> of \<open>pe_exchange.c\<close> starts the traders, and its event loop takes one
  message per signal and hands it to one of four handlers; these use \<open>pe_order.c\<close>, \<open>pe_mytrader.c\<close> and
  \<open>pe_market.c\<close>. \<open>Ex_State\<close>: constants, structs and the store; orders are shared by the book,
  the traders and the trades, so a pointer to an order is a cell of a store. \<open>Ex_Order\<close>: \<open>pe_order.c\<close>. \<open>Ex_Trader\<close>:
  \<open>pe_mytrader.c\<close>, with the locale \<open>settlement\<close> (what a purchase, a sale and a tax do to an amount held by
  traders), interpreted for cash and for stock. \<open>Ex_Sort\<close>: the sorting loops, with the locales
  \<open>exchange_sort\<close> and \<open>book_sort\<close>, interpreted for both comparisons. \<open>Ex_Fee\<close>: the fee in the arithmetic of
  binary doubles. \<open>Ex_Market\<close>: the book, the best opposite order, placing an order. \<open>Ex_Print\<close>: the
  report. \<open>Ex_Handle\<close>: parsing and the handlers, with their effects in order. \<open>Ex_Main\<close>: products
  file, start, signal queue and event loop; signals also arrive while a message is handled (\<open>deliver\<close>). The lemmas: \<open>Ex_Book\<close> (well-formed exchanges, price-time priority),
  \<open>Ex_Match\<close> (placing an order refines one abstract match; conservation of cash and stock), \<open>Ex_Invariant\<close>
  (repeated matching as the inductive relation \<open>matches\<close>; uncrossed books; amendments), \<open>Ex_Run\<close> (the invariant of
  the loop), \<open>Ex_Wires\<close> (what the handlers never change of a trader's connection). The properties are in
  \<open>Ex_Props\<close> and \<open>Ex_Loop\<close>, in \<open>Ex_Text\<close> (the texts of the exchange against the size of its buffers) and in \<open>Ex_Release\<close>, which
  also models the frees at the end of \<open>main\<close>, \<open>delMarket\<close>, \<open>delTrader\<close> and \<open>disconnectTrader\<close> on the set of allocated blocks. \<open>fill_loop\<close> gets one more unit of
  fuel than the quantity of the order; every match lowers the quantity, so it never runs out (\<open>order_handled\<close>
  shows that a result is returned).

  \<^bold>\<open>The traders.\<close> \<open>Tr_Auto\<close>: the auto-trader \<open>private_exchange/pe_trader.c\<close>. \<open>Tr_Milestone\<close>: the
  earlier trader and launcher of the directory \<open>auto_trader\<close>, the latter with a heap of blocks that \<open>newTrader\<close> allocates and
  \<open>rmTrader\<close> frees. \<open>Tr_Props\<close>: their properties.

  \<^bold>\<open>Exchange and traders together.\<close> \<open>Sy_System\<close> joins the event loop of the exchange, auto-traders and other programs
  by their pipes and signals: a pipe holds the text that is written and not yet read, a \<open>read\<close> takes what is there and waits while it is empty,
  and the effects of a round are delivered in order. Its events interleave freely; among them are a \<open>read\<close> that a signal interrupts (no
  program sets \<open>SA_RESTART\<close>) and a signal that is merged with one still pending. \<open>Sy_Trade\<close>: an order as text, and
  its match with the only order it meets. \<open>Sy_Way\<close>: rounds followed message by message. \<open>Sy_Props\<close>: the invariant of every run
  of the system, an order's whole way to its match, and what happens to messages that are read together. The properties of this theory
  concern the ids of the auto-trader's answers.

  \<^bold>\<open>Go in the Mist.\<close> \<open>Gm_Game\<close>: all of \<open>gitm.c\<close>. \<open>Gm_Inv\<close>: the invariant of the game. \<open>Gm_Rules\<close>:
  moves, lines of five and faults. \<open>Gm_Diag\<close>: the diagonals that the loops walk. \<open>Gm_Flaws\<close>: those that they
  do not, by a comparison of two boards step by step. \<open>Gm_Props\<close>: the properties. The inner loops of the diagonals get 20
  iterations, the length of a row.

  \<^bold>\<open>The Dhrystone benchmark.\<close> \<open>Dh_Procs\<close>: the procedures of \<open>dhrystone.c\<close> and \<open>dhrystone_main.c\<close>, on records that are shared through
  pointers. \<open>Dh_Main\<close>: its \<open>main\<close>. \<open>Dh_Props\<close>: the benchmark computes the values that it announces, whatever memory holds
  before and whatever the timer reads, and which of its loops may not end. These loops are \<open>partial_function\<close>s on options, so
  that not returning is a value and no bound is needed; that \<open>main\<close> returns is part of the property.

  \<^bold>\<open>The trial programs.\<close> \<open>Sc_Trials\<close>: the files \<open>test.c\<close>. \<open>Sc_Props\<close>: their message reader against the reader of the exchange, and the file
  of products printed back.

  \<^bold>\<open>Conventions.\<close> What the operating system answers (the content of files, results of \<open>fork\<close>,
  \<open>open\<close>, \<open>write\<close>, \<open>realloc\<close>, \<open>waitpid\<close>, the bytes that \<open>read\<close> delivers, the contents of uninitialised
  buffers) is an argument of the model. An access that C leaves undefined (a NULL pointer, a
  variable read before it is assigned, an index outside an array, a double free) is a \<open>fault\<close>.

  \<^bold>\<open>Not modelled.\<close> A failing \<open>malloc\<close> (but in the launcher), and what the auto-traders allocate and free. The child's side of \<open>fork\<close>:
  it becomes a trader program. The contents of the write buffers before their first use. A signal that arrives inside \<open>realloc\<close> of the
  signal array, or before a trader has installed its handler. In the system of exchange and traders a round is one step: signals that arrive while the exchange handles a message are
  part of the exchange alone (\<open>deliver\<close>). The declarations of
  the Linux headers and of the test framework \<open>cmocka.h\<close>, which are vendored and hold no program.
\<close>

section \<open>The auto-trader and the exchange together\<close>

text \<open>A SELL announced to the auto-trader comes back to the exchange as a BUY of the same product, quantity
  and price, through both programs' printing, cutting and parsing, and the exchange accepts it exactly when
  the trader's id counter does not exceed the number of its orders there.\<close>

theorem announced_sell_comes_back:
  assumes "auto_wf st" and "product_name p" and "p \<in> set ps" and "in_limits q pr" and "q < 1000"
    and "length (market_text ''SELL'' p q pr) \<le> BUFFER_READ"
    and "0 \<le> a_orderID st" and "a_orderID st < 2 ^ 31"
    and "length (order_text ''BUY'' (a_orderID st) p q pr) \<le> length b"
  shows "\<exists>st' b' argv'. auto_message wok (market_text ''SELL'' p q pr) st =
      Inr (auto_sends wok st (order_text ''BUY'' (a_orderID st) p q pr), st') \<and>
    cut_message (read_into (order_text ''BUY'' (a_orderID st) p q pr) b) = Inr b' \<and>
    read_message (cstr b') argv ps = (ORDER_RECEIVED, argv', []) \<and>
    newOrder_fields argv' s t (order_type_of (argv' ! 0)) =
      (if a_orderID st \<le> int (length (orders (traders s ! t)))
       then Some \<lparr>order_type = BUY, item = p, quantity = q, unit_price = pr, trader = t, order_id = a_orderID st, order_index = - 1, completed = False\<rparr>
       else None)"
  using auto_announced [OF assms(1,2,4), of SELL wok] order_arrives [OF assms(2-4,7,8), of BUY b argv s t] assms(5,6,9)
  by (auto simp: side_text_def fresh_order_def)

theorem announced_sell_comes_back_witness:
  "\<exists>b' argv'. cut_message (read_into (order_text ''BUY'' (a_orderID demo_auto) ''GPU'' 4 100) (replicate 40 NUL)) = Inr b' \<and>
    read_message (cstr b') (replicate 6 []) demo_products = (ORDER_RECEIVED, argv', []) \<and>
    newOrder_fields argv' demo1 1 (order_type_of (argv' ! 0)) = Some ((demo_order BUY 4 100 1))"
proof -
  have "product_name ''GPU''" "''GPU'' \<in> set demo_products" "in_limits 4 100" "length (market_text ''SELL'' ''GPU'' 4 100) \<le> BUFFER_READ"
    "a_orderID demo_auto = 0" "length (order_text ''BUY'' 0 ''GPU'' 4 100) \<le> length (replicate 40 NUL)"
    by code_simp+
  moreover have "auto_wf demo_auto" using demo_auto_inv by (simp add: auto_inv_def)
  ultimately show ?thesis
    using announced_sell_comes_back [of demo_auto "''GPU''" demo_products 4 100 "replicate 40 NUL" "\<lambda>_ _. True" "replicate 6 []" demo1 1]
    by (auto simp: demo_order_def)
qed

text \<open>C33: One announced BUY puts the auto-trader's id counter ahead of the exchange: the order with which it answers the next
  SELL is parsed and rejected, and the exchange stays as it is.\<close>

theorem announced_buy_spoils_ids:
  assumes "auto_wf st" and "product_name p" and "p \<in> set ps" and "in_limits q pr" and "q < 1000"
    and "length (market_text ''SELL'' p q pr) \<le> BUFFER_READ"
    and "a_orderID st = int (length (orders (traders s ! t)))" and "a_orderID st < 2 ^ 31 - 1"
    and "length (order_text ''BUY'' (a_orderID st + 1) p q pr) \<le> length b"
  shows "\<exists>st1 st2 b' argv'. auto_message wok (market_text ''BUY'' p q pr) st = Inr ([], st1) \<and>
    auto_message wok (market_text ''SELL'' p q pr) st1 = Inr (auto_sends wok st (order_text ''BUY'' (a_orderID st + 1) p q pr), st2) \<and>
    cut_message (read_into (order_text ''BUY'' (a_orderID st + 1) p q pr) b) = Inr b' \<and>
    read_message (cstr b') argv ps = (ORDER_RECEIVED, argv', []) \<and>
    handle_order e ps argv' t pid s = Inr (reject e s t pid, s)"
proof -
  have "length (market_text (side_text BUY) p q pr) \<le> BUFFER_READ" using assms(6) by (simp add: side_text_def market_text_def)
  from auto_announced [OF assms(1,2,4) this, of wok] assms(5)
  obtain st1 where 1: "auto_message wok (market_text ''BUY'' p q pr) st = Inr ([], st1)" "auto_wf st1"
    "a_orderID st1 = c_int (a_orderID st + 1)" "a_fd_W st1 = a_fd_W st" "a_exchange_pid st1 = a_exchange_pid st"
    by (auto simp: side_text_def)
  have id: "a_orderID st1 = a_orderID st + 1" unfolding 1(3) using assms(7,8) by (intro wraps_exact) auto
  have sends: "auto_sends wok st1 m = auto_sends wok st m" for m using 1(4,5) by (simp add: auto_sends_def)
  from auto_announced [OF 1(2) assms(2,4), of SELL wok] assms(5,6)
  obtain st2 where 2: "auto_message wok (market_text ''SELL'' p q pr) st1 = Inr (auto_sends wok st (order_text ''BUY'' (a_orderID st + 1) p q pr), st2)"
    by (auto simp: side_text_def sends id)
  have bounds: "0 \<le> a_orderID st + 1" "a_orderID st + 1 < 2 ^ 31" using assms(7,8) by auto
  from order_arrives [OF assms(2-4) bounds, of BUY b argv s t] assms(7,9)
  obtain b' argv' where 3: "cut_message (read_into (order_text ''BUY'' (a_orderID st + 1) p q pr) b) = Inr b'"
    "read_message (cstr b') argv ps = (ORDER_RECEIVED, argv', [])" "newOrder_fields argv' s t (order_type_of (argv' ! 0)) = None"
    by (auto simp: side_text_def)
  have "handle_order e ps argv' t pid s = Inr (reject e s t pid, s)" using 3(3) by (rule handle_order_None)
  with 1(1) 2 3(1,2) show ?thesis by blast
qed

theorem announced_buy_spoils_ids_witness:
  "\<exists>st1 st2. auto_message (\<lambda>_ _. True) (market_text ''BUY'' ''GPU'' 4 100) demo_auto = Inr ([], st1) \<and>
    auto_message (\<lambda>_ _. True) (market_text ''SELL'' ''GPU'' 4 100) st1 =
      Inr (auto_sends (\<lambda>_ _. True) demo_auto (order_text ''BUY'' 1 ''GPU'' 4 100), st2)"
proof -
  have "product_name ''GPU''" "''GPU'' \<in> set demo_products" "in_limits 4 100" "length (market_text ''SELL'' ''GPU'' 4 100) \<le> BUFFER_READ"
    "a_orderID demo_auto = 0" "orders (traders demo1 ! 1) = []" "length (order_text ''BUY'' 1 ''GPU'' 4 100) \<le> length (replicate 40 NUL)"
    by code_simp+
  moreover have "auto_wf demo_auto" using demo_auto_inv by (simp add: auto_inv_def)
  ultimately show ?thesis
    using announced_buy_spoils_ids [of demo_auto "''GPU''" demo_products 4 100 demo1 1 "replicate 40 NUL" "\<lambda>_ _. True" "replicate 6 []" demo_env 7]
    by auto
qed

end
